(* ===== verification/Prelude.thy ===== *)
theory Prelude
  imports
    Complex_Main
    "HOL-Library.Char_ord"
    "HOL-Library.List_Lexorder"
    "HOL-Library.Product_Lexorder"
begin

text \<open>
  Shared vocabulary of the development: the Python exceptions the modelled code can raise,
  results as sums, the first minimal element of a list (SQL's \<open>ORDER BY k LIMIT 1\<close> and
  Python's \<open>min(xs, key=k)\<close>), point-wise updates of a table kept as a list of rows, and
  the decimal and hexadecimal renderings used in f-strings. Timestamps are integers
  (microseconds since the Unix epoch, UTC); UUIDs are their integer value.
\<close>

type_synonym uuid = nat
type_synonym timestamp = int

named_theorems result_simps \<open>inversion of results of the error monad\<close>
named_theorems frame \<open>what an operation leaves unchanged\<close>
named_theorems table_simps \<open>lookups and counts in an updated table\<close>

section \<open>Exceptions and results\<close>

text \<open>
  The exceptions that leave some modelled function. \<open>UniqueViolationError\<close>,
  \<open>ForeignKeyViolationError\<close>, \<open>CheckViolationError\<close>, \<open>NotNullViolationError\<close> and \<open>DataError\<close> are asyncpg's
  errors for a violated index or constraint and for an argument of the wrong type.
\<close>

datatype py_error =
    ValueError string
  | TypeError string
  | KeyError string
  | AttributeError string
  | RuntimeError string
  | OverflowError
  | InvalidScheduleError string
  | HTTPException nat string
  | UniqueViolationError
  | ForeignKeyViolationError
  | CheckViolationError
  | NotNullViolationError
  | DataError
  | ProviderError string

type_synonym 'a result = "py_error + 'a"

fun bind_res :: "'a result \<Rightarrow> ('a \<Rightarrow> 'b result) \<Rightarrow> 'b result" where
  "bind_res (Inl e) f = Inl e"
| "bind_res (Inr x) f = f x"

lemma bind_res_Inr_iff [result_simps]:
  "bind_res m f = Inr y \<longleftrightarrow> (\<exists>x. m = Inr x \<and> f x = Inr y)"
  by (cases m) auto

lemma bind_res_Inl_iff [result_simps]:
  "bind_res m f = Inl e \<longleftrightarrow> m = Inl e \<or> (\<exists>x. m = Inr x \<and> f x = Inl e)"
  by (cases m) auto

text \<open>\<open>[f(x) for x in xs]\<close>: the first exception ends the comprehension.\<close>

fun map_res :: "('a \<Rightarrow> 'b result) \<Rightarrow> 'a list \<Rightarrow> 'b list result" where
  "map_res f [] = Inr []"
| "map_res f (x # xs) =
     bind_res (f x) (\<lambda>y. bind_res (map_res f xs) (\<lambda>ys. Inr (y # ys)))"

lemma map_res_Inr [simp]: "map_res (\<lambda>x. Inr (f x)) xs = Inr (map f xs)"
  by (induction xs) auto

lemma map_res_cong_Inr:
  "(\<And>x. x \<in> set xs \<Longrightarrow> f x = Inr (g x)) \<Longrightarrow> map_res f xs = Inr (map g xs)"
  by (induction xs) auto

lemma map_res_mem: "map_res f xs = Inr ys \<Longrightarrow> y \<in> set ys \<Longrightarrow> \<exists>x \<in> set xs. f x = Inr y"
  by (induction xs arbitrary: ys) (auto simp: bind_res_Inr_iff)

lemma map_res_all: "map_res f xs = Inr ys \<Longrightarrow> x \<in> set xs \<Longrightarrow> \<exists>y. f x = Inr y"
  by (induction xs arbitrary: ys) (auto simp: bind_res_Inr_iff)

section \<open>First minimal element\<close>

fun first_min :: "('a \<Rightarrow> 'k::linorder) \<Rightarrow> 'a list \<Rightarrow> 'a option" where
  "first_min k [] = None"
| "first_min k (x # xs) =
     (case first_min k xs of
        None \<Rightarrow> Some x
      | Some y \<Rightarrow> if k x \<le> k y then Some x else Some y)"

lemma first_min_None_iff [simp]: "first_min k xs = None \<longleftrightarrow> xs = []"
  by (cases xs) (auto split: option.splits)

lemma first_min_in_set: "first_min k xs = Some x \<Longrightarrow> x \<in> set xs"
  by (induction xs arbitrary: x) (auto split: option.splits if_splits)

lemma first_min_le: "first_min k xs = Some x \<Longrightarrow> y \<in> set xs \<Longrightarrow> k x \<le> k y"
  by (induction xs arbitrary: x y) (fastforce split: option.splits if_splits)+

lemma first_min_Some_ex: "xs \<noteq> [] \<Longrightarrow> \<exists>x. first_min k xs = Some x"
  by (metis first_min_None_iff option.exhaust)

text \<open>\<open>sorted(xs, key=k)[0]\<close> is \<open>min(xs, key=k)\<close>: both are stable.\<close>

lemma hd_sort_key: "xs \<noteq> [] \<Longrightarrow> first_min k xs = Some (hd (sort_key k xs))"
proof (induction xs)
  case Nil
  then show ?case by simp
next
  case (Cons x xs)
  show ?case
  proof (cases "xs = []")
    case True
    then show ?thesis by simp
  next
    case False
    then obtain y zs where yz: "sort_key k xs = y # zs"
      by (metis list.exhaust length_0_conv length_sort)
    with Cons.IH False have "first_min k xs = Some y" by simp
    with yz show ?thesis by simp
  qed
qed

section \<open>Tables as lists of rows\<close>

text \<open>\<open>UPDATE t SET f WHERE P\<close> on a list of rows, and the row \<open>RETURNING\<close> gives.\<close>

definition update_where :: "('r \<Rightarrow> bool) \<Rightarrow> ('r \<Rightarrow> 'r) \<Rightarrow> 'r list \<Rightarrow> 'r list" where
  "update_where P f rs = map (\<lambda>r. if P r then f r else r) rs"

definition count_where :: "('r \<Rightarrow> bool) \<Rightarrow> 'r list \<Rightarrow> nat" where
  "count_where P rs = length (filter P rs)"

lemma length_update_where [simp]: "length (update_where P f rs) = length rs"
  by (simp add: update_where_def)

lemma update_where_none [table_simps]:
  "(\<And>r. r \<in> set rs \<Longrightarrow> \<not> P r) \<Longrightarrow> update_where P f rs = rs"
  by (induction rs) (auto simp: update_where_def)

lemma map_update_where [table_simps]:
  "(\<And>r. P r \<Longrightarrow> g (f r) = g r) \<Longrightarrow> map g (update_where P f rs) = map g rs"
  by (induction rs) (auto simp: update_where_def)

lemma in_set_update_where:
  "r' \<in> set (update_where P f rs) \<longleftrightarrow>
   (\<exists>r \<in> set rs. (P r \<and> r' = f r) \<or> (\<not> P r \<and> r' = r))"
  by (auto simp: update_where_def)

lemma find_Some_iff_set:
  "find P rs = Some r \<Longrightarrow> r \<in> set rs \<and> P r"
  by (auto simp: find_Some_iff)

lemma find_None_set: "find P rs = None \<longleftrightarrow> (\<forall>r \<in> set rs. \<not> P r)"
  by (auto simp: find_None_iff)

lemma find_append:
  "find P (xs @ ys) = (case find P xs of None \<Rightarrow> find P ys | Some x \<Rightarrow> Some x)"
  by (induction xs) simp_all

lemma count_where_0_iff [table_simps]:
  "count_where P rs = 0 \<longleftrightarrow> (\<forall>r \<in> set rs. \<not> P r)"
  by (auto simp: count_where_def filter_empty_conv)

lemma count_where_pos_iff [table_simps]:
  "0 < count_where P rs \<longleftrightarrow> (\<exists>r \<in> set rs. P r)"
  using count_where_0_iff [of P rs] by (metis neq0_conv)

lemma count_where_Nil [simp]: "count_where P [] = 0"
  by (simp add: count_where_def)

lemma count_where_Cons [simp]:
  "count_where P (r # rs) = (if P r then Suc (count_where P rs) else count_where P rs)"
  by (simp add: count_where_def)

lemma count_where_append [simp]: "count_where P (rs @ ss) = count_where P rs + count_where P ss"
  by (simp add: count_where_def)

lemma count_where_mono: "(\<And>r. r \<in> set rs \<Longrightarrow> P r \<Longrightarrow> Q r) \<Longrightarrow> count_where P rs \<le> count_where Q rs"
  by (induction rs) (auto intro: le_SucI)

text \<open>A key that occurs once: updating its row changes one row.\<close>

lemma count_where_update_key:
  assumes "distinct (map k rs)" and "r \<in> set rs" and "U = (\<lambda>x. k x = k r)"
  shows "count_where P (update_where U f rs) + (if P r then 1 else 0) =
         count_where P rs + (if P (f r) then 1 else 0)"
  using assms
proof (induction rs)
  case Nil
  then show ?case by simp
next
  case (Cons x rs)
  show ?case
  proof (cases "r = x")
    case True
    with Cons.prems have "\<And>y. y \<in> set rs \<Longrightarrow> \<not> U y" by (metis distinct.simps(2) image_eqI list.simps(9) list.set_map)
    then have "update_where U f rs = rs" by (rule update_where_none)
    with True Cons.prems(3) show ?thesis by (simp add: update_where_def)
  next
    case False
    with Cons show ?thesis by (auto simp: update_where_def)
  qed
qed

lemma distinct_key_eq:
  "distinct (map k rs) \<Longrightarrow> r \<in> set rs \<Longrightarrow> r' \<in> set rs \<Longrightarrow> k r = k r' \<Longrightarrow> r = r'"
  by (meson eq_key_imp_eq_value distinct_map inj_on_eq_iff)

section \<open>Numbers in f-strings\<close>

definition digit_char :: "nat \<Rightarrow> char" where
  "digit_char n = ''0123456789abcdef'' ! n"

fun str_nat :: "nat \<Rightarrow> string" where
  "str_nat n = (if n < 10 then [digit_char n] else str_nat (n div 10) @ [digit_char (n mod 10)])"

declare str_nat.simps [simp del]

definition str_int :: "int \<Rightarrow> string" where
  "str_int i = (if i < 0 then ''-'' @ str_nat (nat (- i)) else str_nat (nat i))"

text \<open>\<open>str(uuid)\<close>: 32 hexadecimal digits in groups of 8-4-4-4-12.\<close>

fun hex_digits :: "nat \<Rightarrow> nat \<Rightarrow> string" where
  "hex_digits 0 n = []"
| "hex_digits (Suc k) n = hex_digits k (n div 16) @ [digit_char (n mod 16)]"

definition str_uuid :: "uuid \<Rightarrow> string" where
  "str_uuid u =
     (let h = hex_digits 32 u in
        take 8 h @ ''-'' @ take 4 (drop 8 h) @ ''-'' @ take 4 (drop 12 h) @ ''-'' @
        take 4 (drop 16 h) @ ''-'' @ drop 20 h)"

section \<open>Characters\<close>

definition ascii_lower :: "char \<Rightarrow> char" where
  "ascii_lower c =
     (let n = of_char c :: nat in if 65 \<le> n \<and> n \<le> 90 then char_of (n + 32) else c)"

definition ascii_digit :: "char \<Rightarrow> bool" where
  "ascii_digit c \<longleftrightarrow> (let n = of_char c :: nat in 48 \<le> n \<and> n \<le> 57)"

text \<open>ASCII white space as \<open>str.strip\<close> sees it.\<close>

definition py_space :: "char \<Rightarrow> bool" where
  "py_space c \<longleftrightarrow> (let n = of_char c :: nat in 9 \<le> n \<and> n \<le> 13 \<or> 28 \<le> n \<and> n \<le> 32)"

definition str_strip :: "string \<Rightarrow> string" where
  "str_strip s = rev (dropWhile py_space (rev (dropWhile py_space s)))"

text \<open>\<open>s.replace(c, rep)\<close> for a one-character \<open>c\<close>.\<close>

definition str_replace :: "char \<Rightarrow> string \<Rightarrow> string \<Rightarrow> string" where
  "str_replace c rep s = concat (map (\<lambda>x. if x = c then rep else [x]) s)"

lemma str_replace_simps [simp]:
  "str_replace c rep [] = []"
  "str_replace c rep (x # s) = (if x = c then rep else [x]) @ str_replace c rep s"
  by (simp_all add: str_replace_def)

end
