(* ===== verification/Audit_Log.thy ===== *)
theory Audit_Log
  imports Schema
begin

text \<open>
  Writing the audit log (\<^verbatim>\<open>app/audit/emitter.py\<close>): \<open>emit_audit\<close> appends one row and touches
  no other table. \<open>replay_call\<close> and \<open>replay_campaign\<close> read a status back from the log; the
  theories above show that the log of a reachable database always replays to the statuses stored.
\<close>

definition emit_audit :: "timestamp \<Rightarrow> audit_event \<Rightarrow> db \<Rightarrow> db" where
  "emit_audit now ev d =
     d\<lparr>db_audit := db_audit d @ [\<lparr>ar_id = db_audit_seq d, ar_ts = now, ar_event = ev\<rparr>],
       db_audit_seq := Suc (db_audit_seq d)\<rparr>"

lemma emit_audit_frame [simp, frame]:
  "db_campaigns (emit_audit now ev d) = db_campaigns d"
  "db_calls (emit_audit now ev d) = db_calls d"
  "db_cursors (emit_audit now ev d) = db_cursors d"
  "db_inbox (emit_audit now ev d) = db_inbox d"
  by (simp_all add: emit_audit_def)

lemma emit_audit_audit [simp]:
  "db_audit (emit_audit now ev d) =
   db_audit d @ [\<lparr>ar_id = db_audit_seq d, ar_ts = now, ar_event = ev\<rparr>]"
  "db_audit_seq (emit_audit now ev d) = Suc (db_audit_seq d)"
  by (simp_all add: emit_audit_def)

lemma audit_event_of_simps [simp]:
  "ae_event_type (audit_event_of e r) = e"
  "ae_reason (audit_event_of e r) = r"
  "ae_campaign_id (audit_event_of e r) = None"
  "ae_call_id (audit_event_of e r) = None"
  "ae_phone (audit_event_of e r) = None"
  "ae_attempt_epoch (audit_event_of e r) = None"
  "ae_state_before (audit_event_of e r) = None"
  "ae_state_after (audit_event_of e r) = None"
  "ae_extra (audit_event_of e r) = []"
  by (simp_all add: audit_event_of_def)

section \<open>Reading statuses back from the log\<close>

text \<open>
  A row records a status change of a call when it names the call and a state after; of a
  campaign when it names the campaign, no call, and a state after.
\<close>

definition moves_call :: "uuid \<Rightarrow> audit_event \<Rightarrow> bool" where
  "moves_call i ev \<longleftrightarrow> ae_call_id ev = Some i \<and> ae_state_after ev \<noteq> None"

definition moves_campaign :: "uuid \<Rightarrow> audit_event \<Rightarrow> bool" where
  "moves_campaign i ev \<longleftrightarrow>
     ae_campaign_id ev = Some i \<and> ae_call_id ev = None \<and> ae_state_after ev \<noteq> None"

fun replay :: "(audit_event \<Rightarrow> bool) \<Rightarrow> string \<Rightarrow> audit_row list \<Rightarrow> string" where
  "replay M s [] = s"
| "replay M s (r # rs) =
     replay M (if M (ar_event r) then the (ae_state_after (ar_event r)) else s) rs"

definition replay_call :: "uuid \<Rightarrow> audit_row list \<Rightarrow> string" where
  "replay_call i = replay (moves_call i) ''QUEUED''"

definition replay_campaign :: "uuid \<Rightarrow> audit_row list \<Rightarrow> string" where
  "replay_campaign i = replay (moves_campaign i) ''PENDING''"

lemma replay_snoc [simp]:
  "replay M s (rs @ [r]) =
   (if M (ar_event r) then the (ae_state_after (ar_event r)) else replay M s rs)"
  by (induction rs arbitrary: s) auto

lemma replay_no_move: "(\<And>r. r \<in> set rs \<Longrightarrow> \<not> M (ar_event r)) \<Longrightarrow> replay M s rs = s"
  by (induction rs) auto

lemma replay_call_snoc [simp]:
  "replay_call i (rs @ [r]) =
   (if moves_call i (ar_event r) then the (ae_state_after (ar_event r)) else replay_call i rs)"
  by (simp add: replay_call_def)

lemma replay_campaign_snoc [simp]:
  "replay_campaign i (rs @ [r]) =
   (if moves_campaign i (ar_event r) then the (ae_state_after (ar_event r))
    else replay_campaign i rs)"
  by (simp add: replay_campaign_def)

end
