(* ===== verification/Repositories.thy ===== *)
theory Repositories
  imports Audit_Log
begin

text \<open>
  The repositories of \<^verbatim>\<open>app/persistence/repositories.py\<close>: one definition per static method,
  over the tables of \<open>db\<close>. \<open>now\<close> is the statement's \<open>NOW()\<close>, \<open>new_id\<close> what
  \<open>gen_random_uuid()\<close> returns, \<open>locked\<close> the rows other transactions hold, which
  \<open>FOR UPDATE SKIP LOCKED\<close> passes over. A constraint the statement violates is its error.
\<close>

section \<open>CampaignRepo\<close>

definition campaign_exists :: "uuid \<Rightarrow> db \<Rightarrow> bool" where
  "campaign_exists cid d \<longleftrightarrow> (\<exists>c \<in> set (db_campaigns d). cp_id c = cid)"

definition campaign_create ::
  "uuid \<Rightarrow> timestamp \<Rightarrow> string \<Rightarrow> string \<Rightarrow> json_dict \<Rightarrow> int \<Rightarrow> json_dict \<Rightarrow> db \<Rightarrow> (uuid \<times> db) result" where
  "campaign_create new_id now name timezone schedule max_concurrent retry_config d =
     (if max_concurrent \<le> 0 then Inl CheckViolationError
      else if campaign_exists new_id d then Inl UniqueViolationError
      else Inr (new_id,
        d\<lparr>db_campaigns := db_campaigns d @
           [\<lparr>cp_id = new_id, cp_name = name, cp_status = PENDING, cp_timezone = timezone,
             cp_schedule = schedule, cp_max_concurrent = max_concurrent,
             cp_retry_config = retry_config, cp_created_at = now, cp_updated_at = now\<rparr>]\<rparr>))"

definition campaign_get :: "uuid \<Rightarrow> db \<Rightarrow> campaign_row option" where
  "campaign_get cid d = find (\<lambda>c. cp_id c = cid) (db_campaigns d)"

text \<open>The \<open>LEFT JOIN\<close> with \<open>scheduler_campaign_state\<close>: no row and a NULL read alike.\<close>

definition last_dispatch :: "db \<Rightarrow> uuid \<Rightarrow> timestamp option" where
  "last_dispatch d cid = (case db_cursors d cid of None \<Rightarrow> None | Some t \<Rightarrow> t)"

definition with_cursor :: "db \<Rightarrow> campaign_row \<Rightarrow> campaign_row_with_cursor" where
  "with_cursor d c =
     campaign_row.extend c (campaign_row_with_cursor.fields (last_dispatch d (cp_id c)))"

definition has_dispatchable_work :: "db \<Rightarrow> uuid \<Rightarrow> bool" where
  "has_dispatchable_work d cid \<longleftrightarrow>
     (\<exists>r \<in> set (db_calls d).
        cl_campaign_id r = cid \<and> cl_status r \<in> {QUEUED, RETRY_PENDING})"

definition list_eligible_for_tick :: "db \<Rightarrow> campaign_row_with_cursor list" where
  "list_eligible_for_tick d =
     map (with_cursor d)
       (sort_key cp_id
         (filter (\<lambda>c. cp_status c \<in> {PENDING, ACTIVE} \<and> has_dispatchable_work d (cp_id c))
           (db_campaigns d)))"

definition calls_of :: "db \<Rightarrow> uuid \<Rightarrow> call_row list" where
  "calls_of d cid = filter (\<lambda>r. cl_campaign_id r = cid) (db_calls d)"

definition count_status :: "(call_status \<Rightarrow> bool) \<Rightarrow> db \<Rightarrow> uuid \<Rightarrow> int" where
  "count_status S d cid = int (count_where (\<lambda>r. cl_campaign_id r = cid \<and> S (cl_status r)) (db_calls d))"

definition campaign_stats :: "db \<Rightarrow> uuid \<Rightarrow> campaign_stats_row" where
  "campaign_stats d cid =
     \<lparr>st_total = count_status (\<lambda>_. True) d cid,
      st_completed = count_status (\<lambda>s. s = COMPLETED) d cid,
      st_failed = count_status (\<lambda>s. s \<in> {FAILED, NO_ANSWER, BUSY}) d cid,
      st_retries_attempted =
        (\<Sum>r \<leftarrow> calls_of d cid. max (cl_attempt_epoch r - 1) 0),
      st_in_progress =
        count_status (\<lambda>s. s \<in> {QUEUED, DIALING, IN_PROGRESS, RETRY_PENDING}) d cid\<rparr>"

text \<open>\<open>UPDATE campaigns SET status WHERE id AND status = expected RETURNING id\<close>.\<close>

definition campaign_transition_if ::
  "timestamp \<Rightarrow> uuid \<Rightarrow> campaign_status \<Rightarrow> campaign_status \<Rightarrow> db \<Rightarrow> bool \<times> db" where
  "campaign_transition_if now cid expected new d =
     (let P = (\<lambda>c. cp_id c = cid \<and> cp_status c = expected) in
        (find P (db_campaigns d) \<noteq> None,
         d\<lparr>db_campaigns :=
            update_where P (\<lambda>c. c\<lparr>cp_status := new, cp_updated_at := now\<rparr>) (db_campaigns d)\<rparr>))"

section \<open>CallRepo\<close>

text \<open>
  \<open>UPDATE calls SET f WHERE P RETURNING *\<close>: the update fails when it would put two rows with one
  phone into the partial unique index. \<open>P\<close> always contains the primary key.
\<close>

definition update_call_where ::
  "(call_row \<Rightarrow> bool) \<Rightarrow> (call_row \<Rightarrow> call_row) \<Rightarrow> db \<Rightarrow> (call_row option \<times> db) result" where
  "update_call_where P f d =
     (let cs = update_where P f (db_calls d) in
        if phone_index_ok cs
        then Inr (map_option f (find P (db_calls d)), d\<lparr>db_calls := cs\<rparr>)
        else Inl UniqueViolationError)"

definition new_call_row :: "timestamp \<Rightarrow> uuid \<Rightarrow> int \<Rightarrow> uuid \<Rightarrow> string \<Rightarrow> call_row" where
  "new_call_row now cid retries_remaining new_id phone =
     \<lparr>cl_id = new_id, cl_campaign_id = cid, cl_phone = phone, cl_status = QUEUED,
      cl_attempt_epoch = 0, cl_retries_remaining = retries_remaining,
      cl_next_attempt_at = None, cl_provider_call_id = None,
      cl_created_at = now, cl_updated_at = now\<rparr>"

definition create_batch ::
  "uuid list \<Rightarrow> timestamp \<Rightarrow> uuid \<Rightarrow> string list \<Rightarrow> int \<Rightarrow> db \<Rightarrow> (uuid list \<times> db) result" where
  "create_batch new_ids now cid phones retries_remaining d =
     (if phones = [] then Inr ([], d)
      else
        let rows = map2 (new_call_row now cid retries_remaining) new_ids phones;
            cs = db_calls d @ rows
        in if \<not> campaign_exists cid d then Inl ForeignKeyViolationError
           else if \<not> distinct (map cl_id cs) then Inl UniqueViolationError
           else if \<not> phone_index_ok cs then Inl UniqueViolationError
           else Inr (map cl_id rows, d\<lparr>db_calls := cs\<rparr>))"

definition claim_candidate ::
  "(uuid \<Rightarrow> bool) \<Rightarrow> timestamp \<Rightarrow> uuid \<Rightarrow> db \<Rightarrow> call_row option" where
  "claim_candidate locked now cid d =
     first_min cl_created_at
       (filter (\<lambda>r. cl_campaign_id r = cid \<and> cl_status r = QUEUED \<and>
                    (case cl_next_attempt_at r of None \<Rightarrow> True | Some t \<Rightarrow> t \<le> now) \<and>
                    \<not> locked (cl_id r))
          (db_calls d))"

definition claim_row :: "timestamp \<Rightarrow> call_row \<Rightarrow> call_row" where
  "claim_row now r =
     r\<lparr>cl_status := DIALING, cl_attempt_epoch := cl_attempt_epoch r + 1,
       cl_provider_call_id := None, cl_updated_at := now\<rparr>"

definition claim_next_queued ::
  "(uuid \<Rightarrow> bool) \<Rightarrow> timestamp \<Rightarrow> uuid \<Rightarrow> db \<Rightarrow> (call_row option \<times> db) result" where
  "claim_next_queued locked now cid d =
     (case claim_candidate locked now cid d of
        None \<Rightarrow> Inr (None, d)
      | Some c \<Rightarrow> update_call_where (\<lambda>r. cl_id r = cl_id c) (claim_row now) d)"

definition retry_due :: "timestamp \<Rightarrow> call_row \<Rightarrow> bool" where
  "retry_due now r \<longleftrightarrow>
     cl_status r = RETRY_PENDING \<and>
     (case cl_next_attempt_at r of None \<Rightarrow> True | Some t \<Rightarrow> t \<le> now)"

definition find_retry_due_campaign_ids :: "timestamp \<Rightarrow> db \<Rightarrow> uuid list" where
  "find_retry_due_campaign_ids now d =
     remdups (map cl_campaign_id (filter (retry_due now) (db_calls d)))"

definition in_flight_count :: "db \<Rightarrow> uuid \<Rightarrow> int" where
  "in_flight_count d cid = count_status (\<lambda>s. s \<in> {DIALING, IN_PROGRESS}) d cid"

text \<open>
  The dict of one \<open>GROUP BY\<close>: every requested id starts at 0 (\<open>dict.fromkeys\<close>), each group found
  overwrites its entry.
\<close>

definition in_flight_counts_by_campaign :: "uuid list \<Rightarrow> db \<Rightarrow> (uuid \<rightharpoonup> int)" where
  "in_flight_counts_by_campaign cids d =
     (if cids = [] then (\<lambda>_. None)
      else
        fold (\<lambda>cid m. m(cid \<mapsto> in_flight_count d cid))
          (remdups (map cl_campaign_id
             (filter (\<lambda>r. cl_campaign_id r \<in> set cids \<and> cl_status r \<in> {DIALING, IN_PROGRESS})
                (db_calls d))))
          (\<lambda>cid. if cid \<in> set cids then Some 0 else None))"

definition count_active_by_campaign :: "db \<Rightarrow> uuid \<Rightarrow> int" where
  "count_active_by_campaign d cid =
     count_status (\<lambda>s. s \<in> {QUEUED, DIALING, IN_PROGRESS, RETRY_PENDING}) d cid"

definition count_retries_due_system :: "timestamp \<Rightarrow> db \<Rightarrow> int" where
  "count_retries_due_system now d = int (count_where (retry_due now) (db_calls d))"

definition terminal_aggregate :: "db \<Rightarrow> uuid \<Rightarrow> terminal_aggregate_row" where
  "terminal_aggregate d cid =
     \<lparr>ta_completed = count_status (\<lambda>s. s = COMPLETED) d cid,
      ta_failed = count_status (\<lambda>s. s = FAILED) d cid,
      ta_no_answer = count_status (\<lambda>s. s = NO_ANSWER) d cid,
      ta_busy = count_status (\<lambda>s. s = BUSY) d cid\<rparr>"

definition find_stuck_dialing :: "timestamp \<Rightarrow> int \<Rightarrow> db \<Rightarrow> call_row list" where
  "find_stuck_dialing now threshold_seconds d =
     filter (\<lambda>r. cl_status r = DIALING \<and> cl_updated_at r < now - threshold_seconds * 1000000)
       (db_calls d)"

definition get_by_provider_call_id :: "string \<Rightarrow> db \<Rightarrow> call_row option" where
  "get_by_provider_call_id p d = find (\<lambda>r. cl_provider_call_id r = Some p) (db_calls d)"

definition call_get :: "uuid \<Rightarrow> db \<Rightarrow> call_row option" where
  "call_get i d = find (\<lambda>r. cl_id r = i) (db_calls d)"

section \<open>WebhookInboxRepo\<close>

text \<open>
  On a conflict the row is rewritten with its own provider, so the insert changes nothing and
  returns the id of the row that is there.
\<close>

definition inbox_insert ::
  "uuid \<Rightarrow> timestamp \<Rightarrow> string \<Rightarrow> string \<Rightarrow> json_dict \<Rightarrow> json_dict \<Rightarrow> db \<Rightarrow> (uuid \<times> db) result" where
  "inbox_insert new_id now provider event_id payload headers d =
     (case find (\<lambda>r. ib_provider r = provider \<and> ib_provider_event_id r = event_id) (db_inbox d) of
        Some r \<Rightarrow>
          Inr (ib_id r,
            d\<lparr>db_inbox :=
               update_where (\<lambda>r. ib_provider r = provider \<and> ib_provider_event_id r = event_id)
                 (\<lambda>r. r\<lparr>ib_provider := provider\<rparr>) (db_inbox d)\<rparr>)
      | None \<Rightarrow>
          if new_id \<in> set (map ib_id (db_inbox d)) then Inl UniqueViolationError
          else Inr (new_id,
            d\<lparr>db_inbox := db_inbox d @
               [\<lparr>ib_id = new_id, ib_provider = provider, ib_provider_event_id = event_id,
                 ib_payload = payload, ib_headers = headers, ib_received_at = now,
                 ib_processed_at = None\<rparr>]\<rparr>))"

definition claim_unprocessed_one :: "(uuid \<Rightarrow> bool) \<Rightarrow> db \<Rightarrow> webhook_inbox_row option" where
  "claim_unprocessed_one locked d =
     first_min ib_received_at
       (filter (\<lambda>r. ib_processed_at r = None \<and> \<not> locked (ib_id r)) (db_inbox d))"

definition mark_processed :: "timestamp \<Rightarrow> uuid \<Rightarrow> db \<Rightarrow> db" where
  "mark_processed now i d =
     d\<lparr>db_inbox :=
        update_where (\<lambda>r. ib_id r = i) (\<lambda>r. r\<lparr>ib_processed_at := Some now\<rparr>) (db_inbox d)\<rparr>"

section \<open>SchedulerStateRepo\<close>

definition get_last_dispatch_at :: "db \<Rightarrow> uuid \<Rightarrow> timestamp option" where
  "get_last_dispatch_at d cid = (case db_cursors d cid of None \<Rightarrow> None | Some t \<Rightarrow> t)"

definition update_last_dispatch_at :: "uuid \<Rightarrow> timestamp \<Rightarrow> db \<Rightarrow> db result" where
  "update_last_dispatch_at cid ts d =
     (if campaign_exists cid d then Inr (d\<lparr>db_cursors := (db_cursors d)(cid \<mapsto> Some ts)\<rparr>)
      else Inl ForeignKeyViolationError)"

end
