(* ===== verification/Retry_Policy.thy ===== *)
theory Retry_Policy
  imports Schema
begin

text \<open>
  The retry policy: the classifier of \<^verbatim>\<open>app/state/retry_classification.py\<close> and the backoff of
  \<^verbatim>\<open>app/state/retry_apply.py\<close>. Seconds are rationals; a \<open>timedelta\<close> is a number of
  microseconds, rounded half to even and bounded as CPython bounds it.
\<close>

section \<open>Classification\<close>

datatype retry_outcome =
    TERMINAL
  | TRANSIENT_RETRYABLE
  | OUTCOME_NO_ANSWER
  | OUTCOME_BUSY

datatype classifier_input =
    StatusOutcome call_status
  | RejectedOutcome string
  | UnavailableOutcome

definition status_repr :: "call_status \<Rightarrow> string" where
  "status_repr s =
     ''<CallStatus.'' @ call_status_value s @ '': '' @ [CHR 0x27] @ call_status_value s @ [CHR 0x27] @ ''>''"

fun classify :: "classifier_input \<Rightarrow> retry_outcome result" where
  "classify (RejectedOutcome reason_code) = Inr TERMINAL"
| "classify UnavailableOutcome = Inr TRANSIENT_RETRYABLE"
| "classify (StatusOutcome s) =
     (if s = NO_ANSWER then Inr OUTCOME_NO_ANSWER
      else if s = BUSY then Inr OUTCOME_BUSY
      else if s = COMPLETED \<or> s = FAILED then Inr TERMINAL
      else Inl (ValueError (''classify() got non-terminal outcome: '' @ status_repr s)))"

lemma classify_status_Inr_iff: "(\<exists>o'. classify (StatusOutcome s) = Inr o') \<longleftrightarrow> terminal s"
  by (auto simp: terminal_iff)

section \<open>Backoff\<close>

definition round_half_even :: "rat \<Rightarrow> int" where
  "round_half_even x =
     (let f = \<lfloor>x\<rfloor>; r = x - of_int f in
        if r < 1 / 2 then f else if 1 / 2 < r then f + 1 else if even f then f else f + 1)"

definition timedelta_max :: int where
  "timedelta_max = 86399999999999999999"

definition timedelta_of_seconds :: "rat \<Rightarrow> int result" where
  "timedelta_of_seconds s =
     (let us = round_half_even (s * 1000000) in
        if - 86399999913600000000 \<le> us \<and> us \<le> timedelta_max then Inr us else Inl OverflowError)"

definition datetime_min :: timestamp where
  "datetime_min = - 62135596800000000"

definition datetime_max :: timestamp where
  "datetime_max = 253402300799999999"

definition datetime_plus :: "timestamp \<Rightarrow> int \<Rightarrow> timestamp result" where
  "datetime_plus t td =
     (if datetime_min \<le> t + td \<and> t + td \<le> datetime_max then Inr (t + td) else Inl OverflowError)"

definition backoff_exponent :: "int \<Rightarrow> nat" where
  "backoff_exponent attempt_epoch = (if attempt_epoch < 1 then 0 else nat (attempt_epoch - 1))"

text \<open>\<open>u\<close> is the draw of \<open>random.uniform(-0.2, 0.2)\<close>.\<close>

definition compute_backoff :: "rat \<Rightarrow> int \<Rightarrow> rat \<Rightarrow> int result" where
  "compute_backoff u attempt_epoch base_seconds =
     timedelta_of_seconds (base_seconds * 2 ^ backoff_exponent attempt_epoch * (1 + u))"

text \<open>\<open>datetime.now(tz=UTC) + compute_backoff(...)\<close>.\<close>

definition next_attempt_time :: "rat \<Rightarrow> timestamp \<Rightarrow> int \<Rightarrow> rat \<Rightarrow> timestamp result" where
  "next_attempt_time u py_now attempt_epoch base_seconds =
     bind_res (compute_backoff u attempt_epoch base_seconds) (datetime_plus py_now)"

section \<open>Bounds\<close>

lemma round_half_even_near:
  "of_int (round_half_even x) - 1 / 2 \<le> x" "x \<le> of_int (round_half_even x) + 1 / 2"
  by (auto simp: round_half_even_def Let_def) linarith+

lemma round_half_even_mono: "x \<le> y \<Longrightarrow> round_half_even x \<le> round_half_even y"
proof -
  assume le: "x \<le> y"
  then consider "\<lfloor>x\<rfloor> < \<lfloor>y\<rfloor>" | "\<lfloor>x\<rfloor> = \<lfloor>y\<rfloor>" using floor_mono [of x y] by linarith
  then show ?thesis
  proof cases
    case 1
    then show ?thesis by (auto simp: round_half_even_def Let_def)
  next
    case 2
    with le show ?thesis by (auto simp: round_half_even_def Let_def)
  qed
qed

lemma round_half_even_of_int [simp]: "round_half_even (of_int i) = i"
  by (simp add: round_half_even_def)

lemma round_half_even_bounds:
  assumes "of_int lo \<le> x" and "x \<le> of_int hi"
  shows "lo \<le> round_half_even x \<and> round_half_even x \<le> hi"
  using round_half_even_mono [OF assms(1)] round_half_even_mono [OF assms(2)] by simp

end
