(* ===== verification/State_Machine.thy ===== *)
theory State_Machine
  imports Repositories Retry_Policy
begin

text \<open>
  The state machine: \<^verbatim>\<open>app/state/machine.py\<close>, \<^verbatim>\<open>app/state/campaign_terminal.py\<close> and
  \<^verbatim>\<open>app/state/retry_apply.py\<close>. A function that runs on its caller's connection maps the
  database to a result and the new database; an \<open>Inl\<close> is the exception that makes the
  caller's transaction roll back.
\<close>

section \<open>Campaign side-effects\<close>

definition maybe_promote_to_active :: "timestamp \<Rightarrow> uuid \<Rightarrow> db \<Rightarrow> db" where
  "maybe_promote_to_active now cid d =
     (let (updated, d') = campaign_transition_if now cid PENDING ACTIVE d in
        if \<not> updated then d'
        else emit_audit now
          ((audit_event_of CAMPAIGN_PROMOTED_ACTIVE ''first call entered DIALING'')
             \<lparr>ae_campaign_id := Some cid, ae_state_before := Some ''PENDING'',
              ae_state_after := Some ''ACTIVE''\<rparr>) d')"

definition rollup_target :: "db \<Rightarrow> uuid \<Rightarrow> campaign_status" where
  "rollup_target d cid =
     (if 0 < ta_completed (terminal_aggregate d cid) then CAMPAIGN_IS_COMPLETED
      else CAMPAIGN_IS_FAILED)"

definition rollup_event :: "db \<Rightarrow> uuid \<Rightarrow> audit_event" where
  "rollup_event d cid =
     (let agg = terminal_aggregate d cid;
          target = campaign_status_value (rollup_target d cid)
      in (audit_event_of CAMPAIGN_COMPLETED (''all calls terminal; rolling up to '' @ target))
           \<lparr>ae_campaign_id := Some cid, ae_state_before := Some ''ACTIVE'',
            ae_state_after := Some target,
            ae_extra :=
              [(''terminal'', JStr target), (''completed'', JInt (ta_completed agg)),
               (''failed'', JInt (ta_failed agg)), (''no_answer'', JInt (ta_no_answer agg)),
               (''busy'', JInt (ta_busy agg))]\<rparr>)"

definition maybe_transition_campaign_terminal :: "timestamp \<Rightarrow> uuid \<Rightarrow> db \<Rightarrow> db" where
  "maybe_transition_campaign_terminal now cid d =
     (if 0 < count_active_by_campaign d cid then d
      else
        let (updated, d') = campaign_transition_if now cid ACTIVE (rollup_target d cid) d in
          if \<not> updated then d' else emit_audit now (rollup_event d cid) d')"

section \<open>The transition\<close>

datatype col_value =
    ColNull
  | ColInt int
  | ColText string
  | ColTime timestamp

type_synonym column_updates = "(string \<times> col_value) list"

definition ALLOWED_COLUMN_UPDATES :: "string list" where
  "ALLOWED_COLUMN_UPDATES = [''provider_call_id'', ''next_attempt_at'', ''retries_remaining'']"

record transition_result =
  tr_applied :: bool
  tr_row :: "call_row option"
  tr_rejected_reason :: "string option"

definition tr_no_op :: transition_result where
  "tr_no_op = \<lparr>tr_applied = False, tr_row = None, tr_rejected_reason = None\<rparr>"

definition tr_terminal_regression :: transition_result where
  "tr_terminal_regression =
     \<lparr>tr_applied = False, tr_row = None, tr_rejected_reason = Some ''terminal_regression''\<rparr>"

definition tr_applied_of :: "call_row \<Rightarrow> transition_result" where
  "tr_applied_of row = \<lparr>tr_applied = True, tr_row = Some row, tr_rejected_reason = None\<rparr>"

definition is_no_op :: "transition_result \<Rightarrow> bool" where
  "is_no_op r \<longleftrightarrow> \<not> tr_applied r"

definition is_terminal_regression :: "transition_result \<Rightarrow> bool" where
  "is_terminal_regression r \<longleftrightarrow> tr_rejected_reason r = Some ''terminal_regression''"

text \<open>
  One column of the \<open>SET\<close> clause. The columns are typed (\<open>TEXT\<close>, \<open>TIMESTAMPTZ\<close>, \<open>INT NOT
  NULL\<close>): asyncpg refuses an argument of another type before the statement runs, and the
  database refuses a NULL in \<open>retries_remaining\<close> when it updates a row.
\<close>

fun column_encodable :: "string \<times> col_value \<Rightarrow> bool" where
  "column_encodable (c, v) =
     (case v of
        ColNull \<Rightarrow> True
      | ColText _ \<Rightarrow> c = ''provider_call_id''
      | ColTime _ \<Rightarrow> c = ''next_attempt_at''
      | ColInt _ \<Rightarrow> c = ''retries_remaining'')"

fun set_column :: "string \<times> col_value \<Rightarrow> call_row \<Rightarrow> call_row" where
  "set_column (c, v) r =
     (if c = ''provider_call_id'' then
        r\<lparr>cl_provider_call_id := (case v of ColText s \<Rightarrow> Some s | _ \<Rightarrow> None)\<rparr>
      else if c = ''next_attempt_at'' then
        r\<lparr>cl_next_attempt_at := (case v of ColTime t \<Rightarrow> Some t | _ \<Rightarrow> None)\<rparr>
      else if c = ''retries_remaining'' then
        (case v of ColInt n \<Rightarrow> r\<lparr>cl_retries_remaining := n\<rparr> | _ \<Rightarrow> r)
      else r)"

definition null_violation :: "column_updates \<Rightarrow> bool" where
  "null_violation cols \<longleftrightarrow> (''retries_remaining'', ColNull) \<in> set cols"

definition transition_row ::
  "timestamp \<Rightarrow> call_status \<Rightarrow> int option \<Rightarrow> column_updates \<Rightarrow> call_row \<Rightarrow> call_row" where
  "transition_row now new_status new_epoch cols r =
     fold set_column cols
       (case new_epoch of
          None \<Rightarrow> r\<lparr>cl_status := new_status, cl_updated_at := now\<rparr>
        | Some e \<Rightarrow> r\<lparr>cl_status := new_status, cl_updated_at := now, cl_attempt_epoch := e\<rparr>)"

definition transition_event ::
  "call_row \<Rightarrow> event_type \<Rightarrow> string \<Rightarrow> call_status \<Rightarrow> call_status \<Rightarrow> json_dict \<Rightarrow> audit_event" where
  "transition_event row event_type reason expected_status new_status extra =
     (audit_event_of event_type reason)
       \<lparr>ae_campaign_id := Some (cl_campaign_id row), ae_call_id := Some (cl_id row),
        ae_phone := Some (cl_phone row), ae_attempt_epoch := Some (cl_attempt_epoch row),
        ae_state_before := Some (call_status_value expected_status),
        ae_state_after := Some (call_status_value new_status), ae_extra := extra\<rparr>"

definition transition ::
  "timestamp \<Rightarrow> uuid \<Rightarrow> call_status \<Rightarrow> call_status \<Rightarrow> int \<Rightarrow> int option \<Rightarrow> event_type \<Rightarrow> string \<Rightarrow>
   json_dict \<Rightarrow> column_updates \<Rightarrow> db \<Rightarrow> (transition_result \<times> db) result" where
  "transition now call_id expected_status new_status expected_epoch new_epoch
     event_type reason extra cols d =
     (let unauthorized = filter (\<lambda>c. c \<notin> set ALLOWED_COLUMN_UPDATES) (map fst cols) in
      if unauthorized \<noteq> [] then
        Inl (ValueError (''unauthorized column update: '' @ hd (sort unauthorized)))
      else if expected_status \<in> set TERMINAL_CALL_STATUSES \<and> new_status \<noteq> expected_status then
        Inr (tr_terminal_regression, d)
      else if \<not> list_all column_encodable cols then Inl DataError
      else
        let P = (\<lambda>r. cl_id r = call_id \<and> cl_status r = expected_status \<and>
                     cl_attempt_epoch r = expected_epoch) in
        if find P (db_calls d) \<noteq> None \<and> null_violation cols then Inl NotNullViolationError
        else
          bind_res (update_call_where P (transition_row now new_status new_epoch cols) d)
            (\<lambda>(row, d1).
               case row of
                 None \<Rightarrow> Inr (tr_no_op, d1)
               | Some row \<Rightarrow>
                   let d2 = emit_audit now
                              (transition_event row event_type reason expected_status
                                 new_status extra) d1;
                       d3 = (if new_status \<in> set TERMINAL_CALL_STATUSES
                             then maybe_transition_campaign_terminal now (cl_campaign_id row) d2
                             else d2)
                   in Inr (tr_applied_of row, d3)))"

section \<open>Retry or terminal\<close>

text \<open>
  \<open>u\<close> is the jitter drawn and \<open>py_now\<close> the process clock where the code reads them;
  \<open>now\<close> is the transaction's \<open>NOW()\<close>.
\<close>

definition apply_retryable_outcome ::
  "timestamp \<Rightarrow> timestamp \<Rightarrow> rat \<Rightarrow> uuid \<Rightarrow> call_status \<Rightarrow> int \<Rightarrow> int \<Rightarrow> call_status \<Rightarrow> rat \<Rightarrow> string \<Rightarrow>
   db \<Rightarrow> (transition_result \<times> db) result" where
  "apply_retryable_outcome now py_now u call_id expected_status expected_epoch retries_remaining
     outcome backoff_base_seconds reason_prefix d =
     bind_res (classify (StatusOutcome outcome)) (\<lambda>retry_decision.
       if retry_decision = TERMINAL then
         transition now call_id expected_status outcome expected_epoch None TRANSITION
           (reason_prefix @ '' '' @ call_status_value outcome) [] [] d
       else if retries_remaining > 0 then
         bind_res (next_attempt_time u py_now expected_epoch backoff_base_seconds)
           (\<lambda>next_attempt.
              transition now call_id expected_status RETRY_PENDING expected_epoch None TRANSITION
                (reason_prefix @ '' '' @ call_status_value outcome @ ''; backoff scheduled'') []
                [(''next_attempt_at'', ColTime next_attempt),
                 (''retries_remaining'', ColInt (retries_remaining - 1))] d)
       else
         transition now call_id expected_status FAILED expected_epoch None TRANSITION
           (reason_prefix @ '' '' @ call_status_value outcome @ ''; retries exhausted'') [] [] d)"

end
