(* ===== verification/Db_Invariant.thy ===== *)
theory Db_Invariant
  imports State_Machine
begin

text \<open>
  The invariant every transaction of the service keeps (keys, the phone index, the agreement of
  each campaign's status with its calls, and of the audit log with both), the order in which rows
  evolve (terminal statuses absorb, epochs grow), and the proof that one guarded move of a call,
  followed by its audit row and the campaign rollup, keeps the one and respects the other.
\<close>

section \<open>Rewriting one row\<close>

lemma call_key_eq:
  "distinct (map cl_id (db_calls d)) \<Longrightarrow> r \<in> set (db_calls d) \<Longrightarrow> r' \<in> set (db_calls d) \<Longrightarrow>
   cl_id r = cl_id r' \<Longrightarrow> r = r'"
  by (rule distinct_key_eq)

lemma campaign_key_eq:
  "distinct (map cp_id (db_campaigns d)) \<Longrightarrow> c \<in> set (db_campaigns d) \<Longrightarrow>
   c' \<in> set (db_campaigns d) \<Longrightarrow> cp_id c = cp_id c' \<Longrightarrow> c = c'"
  by (rule distinct_key_eq)

definition put_row :: "call_row \<Rightarrow> db \<Rightarrow> db" where
  "put_row r d = d\<lparr>db_calls := map (\<lambda>x. if cl_id x = cl_id r then r else x) (db_calls d)\<rparr>"

definition put_campaign :: "campaign_row \<Rightarrow> db \<Rightarrow> db" where
  "put_campaign c d =
     d\<lparr>db_campaigns := map (\<lambda>x. if cp_id x = cp_id c then c else x) (db_campaigns d)\<rparr>"

lemma put_row_frame [simp, frame]:
  "db_campaigns (put_row r d) = db_campaigns d"
  "db_cursors (put_row r d) = db_cursors d"
  "db_inbox (put_row r d) = db_inbox d"
  "db_audit (put_row r d) = db_audit d"
  "db_audit_seq (put_row r d) = db_audit_seq d"
  by (simp_all add: put_row_def)

lemma put_campaign_frame [simp, frame]:
  "db_calls (put_campaign c d) = db_calls d"
  "db_cursors (put_campaign c d) = db_cursors d"
  "db_inbox (put_campaign c d) = db_inbox d"
  "db_audit (put_campaign c d) = db_audit d"
  "db_audit_seq (put_campaign c d) = db_audit_seq d"
  by (simp_all add: put_campaign_def)

lemma put_row_ids [simp]: "map cl_id (db_calls (put_row r d)) = map cl_id (db_calls d)"
  by (auto simp: put_row_def)

lemma put_campaign_ids [simp]: "map cp_id (db_campaigns (put_campaign c d)) = map cp_id (db_campaigns d)"
  by (auto simp: put_campaign_def)

lemma in_put_row:
  "x \<in> set (db_calls (put_row r d)) \<longleftrightarrow>
   (x = r \<and> (\<exists>y \<in> set (db_calls d). cl_id y = cl_id r)) \<or>
   (x \<in> set (db_calls d) \<and> cl_id x \<noteq> cl_id r)"
  by (auto simp: put_row_def)

text \<open>Relating each row after a rewrite to a row before it.\<close>

lemma put_row_related:
  assumes "r \<in> set (db_calls d)" and "cl_id r' = cl_id r" and "R r r'"
    and "\<And>x. cl_id x \<noteq> cl_id r \<Longrightarrow> R x x"
  shows "\<forall>x \<in> set (db_calls (put_row r' d)). \<exists>y \<in> set (db_calls d). R y x"
proof
  fix x assume "x \<in> set (db_calls (put_row r' d))"
  then consider "x = r'" | "x \<in> set (db_calls d)" "cl_id x \<noteq> cl_id r"
    using assms(2) by (auto simp: in_put_row)
  then show "\<exists>y \<in> set (db_calls d). R y x"
    using assms(1,3,4) by cases blast+
qed

lemma in_put_campaign:
  "x \<in> set (db_campaigns (put_campaign c d)) \<longleftrightarrow>
   (x = c \<and> (\<exists>y \<in> set (db_campaigns d). cp_id y = cp_id c)) \<or>
   (x \<in> set (db_campaigns d) \<and> cp_id x \<noteq> cp_id c)"
  by (auto simp: put_campaign_def)

lemma campaign_exists_put [simp]:
  "campaign_exists i (put_campaign c d) = campaign_exists i d"
  unfolding campaign_exists_def using put_campaign_ids [of c d] by (metis (no_types) in_set_conv_nth image_eqI list.set_map imageE)

lemma campaign_exists_frame [simp]:
  "campaign_exists i (put_row r d) = campaign_exists i d"
  "campaign_exists i (emit_audit now ev d) = campaign_exists i d"
  by (auto simp: campaign_exists_def)

text \<open>Two rows of the partial index never share a phone.\<close>

lemma phone_index_clash:
  assumes "a \<in> set rs" and "b \<in> set rs" and "a \<noteq> b" and "in_phone_index a" and "in_phone_index b"
    and "cl_phone a = cl_phone b"
  shows "\<not> phone_index_ok rs"
  using assms by (auto simp: phone_index_ok_def distinct_map inj_on_def)

text \<open>A rewrite that does not newly enter the partial index cannot break it.\<close>

lemma phone_index_put_row:
  assumes "phone_index_ok (db_calls d)" and "r \<in> set (db_calls d)" and "cl_id r' = cl_id r"
    and "distinct (map cl_id (db_calls d))"
    and "cl_phone r' = cl_phone r" and "in_phone_index r' \<longrightarrow> in_phone_index r"
  shows "phone_index_ok (db_calls (put_row r' d))"
proof -
  have gen: "distinct (map cl_phone (filter in_phone_index (map (\<lambda>x. if cl_id x = cl_id r' then r' else x) rs)))
      \<and> set (map cl_phone (filter in_phone_index (map (\<lambda>x. if cl_id x = cl_id r' then r' else x) rs)))
          \<subseteq> set (map cl_phone (filter in_phone_index rs))"
    if "distinct (map cl_phone (filter in_phone_index rs))"
      "\<And>x. x \<in> set rs \<Longrightarrow> cl_id x = cl_id r' \<Longrightarrow> x = r" for rs
    using that
  proof (induction rs)
    case (Cons x rs)
    have IH: "distinct (map cl_phone (filter in_phone_index (map (\<lambda>x. if cl_id x = cl_id r' then r' else x) rs)))"
        "set (map cl_phone (filter in_phone_index (map (\<lambda>x. if cl_id x = cl_id r' then r' else x) rs)))
          \<subseteq> set (map cl_phone (filter in_phone_index rs))"
      using Cons.IH Cons.prems by (auto split: if_splits)
    show ?case
    proof (cases "cl_id x = cl_id r'")
      case True
      then have "x = r" using Cons.prems(2) by simp
      with IH Cons.prems(1) True assms(5,6) show ?thesis by (auto split: if_splits)
    next
      case False
      with IH Cons.prems(1) show ?thesis by (auto split: if_splits)
    qed
  qed simp
  have "x = r" if "x \<in> set (db_calls d)" "cl_id x = cl_id r'" for x
    using that assms(2,3,4) by (intro call_key_eq [of d]) auto
  with gen [of "db_calls d"] assms(1) show ?thesis
    unfolding phone_index_ok_def put_row_def by simp
qed

lemma find_key_unique:
  assumes "find P xs = Some r" and "distinct (map k xs)" and "\<And>x. P x \<Longrightarrow> k x = k r"
  shows "update_where P f xs = map (\<lambda>x. if k x = k r then f r else x) xs"
proof -
  have r: "r \<in> set xs" "P r" using assms(1) by (auto dest: find_Some_iff_set)
  have key: "k x = k r \<Longrightarrow> x = r" if "x \<in> set xs" for x
    using distinct_key_eq [OF assms(2) that r(1)] .
  have "(if P x then f x else x) = (if k x = k r then f r else x)" if "x \<in> set xs" for x
    using key [OF that] assms(3) [of x] r(2) by (cases "k x = k r") auto
  then show ?thesis by (simp add: update_where_def)
qed

lemma update_call_where_Some:
  assumes "find P (db_calls d) = Some r" and "distinct (map cl_id (db_calls d))"
    and "\<And>x. P x \<Longrightarrow> cl_id x = cl_id r" and "cl_id (f r) = cl_id r"
  shows "update_call_where P f d =
    (if phone_index_ok (db_calls (put_row (f r) d)) then Inr (Some (f r), put_row (f r) d)
     else Inl UniqueViolationError)"
  using find_key_unique [OF assms(1,2,3), of f] assms(1,4)
  by (simp add: update_call_where_def put_row_def Let_def)

lemma update_call_where_None:
  assumes "find P (db_calls d) = None" and "phone_index_ok (db_calls d)"
  shows "update_call_where P f d = Inr (None, d)"
proof -
  have "update_where P f (db_calls d) = db_calls d"
    using assms(1) by (intro update_where_none) (simp add: find_None_set)
  then show ?thesis using assms by (simp add: update_call_where_def Let_def)
qed

lemma campaign_transition_if_Some:
  assumes "c \<in> set (db_campaigns d)" and "cp_status c = e" and "distinct (map cp_id (db_campaigns d))"
  shows "campaign_transition_if now (cp_id c) e n d =
    (True, put_campaign (c\<lparr>cp_status := n, cp_updated_at := now\<rparr>) d)"
proof -
  let ?P = "\<lambda>x. cp_id x = cp_id c \<and> cp_status x = e"
  obtain c' where c': "find ?P (db_campaigns d) = Some c'"
    using assms(1,2) by (metis (mono_tags, lifting) find_None_set option.exhaust)
  then have "c' = c" using assms by (auto dest!: find_Some_iff_set dest: distinct_key_eq)
  with c' have "find ?P (db_campaigns d) = Some c" by simp
  from find_key_unique [OF this assms(3)] this show ?thesis
    by (simp add: campaign_transition_if_def put_campaign_def Let_def)
qed

lemma campaign_transition_if_None:
  assumes "\<And>c. c \<in> set (db_campaigns d) \<Longrightarrow> cp_id c = cid \<Longrightarrow> cp_status c \<noteq> e"
  shows "campaign_transition_if now cid e n d = (False, d)"
proof -
  let ?P = "\<lambda>c. cp_id c = cid \<and> cp_status c = e"
  have none: "\<not> ?P c" if "c \<in> set (db_campaigns d)" for c using that assms by blast
  then have "update_where ?P f (db_campaigns d) = db_campaigns d" for f
    by (intro update_where_none) blast
  moreover have "find ?P (db_campaigns d) = None" using none by (auto simp: find_None_set)
  ultimately show ?thesis by (simp add: campaign_transition_if_def Let_def)
qed

section \<open>Evolution of rows\<close>

definition row_evolves :: "call_row \<Rightarrow> call_row \<Rightarrow> bool" where
  "row_evolves r r' \<longleftrightarrow>
     cl_id r' = cl_id r \<and> cl_campaign_id r' = cl_campaign_id r \<and> cl_phone r' = cl_phone r \<and>
     cl_created_at r' = cl_created_at r \<and> cl_attempt_epoch r \<le> cl_attempt_epoch r' \<and>
     (terminal (cl_status r) \<longrightarrow> cl_status r' = cl_status r)"

fun campaign_rank :: "campaign_status \<Rightarrow> nat" where
  "campaign_rank PENDING = 0"
| "campaign_rank ACTIVE = 1"
| "campaign_rank CAMPAIGN_IS_COMPLETED = 2"
| "campaign_rank CAMPAIGN_IS_FAILED = 2"

text \<open>Campaigns move forward: an order in which the two final statuses are incomparable.\<close>

instantiation campaign_status :: order
begin

definition less_eq_campaign_status :: "campaign_status \<Rightarrow> campaign_status \<Rightarrow> bool" where
  [simp]: "s \<le> t \<longleftrightarrow> t = s \<or> campaign_rank s < campaign_rank t"

definition less_campaign_status :: "campaign_status \<Rightarrow> campaign_status \<Rightarrow> bool" where
  [simp]: "s < t \<longleftrightarrow> campaign_rank s < campaign_rank t"

instance by standard auto

end

definition campaign_evolves :: "campaign_row \<Rightarrow> campaign_row \<Rightarrow> bool" where
  "campaign_evolves c c' \<longleftrightarrow>
     c' = c\<lparr>cp_status := cp_status c', cp_updated_at := cp_updated_at c'\<rparr> \<and>
     cp_status c \<le> cp_status c'"

definition evolves :: "db \<Rightarrow> db \<Rightarrow> bool" where
  "evolves d d' \<longleftrightarrow>
     (\<forall>r \<in> set (db_calls d). \<exists>r' \<in> set (db_calls d'). row_evolves r r') \<and>
     (\<forall>c \<in> set (db_campaigns d). \<exists>c' \<in> set (db_campaigns d'). campaign_evolves c c')"

lemma row_evolves_refl [simp]: "row_evolves r r"
  by (simp add: row_evolves_def)

lemma row_evolves_trans: "row_evolves r s \<Longrightarrow> row_evolves s t \<Longrightarrow> row_evolves r t"
  by (auto simp: row_evolves_def)

lemma campaign_evolves_refl [simp]: "campaign_evolves c c"
  by (simp add: campaign_evolves_def)

lemma campaign_evolves_id: "campaign_evolves c c' \<Longrightarrow> cp_id c' = cp_id c"
  unfolding campaign_evolves_def
  by (metis campaign_row.select_convs(1) campaign_row.surjective campaign_row.update_convs(3)
      campaign_row.update_convs(9))

lemma campaign_evolves_trans:
  assumes "campaign_evolves a b" and "campaign_evolves b c"
  shows "campaign_evolves a c"
proof -
  have "c = a\<lparr>cp_status := cp_status c, cp_updated_at := cp_updated_at c\<rparr>"
    using assms by (cases a; cases b; cases c) (simp add: campaign_evolves_def)
  then show ?thesis using assms by (auto simp: campaign_evolves_def)
qed

lemma evolves_refl [simp]: "evolves d d"
  by (auto simp: evolves_def intro: row_evolves_refl campaign_evolves_refl)

lemma evolves_trans: "evolves a b \<Longrightarrow> evolves b c \<Longrightarrow> evolves a c"
  unfolding evolves_def by (meson row_evolves_trans campaign_evolves_trans)

lemma evolves_same_tables:
  "db_calls d' = db_calls d \<Longrightarrow> db_campaigns d' = db_campaigns d \<Longrightarrow> evolves d d'"
  by (auto simp: evolves_def intro: row_evolves_refl campaign_evolves_refl)

lemma evolves_put_row:
  assumes "distinct (map cl_id (db_calls d))" and "r \<in> set (db_calls d)" and "row_evolves r r'"
  shows "evolves d (put_row r' d)"
proof -
  have "\<exists>y \<in> set (db_calls (put_row r' d)). row_evolves x y" if "x \<in> set (db_calls d)" for x
  proof (cases "cl_id x = cl_id r'")
    case True
    with assms that have "x = r" by (auto simp: row_evolves_def intro: call_key_eq)
    moreover have "r' \<in> set (db_calls (put_row r' d))" using True that by (auto simp: in_put_row)
    ultimately show ?thesis using assms(3) by blast
  next
    case False
    with that show ?thesis by (auto simp: in_put_row intro: row_evolves_refl)
  qed
  then show ?thesis by (auto simp: evolves_def intro: campaign_evolves_refl)
qed

lemma evolves_put_campaign:
  assumes "distinct (map cp_id (db_campaigns d))" and "c \<in> set (db_campaigns d)"
    and "campaign_evolves c c'"
  shows "evolves d (put_campaign c' d)"
proof -
  have "\<exists>y \<in> set (db_campaigns (put_campaign c' d)). campaign_evolves x y"
    if "x \<in> set (db_campaigns d)" for x
  proof (cases "cp_id x = cp_id c'")
    case True
    with assms that have "x = c" by (metis campaign_evolves_id campaign_key_eq)
    moreover have "c' \<in> set (db_campaigns (put_campaign c' d))"
      using True that by (auto simp: in_put_campaign)
    ultimately show ?thesis using assms(3) by blast
  next
    case False
    with that show ?thesis by (auto simp: in_put_campaign intro: campaign_evolves_refl)
  qed
  then show ?thesis by (auto simp: evolves_def intro: row_evolves_refl)
qed


section \<open>The invariant\<close>

definition keys_ok :: "db \<Rightarrow> bool" where
  "keys_ok d \<longleftrightarrow>
     distinct (map cl_id (db_calls d)) \<and> distinct (map cp_id (db_campaigns d)) \<and>
     (\<forall>r \<in> set (db_calls d). campaign_exists (cl_campaign_id r) d) \<and>
     phone_index_ok (db_calls d)"

text \<open>A campaign's status agrees with its calls.\<close>

definition campaign_ok :: "db \<Rightarrow> campaign_row \<Rightarrow> bool" where
  "campaign_ok d c \<longleftrightarrow>
     (let rs = set (calls_of d (cp_id c)) in
      case cp_status c of
        PENDING \<Rightarrow>
          rs \<noteq> {} \<and> (\<forall>r \<in> rs. cl_status r = QUEUED \<and> cl_provider_call_id r = None)
      | ACTIVE \<Rightarrow> (\<exists>r \<in> rs. \<not> terminal (cl_status r))
      | CAMPAIGN_IS_COMPLETED \<Rightarrow>
          (\<forall>r \<in> rs. terminal (cl_status r)) \<and> (\<exists>r \<in> rs. cl_status r = COMPLETED)
      | CAMPAIGN_IS_FAILED \<Rightarrow>
          (\<forall>r \<in> rs. terminal (cl_status r)) \<and> (\<forall>r \<in> rs. cl_status r \<noteq> COMPLETED))"

text \<open>The log replays to the stored statuses, and names no row that does not exist.\<close>

definition audit_ok :: "db \<Rightarrow> bool" where
  "audit_ok d \<longleftrightarrow>
     (\<forall>r \<in> set (db_calls d).
        replay_call (cl_id r) (db_audit d) = call_status_value (cl_status r)) \<and>
     (\<forall>c \<in> set (db_campaigns d).
        replay_campaign (cp_id c) (db_audit d) = campaign_status_value (cp_status c)) \<and>
     (\<forall>a \<in> set (db_audit d). \<forall>i.
        (moves_call i (ar_event a) \<longrightarrow> i \<in> cl_id ` set (db_calls d)) \<and>
        (moves_campaign i (ar_event a) \<longrightarrow> i \<in> cp_id ` set (db_campaigns d)))"

definition db_inv :: "db \<Rightarrow> bool" where
  "db_inv d \<longleftrightarrow>
     keys_ok d \<and> audit_ok d \<and> (\<forall>c \<in> set (db_campaigns d). campaign_ok d c)"

lemma db_invD:
  assumes "db_inv d"
  shows "distinct (map cl_id (db_calls d))" "distinct (map cp_id (db_campaigns d))"
    "phone_index_ok (db_calls d)" "keys_ok d" "audit_ok d"
    "c \<in> set (db_campaigns d) \<Longrightarrow> campaign_ok d c"
    "r \<in> set (db_calls d) \<Longrightarrow> campaign_exists (cl_campaign_id r) d"
  using assms by (auto simp: db_inv_def keys_ok_def)

lemma db_inv_empty: "db_inv empty_db"
  by (simp add: db_inv_def keys_ok_def audit_ok_def empty_db_def phone_index_ok_def)

lemma campaign_of_call:
  assumes "db_inv d" and "r \<in> set (db_calls d)"
  obtains c where "c \<in> set (db_campaigns d)" and "cp_id c = cl_campaign_id r"
  using db_invD(7) [OF assms] by (auto simp: campaign_exists_def)

subsection \<open>Events that move nothing\<close>

text \<open>An event that records no status change (a skip, an ignored webhook, an aged row).\<close>

definition quiet_event :: "audit_event \<Rightarrow> bool" where
  "quiet_event ev \<longleftrightarrow> ae_state_after ev = None"

lemma quiet_moves [simp]:
  "quiet_event ev \<Longrightarrow> \<not> moves_call i ev" "quiet_event ev \<Longrightarrow> \<not> moves_campaign i ev"
  by (simp_all add: quiet_event_def moves_call_def moves_campaign_def)

lemma keys_ok_cong:
  "db_calls d' = db_calls d \<Longrightarrow> db_campaigns d' = db_campaigns d \<Longrightarrow> keys_ok d' \<longleftrightarrow> keys_ok d"
  by (simp add: keys_ok_def campaign_exists_def)

lemma campaign_ok_cong: "db_calls d' = db_calls d \<Longrightarrow> campaign_ok d' c \<longleftrightarrow> campaign_ok d c"
  by (simp add: campaign_ok_def calls_of_def)

lemma db_inv_cong:
  assumes "db_calls d' = db_calls d" and "db_campaigns d' = db_campaigns d"
    and "db_audit d' = db_audit d"
  shows "db_inv d' \<longleftrightarrow> db_inv d"
proof -
  have "keys_ok d' \<longleftrightarrow> keys_ok d" using assms by (intro keys_ok_cong)
  moreover have "audit_ok d' \<longleftrightarrow> audit_ok d" using assms by (simp add: audit_ok_def)
  moreover have "campaign_ok d' c \<longleftrightarrow> campaign_ok d c" for c
    using assms by (intro campaign_ok_cong)
  ultimately show ?thesis using assms by (simp add: db_inv_def)
qed

lemma db_inv_quiet_emit:
  assumes "db_inv d" and "quiet_event ev"
  shows "db_inv (emit_audit now ev d)"
proof -
  have "keys_ok (emit_audit now ev d)"
    using db_invD(4) [OF assms(1)] keys_ok_cong [of "emit_audit now ev d" d] by simp
  moreover have "audit_ok (emit_audit now ev d)"
    using db_invD(5) [OF assms(1)] assms(2) by (simp add: audit_ok_def)
  moreover have "campaign_ok (emit_audit now ev d) c" if "c \<in> set (db_campaigns d)" for c
    using db_invD(6) [OF assms(1) that] campaign_ok_cong [of "emit_audit now ev d" d] by simp
  ultimately show ?thesis by (simp add: db_inv_def)
qed


section \<open>One move of a call\<close>

text \<open>
  What every write of a call's status amounts to: the row rewritten, its audit row appended, and
  the rollup of its campaign when the new status is terminal.
\<close>

definition move_call :: "timestamp \<Rightarrow> call_row \<Rightarrow> audit_event \<Rightarrow> db \<Rightarrow> db" where
  "move_call now r ev d =
     (let d2 = emit_audit now ev (put_row r d) in
        if terminal (cl_status r)
        then maybe_transition_campaign_terminal now (cl_campaign_id r) d2 else d2)"

definition records_move :: "audit_event \<Rightarrow> call_row \<Rightarrow> bool" where
  "records_move ev r \<longleftrightarrow>
     ae_call_id ev = Some (cl_id r) \<and> ae_state_after ev = Some (call_status_value (cl_status r))"

lemma records_move_moves [simp]:
  assumes "records_move ev r"
  shows "moves_call i ev \<longleftrightarrow> i = cl_id r" "\<not> moves_campaign i ev"
    "the (ae_state_after ev) = call_status_value (cl_status r)"
  using assms by (auto simp: records_move_def moves_call_def moves_campaign_def)

lemma calls_of_emit [simp]: "calls_of (emit_audit now ev d) c = calls_of d c"
  by (simp add: calls_of_def)

lemma calls_of_put_campaign [simp]: "calls_of (put_campaign c d) i = calls_of d i"
  by (simp add: calls_of_def)

lemma calls_of_put_row_other:
  assumes "distinct (map cl_id (db_calls d))" and "r \<in> set (db_calls d)" and "row_evolves r r'"
    and "i \<noteq> cl_campaign_id r"
  shows "set (calls_of (put_row r' d) i) = set (calls_of d i)"
  using assms by (auto simp: calls_of_def in_put_row row_evolves_def dest: call_key_eq)

lemma in_calls_of_put_row:
  assumes "r \<in> set (db_calls d)" and "row_evolves r r'"
  shows "x \<in> set (calls_of (put_row r' d) (cl_campaign_id r)) \<longleftrightarrow>
    x = r' \<or> (x \<in> set (calls_of d (cl_campaign_id r)) \<and> cl_id x \<noteq> cl_id r)"
  using assms by (auto simp: calls_of_def in_put_row row_evolves_def)

lemma in_calls_of: "r \<in> set (calls_of d i) \<longleftrightarrow> r \<in> set (db_calls d) \<and> cl_campaign_id r = i"
  by (auto simp: calls_of_def)

lemma count_status_pos: "0 < count_status S d i \<longleftrightarrow> (\<exists>r \<in> set (calls_of d i). S (cl_status r))"
  by (auto simp: count_status_def count_where_pos_iff calls_of_def)

lemma no_active_iff:
  "\<not> 0 < count_active_by_campaign d i \<longleftrightarrow> (\<forall>r \<in> set (calls_of d i). terminal (cl_status r))"
  using active_status_iff
  by (auto simp: count_active_by_campaign_def count_status_pos active_status_def)

text \<open>The rollup restores the one campaign whose calls have all become terminal.\<close>

definition rollup_pending :: "db \<Rightarrow> campaign_row \<Rightarrow> bool" where
  "rollup_pending d c \<longleftrightarrow> cp_status c = ACTIVE \<or> campaign_ok d c"

lemma keys_ok_put_campaign:
  "keys_ok d \<Longrightarrow> keys_ok (put_campaign c d)"
  by (simp add: keys_ok_def del: set_map)

lemma keys_ok_emit [simp]: "keys_ok (emit_audit now ev d) \<longleftrightarrow> keys_ok d"
  by (rule keys_ok_cong) simp_all

lemma campaign_ok_emit [simp]: "campaign_ok (emit_audit now ev d) c \<longleftrightarrow> campaign_ok d c"
  by (rule campaign_ok_cong) simp

lemma campaign_ok_put_campaign [simp]: "campaign_ok (put_campaign c' d) c \<longleftrightarrow> campaign_ok d c"
  by (rule campaign_ok_cong) simp

lemma audit_ok_campaign_event:
  assumes "audit_ok d" and "keys_ok d" and "c \<in> set (db_campaigns d)" and "cp_id c' = cp_id c"
    and "ae_campaign_id ev = Some (cp_id c)" and "ae_call_id ev = None"
    and "ae_state_after ev = Some (campaign_status_value (cp_status c'))"
  shows "audit_ok (emit_audit now ev (put_campaign c' d))"
proof -
  have M: "moves_campaign i ev \<longleftrightarrow> i = cp_id c" "\<not> moves_call i ev" for i
    using assms(5-7) by (auto simp: moves_campaign_def moves_call_def)
  have ids: "cp_id ` set (db_campaigns (put_campaign c' d)) = cp_id ` set (db_campaigns d)"
    using put_campaign_ids [of c' d] by (metis list.set_map)
  have "replay_campaign (cp_id x) (db_audit (emit_audit now ev (put_campaign c' d))) =
        campaign_status_value (cp_status x)"
    if "x \<in> set (db_campaigns (put_campaign c' d))" for x
    using that assms M by (auto simp: in_put_campaign audit_ok_def)
  then show ?thesis
    using assms(1,3) M ids by (auto simp: audit_ok_def)
qed

lemma rollup_inv:
  assumes "keys_ok d" and "audit_ok d" and "campaign_exists cid d"
    and others: "\<And>c. c \<in> set (db_campaigns d) \<Longrightarrow> cp_id c \<noteq> cid \<Longrightarrow> campaign_ok d c"
    and own: "\<And>c. c \<in> set (db_campaigns d) \<Longrightarrow> cp_id c = cid \<Longrightarrow> rollup_pending d c"
  shows "db_inv (maybe_transition_campaign_terminal now cid d)"
proof -
  obtain c where c: "c \<in> set (db_campaigns d)" "cp_id c = cid"
    using assms(3) by (auto simp: campaign_exists_def)
  have uniq: "x = c" if "x \<in> set (db_campaigns d)" "cp_id x = cid" for x
    using that c assms(1) by (intro campaign_key_eq [of d]) (auto simp: keys_ok_def)
  have ok: "campaign_ok d x" if "x \<in> set (db_campaigns d)"
      "cp_status c \<noteq> ACTIVE \<or> (\<exists>r \<in> set (calls_of d cid). \<not> terminal (cl_status r))" for x
  proof (cases "cp_id x = cid")
    case True
    with uniq that have "x = c" by blast
    with own [OF c] that c(2) show ?thesis by (auto simp: rollup_pending_def campaign_ok_def)
  qed (use others that in blast)
  show ?thesis
  proof (cases "0 < count_active_by_campaign d cid")
    case True
    then have "\<exists>r \<in> set (calls_of d cid). \<not> terminal (cl_status r)"
      using no_active_iff [of d cid] by blast
    with ok assms(1,2) True show ?thesis
      by (simp add: maybe_transition_campaign_terminal_def db_inv_def)
  next
    case False
    then have tms: "\<forall>r \<in> set (calls_of d cid). terminal (cl_status r)"
      using no_active_iff by blast
    show ?thesis
    proof (cases "cp_status c = ACTIVE")
      case True
      let ?t = "rollup_target d cid"
      let ?c = "c\<lparr>cp_status := ?t, cp_updated_at := now\<rparr>"
      let ?d = "emit_audit now (rollup_event d cid) (put_campaign ?c d)"
      have run: "maybe_transition_campaign_terminal now cid d = ?d"
        using False True c assms(1) campaign_transition_if_Some [of c d ACTIVE now ?t]
        by (simp add: maybe_transition_campaign_terminal_def keys_ok_def)
      have "keys_ok ?d" using assms(1) by (simp add: keys_ok_put_campaign)
      moreover have "audit_ok ?d"
        using assms(1,2) c
        by (intro audit_ok_campaign_event [where c = c]) (auto simp: rollup_event_def Let_def)
      moreover have "campaign_ok ?d x" if "x \<in> set (db_campaigns ?d)" for x
      proof (cases "cp_id x = cid")
        case True
        with that c have "x = ?c" by (auto simp: in_put_campaign)
        with c tms show ?thesis
          by (auto simp: campaign_ok_def rollup_target_def terminal_aggregate_def
              count_status_pos Let_def split: if_splits)
      next
        case False
        with that c others show ?thesis by (auto simp: in_put_campaign)
      qed
      ultimately show ?thesis unfolding run db_inv_def by blast
    next
      case False
      then have "campaign_transition_if now cid ACTIVE (rollup_target d cid) d = (False, d)"
        using uniq by (intro campaign_transition_if_None) blast
      then have "maybe_transition_campaign_terminal now cid d = d"
        by (simp add: maybe_transition_campaign_terminal_def)
      with ok False assms(1,2) show ?thesis by (simp add: db_inv_def)
    qed
  qed
qed


lemma rollup_evolves:
  assumes "distinct (map cp_id (db_campaigns d))"
  shows "evolves d (maybe_transition_campaign_terminal now cid d)"
proof (cases "0 < count_active_by_campaign d cid")
  case True
  then show ?thesis by (simp add: maybe_transition_campaign_terminal_def)
next
  case False
  note idle = this
  show ?thesis
  proof (cases "\<exists>c \<in> set (db_campaigns d). cp_id c = cid \<and> cp_status c = ACTIVE")
    case True
    then obtain c where c: "c \<in> set (db_campaigns d)" "cp_id c = cid" "cp_status c = ACTIVE"
      by blast
    let ?t = "rollup_target d cid"
    let ?c = "c\<lparr>cp_status := ?t, cp_updated_at := now\<rparr>"
    have "maybe_transition_campaign_terminal now cid d =
          emit_audit now (rollup_event d cid) (put_campaign ?c d)"
      using idle c assms campaign_transition_if_Some [of c d ACTIVE now ?t]
      by (simp add: maybe_transition_campaign_terminal_def)
    moreover have "campaign_evolves c ?c"
      using c(3) by (simp add: campaign_evolves_def rollup_target_def)
    then have "evolves d (put_campaign ?c d)"
      using assms c(1) by (intro evolves_put_campaign)
    moreover have "evolves (put_campaign ?c d) (emit_audit now (rollup_event d cid) (put_campaign ?c d))"
      by (rule evolves_same_tables) simp_all
    ultimately show ?thesis by (metis evolves_trans)
  next
    case False
    then have "maybe_transition_campaign_terminal now cid d = d"
      using idle campaign_transition_if_None [of d cid ACTIVE now "rollup_target d cid"]
      by (auto simp: maybe_transition_campaign_terminal_def)
    then show ?thesis by simp
  qed
qed

lemma rollup_calls [simp]:
  "db_calls (maybe_transition_campaign_terminal now cid d) = db_calls d"
  "db_cursors (maybe_transition_campaign_terminal now cid d) = db_cursors d"
  "db_inbox (maybe_transition_campaign_terminal now cid d) = db_inbox d"
  by (simp_all add: maybe_transition_campaign_terminal_def campaign_transition_if_def Let_def)

lemma move_call_calls [simp]: "db_calls (move_call now r ev d) = db_calls (put_row r d)"
  by (simp add: move_call_def Let_def)

lemma keys_ok_put_row:
  assumes "keys_ok d" and "r \<in> set (db_calls d)" and "row_evolves r r'"
    and "phone_index_ok (db_calls (put_row r' d))"
  shows "keys_ok (put_row r' d)"
  using assms
  by (auto simp: keys_ok_def in_put_row row_evolves_def simp del: set_map)

lemma audit_ok_call_event:
  assumes "audit_ok d" and "r \<in> set (db_calls d)" and "cl_id r' = cl_id r" and "records_move ev r'"
  shows "audit_ok (emit_audit now ev (put_row r' d))"
proof -
  have ids: "cl_id ` set (db_calls (put_row r' d)) = cl_id ` set (db_calls d)"
    using put_row_ids [of r' d] by (metis list.set_map)
  have "replay_call (cl_id x) (db_audit (emit_audit now ev (put_row r' d))) =
        call_status_value (cl_status x)"
    if "x \<in> set (db_calls (put_row r' d))" for x
    using that assms by (auto simp: in_put_row audit_ok_def)
  then show ?thesis using assms ids by (auto simp: audit_ok_def)
qed

text \<open>A campaign is started once it has left \<open>PENDING\<close>; it never goes back.\<close>

definition campaign_started :: "db \<Rightarrow> uuid \<Rightarrow> bool" where
  "campaign_started d i \<longleftrightarrow>
     (\<forall>c \<in> set (db_campaigns d). cp_id c = i \<longrightarrow> cp_status c \<noteq> PENDING)"

lemma campaign_startedI:
  assumes "db_inv d" and "r \<in> set (db_calls d)"
    and "\<not> (cl_status r = QUEUED \<and> cl_provider_call_id r = None)"
  shows "campaign_started d (cl_campaign_id r)"
  using assms db_invD(6) [OF assms(1)]
  by (fastforce simp: campaign_started_def campaign_ok_def in_calls_of)

lemma move_call_inv:
  assumes inv: "db_inv d" and r: "r \<in> set (db_calls d)" and ev: "row_evolves r r'"
    and phone: "phone_index_ok (db_calls (put_row r' d))" and rec: "records_move e r'"
    and started: "campaign_started d (cl_campaign_id r)"
  shows "db_inv (move_call now r' e d)"
proof -
  let ?d = "emit_audit now e (put_row r' d)"
  have keys: "keys_ok ?d" using db_invD(4) [OF inv] r ev phone by (simp add: keys_ok_put_row)
  have id: "cl_id r' = cl_id r" "cl_campaign_id r' = cl_campaign_id r"
    using ev by (simp_all add: row_evolves_def)
  have audit: "audit_ok ?d" using db_invD(5) [OF inv] r id(1) rec by (rule audit_ok_call_event)
  have others: "campaign_ok ?d c" if "c \<in> set (db_campaigns d)" "cp_id c \<noteq> cl_campaign_id r" for c
    using db_invD(6) [OF inv that(1)]
      calls_of_put_row_other [OF db_invD(1) [OF inv] r ev that(2)]
    by (simp add: campaign_ok_def)
  have own: "rollup_pending ?d c"
      "\<not> terminal (cl_status r') \<Longrightarrow> campaign_ok ?d c"
    if c: "c \<in> set (db_campaigns d)" "cp_id c = cl_campaign_id r" for c
  proof -
    have ok: "campaign_ok d c" using db_invD(6) [OF inv c(1)] .
    have rc: "r \<in> set (calls_of d (cl_campaign_id r))" using r by (simp add: in_calls_of)
    note mem = in_calls_of_put_row [OF r ev]
    have tms: "terminal (cl_status r) \<Longrightarrow> cl_status r' = cl_status r"
      using ev by (simp add: row_evolves_def)
    have key: "x \<in> set (calls_of d (cl_campaign_id r)) \<Longrightarrow> cl_id x = cl_id r \<Longrightarrow> x = r" for x
      using r call_key_eq [OF db_invD(1) [OF inv]] by (auto simp: in_calls_of)
    show pend: "rollup_pending ?d c"
      using ok rc c started tms key mem
      by (auto simp: campaign_started_def rollup_pending_def campaign_ok_def Let_def split: campaign_status.splits) metis+
    show "campaign_ok ?d c" if "\<not> terminal (cl_status r')"
    proof (cases "cp_status c = ACTIVE")
      case True
      with that c(2) mem [of r'] show ?thesis by (auto simp: campaign_ok_def)
    next
      case False
      with pend show ?thesis by (simp add: rollup_pending_def)
    qed
  qed
  show ?thesis
  proof (cases "terminal (cl_status r')")
    case True
    have "db_inv (maybe_transition_campaign_terminal now (cl_campaign_id r) ?d)"
      using keys audit db_invD(7) [OF inv r] others own(1) by (intro rollup_inv) simp_all
    with True id show ?thesis by (simp add: move_call_def)
  next
    case False
    have "campaign_ok ?d c" if "c \<in> set (db_campaigns d)" for c
      using others [OF that] own(2) [OF that _ False] by blast
    with keys audit False show ?thesis by (simp add: move_call_def db_inv_def)
  qed
qed

lemma move_call_evolves:
  assumes inv: "db_inv d" and r: "r \<in> set (db_calls d)" and ev: "row_evolves r r'"
  shows "evolves d (move_call now r' e d)"
proof -
  let ?d = "emit_audit now e (put_row r' d)"
  have "evolves d (put_row r' d)" using db_invD(1) [OF inv] r ev by (rule evolves_put_row)
  moreover have "evolves (put_row r' d) ?d" by (rule evolves_same_tables) simp_all
  moreover have "evolves ?d (maybe_transition_campaign_terminal now c ?d)" for c
    using db_invD(2) [OF inv] by (intro rollup_evolves) simp
  ultimately have "evolves d ?d" "evolves d (maybe_transition_campaign_terminal now (cl_campaign_id r') ?d)"
    by (blast intro: evolves_trans)+
  then show ?thesis by (simp add: move_call_def Let_def)
qed


section \<open>Promotion\<close>

lemma promote_cases:
  assumes "distinct (map cp_id (db_campaigns d))"
  obtains
    (skip) "\<And>c. c \<in> set (db_campaigns d) \<Longrightarrow> cp_id c = cid \<Longrightarrow> cp_status c \<noteq> PENDING"
      and "maybe_promote_to_active now cid d = d"
  | (promote) c ev where "c \<in> set (db_campaigns d)" and "cp_id c = cid" and "cp_status c = PENDING"
      and "ae_campaign_id ev = Some cid" and "ae_call_id ev = None"
      and "ae_state_after ev = Some ''ACTIVE''"
      and "maybe_promote_to_active now cid d =
           emit_audit now ev (put_campaign (c\<lparr>cp_status := ACTIVE, cp_updated_at := now\<rparr>) d)"
proof (cases "\<exists>c \<in> set (db_campaigns d). cp_id c = cid \<and> cp_status c = PENDING")
  case True
  then obtain c where c: "c \<in> set (db_campaigns d)" "cp_id c = cid" "cp_status c = PENDING" by blast
  with campaign_transition_if_Some [of c d PENDING now ACTIVE] assms show thesis
    by (intro promote [of c]) (auto simp: maybe_promote_to_active_def)
next
  case False
  then have "campaign_transition_if now cid PENDING ACTIVE d = (False, d)"
    by (intro campaign_transition_if_None) blast
  with False show thesis by (intro skip) (auto simp: maybe_promote_to_active_def)
qed

lemma promote_calls [simp]:
  "db_calls (maybe_promote_to_active now cid d) = db_calls d"
  "db_cursors (maybe_promote_to_active now cid d) = db_cursors d"
  "db_inbox (maybe_promote_to_active now cid d) = db_inbox d"
  by (simp_all add: maybe_promote_to_active_def campaign_transition_if_def Let_def)

lemma promote_evolves:
  assumes "distinct (map cp_id (db_campaigns d))"
  shows "evolves d (maybe_promote_to_active now cid d)"
  using assms
proof (cases rule: promote_cases [where cid = cid and now = now])
  case skip
  then show ?thesis by simp
next
  case (promote c ev)
  let ?c = "c\<lparr>cp_status := ACTIVE, cp_updated_at := now\<rparr>"
  have "campaign_evolves c ?c" using promote(3) by (simp add: campaign_evolves_def)
  then have "evolves d (put_campaign ?c d)" using assms promote(1) by (intro evolves_put_campaign)
  moreover have "evolves (put_campaign ?c d) (emit_audit now ev (put_campaign ?c d))"
    by (rule evolves_same_tables) simp_all
  ultimately show ?thesis unfolding promote(7) by (rule evolves_trans)
qed

text \<open>
  A claim moves a queued row to a non-terminal, non-queued status. When its campaign may still be
  pending the promotion must run in the same transaction.
\<close>

lemma start_call_inv:
  assumes inv: "db_inv d" and r: "r \<in> set (db_calls d)" and ev: "row_evolves r r'"
    and phone: "phone_index_ok (db_calls (put_row r' d))" and rec: "records_move e r'"
    and live: "\<not> terminal (cl_status r')"
    and run: "d' = (if p then maybe_promote_to_active now (cl_campaign_id r)
                            (emit_audit now e (put_row r' d))
                    else emit_audit now e (put_row r' d))"
    and p: "\<And>c. c \<in> set (db_campaigns d) \<Longrightarrow> cp_id c = cl_campaign_id r \<Longrightarrow> cp_status c = PENDING \<Longrightarrow> p"
  shows "db_inv d'"
proof -
  let ?d = "emit_audit now e (put_row r' d)"
  have keys: "keys_ok ?d" using db_invD(4) [OF inv] r ev phone by (simp add: keys_ok_put_row)
  have id: "cl_id r' = cl_id r" "cl_campaign_id r' = cl_campaign_id r"
    using ev by (simp_all add: row_evolves_def)
  have audit: "audit_ok ?d" using db_invD(5) [OF inv] r id(1) rec by (rule audit_ok_call_event)
  have others: "campaign_ok ?d c" if "c \<in> set (db_campaigns d)" "cp_id c \<noteq> cl_campaign_id r" for c
    using db_invD(6) [OF inv that(1)]
      calls_of_put_row_other [OF db_invD(1) [OF inv] r ev that(2)]
    by (simp add: campaign_ok_def)
  have r'_in: "r' \<in> set (calls_of ?d (cl_campaign_id r))"
    using in_calls_of_put_row [OF r ev, of r'] by simp
  have rc: "r \<in> set (calls_of d (cl_campaign_id r))" using r by (simp add: in_calls_of)
  have active: "cp_status c = ACTIVE \<or> cp_status c = PENDING"
    if c: "c \<in> set (db_campaigns d)" "cp_id c = cl_campaign_id r" for c
    using db_invD(6) [OF inv c(1)] c(2) rc live ev
    by (auto simp: campaign_ok_def row_evolves_def Let_def split: campaign_status.splits)
  have act_ok: "cp_status c = ACTIVE \<Longrightarrow> cp_id c = cl_campaign_id r \<Longrightarrow> campaign_ok ?d c" for c
    using r'_in live by (auto simp: campaign_ok_def)
  show ?thesis
  proof (cases p)
    case False
    then have "campaign_ok ?d c" if "c \<in> set (db_campaigns d)" for c
      using that others act_ok active p by blast
    with keys audit False show ?thesis by (simp add: run db_inv_def)
  next
    case True
    have dist: "distinct (map cp_id (db_campaigns ?d))" using keys by (simp add: keys_ok_def)
    from dist show ?thesis
    proof (cases rule: promote_cases [where cid = "cl_campaign_id r" and now = now])
      case skip
      then have "campaign_ok ?d c" if "c \<in> set (db_campaigns d)" for c
        using that others act_ok active by (metis emit_audit_frame(1) put_row_frame(1))
      with keys audit True skip(2) show ?thesis by (simp add: run db_inv_def)
    next
      case (promote c e')
      let ?c = "c\<lparr>cp_status := ACTIVE, cp_updated_at := now\<rparr>"
      let ?e = "emit_audit now e' (put_campaign ?c ?d)"
      have "audit_ok ?e"
        using promote keys audit by (intro audit_ok_campaign_event [where c = c]) auto
      moreover have "keys_ok ?e" using keys by (simp add: keys_ok_put_campaign)
      moreover have "campaign_ok ?e x" if "x \<in> set (db_campaigns ?e)" for x
      proof (cases "cp_id x = cl_campaign_id r")
        case True
        with that promote(2) have "x = ?c" by (auto simp: in_put_campaign)
        with act_ok [of ?c] promote(2) show ?thesis by simp
      next
        case False
        with that promote(2) others show ?thesis by (auto simp: in_put_campaign)
      qed
      ultimately show ?thesis using True promote(7) by (simp add: run db_inv_def)
    qed
  qed
qed

end
