(* ===== verification/Transition_Contract.thy ===== *)
theory Transition_Contract
  imports Db_Invariant
begin

text \<open>
  What a caller of the state machine may rely on: the outcomes of \<open>transition\<close> and of
  \<open>apply_retryable_outcome\<close>, and the contract \<open>db_transaction\<close> that every transaction of the
  service meets (it keeps the invariant and rows only evolve). The scheduler, the webhook processor,
  the reclaim sweep and the API are interpretations of that contract.
\<close>

section \<open>Outcomes of a transition\<close>

lemma set_column_keeps [simp]:
  "cl_id (set_column cv r) = cl_id r"
  "cl_campaign_id (set_column cv r) = cl_campaign_id r"
  "cl_phone (set_column cv r) = cl_phone r"
  "cl_status (set_column cv r) = cl_status r"
  "cl_attempt_epoch (set_column cv r) = cl_attempt_epoch r"
  "cl_created_at (set_column cv r) = cl_created_at r"
  "cl_updated_at (set_column cv r) = cl_updated_at r"
  by (cases cv; auto split: col_value.splits)+

lemma fold_set_column_keeps [simp]:
  "cl_id (fold set_column cols r) = cl_id r"
  "cl_campaign_id (fold set_column cols r) = cl_campaign_id r"
  "cl_phone (fold set_column cols r) = cl_phone r"
  "cl_status (fold set_column cols r) = cl_status r"
  "cl_attempt_epoch (fold set_column cols r) = cl_attempt_epoch r"
  "cl_created_at (fold set_column cols r) = cl_created_at r"
  "cl_updated_at (fold set_column cols r) = cl_updated_at r"
  by (induction cols arbitrary: r) simp_all

lemma transition_row_keeps [simp]:
  "cl_id (transition_row now n ne cols r) = cl_id r"
  "cl_campaign_id (transition_row now n ne cols r) = cl_campaign_id r"
  "cl_phone (transition_row now n ne cols r) = cl_phone r"
  "cl_status (transition_row now n ne cols r) = n"
  "cl_created_at (transition_row now n ne cols r) = cl_created_at r"
  "cl_updated_at (transition_row now n ne cols r) = now"
  "cl_attempt_epoch (transition_row now n ne cols r) =
     (case ne of None \<Rightarrow> cl_attempt_epoch r | Some e \<Rightarrow> e)"
  by (simp_all add: transition_row_def split: option.splits)

lemma transition_event_records [simp]:
  "cl_status r = n \<Longrightarrow> records_move (transition_event r et reason e n extra) r"
  by (simp add: transition_event_def records_move_def)

lemma transition_outcome:
  assumes run: "transition now i e n ep ne et reason extra cols d = Inr (res, d')"
    and keys: "keys_ok d"
  obtains
    (regression) "terminal e" and "n \<noteq> e" and "res = tr_terminal_regression" and "d' = d"
  | (no_op) "\<And>r. r \<in> set (db_calls d) \<Longrightarrow> cl_id r = i \<Longrightarrow> cl_status r = e \<Longrightarrow>
               cl_attempt_epoch r \<noteq> ep"
      and "terminal e \<longrightarrow> n = e" and "res = tr_no_op" and "d' = d"
  | (applied) r where "r \<in> set (db_calls d)" and "cl_id r = i" and "cl_status r = e"
      and "cl_attempt_epoch r = ep" and "terminal e \<longrightarrow> n = e"
      and "phone_index_ok (db_calls (put_row (transition_row now n ne cols r) d))"
      and "res = tr_applied_of (transition_row now n ne cols r)"
      and "d' = move_call now (transition_row now n ne cols r)
                  (transition_event (transition_row now n ne cols r) et reason e n extra) d"
proof (cases "terminal e \<and> n \<noteq> e")
  case True
  with run show thesis
    by (intro regression) (auto simp: transition_def Let_def split: if_splits)
next
  case False
  let ?P = "\<lambda>r. cl_id r = i \<and> cl_status r = e \<and> cl_attempt_epoch r = ep"
  let ?f = "transition_row now n ne cols"
  have dist: "distinct (map cl_id (db_calls d))" and phone: "phone_index_ok (db_calls d)"
    using keys by (simp_all add: keys_ok_def)
  show thesis
  proof (cases "find ?P (db_calls d)")
    case None
    then have "update_call_where ?P ?f d = Inr (None, d)" using phone by (rule update_call_where_None)
    with run False None have "res = tr_no_op" "d' = d"
      by (auto simp: transition_def Let_def split: if_splits)
    with None False show thesis by (intro no_op) (auto simp: find_None_set)
  next
    case (Some r)
    then have r: "r \<in> set (db_calls d)" "cl_id r = i" "cl_status r = e" "cl_attempt_epoch r = ep"
      by (auto dest: find_Some_iff_set)
    have "update_call_where ?P ?f d =
        (if phone_index_ok (db_calls (put_row (?f r) d)) then Inr (Some (?f r), put_row (?f r) d)
         else Inl UniqueViolationError)"
      using Some dist r(2) by (intro update_call_where_Some) auto
    with run False Some have
      "phone_index_ok (db_calls (put_row (?f r) d)) \<and> res = tr_applied_of (?f r) \<and>
       d' = move_call now (?f r) (transition_event (?f r) et reason e n extra) d"
      by (auto simp: transition_def move_call_def Let_def split: if_splits)
    with r False show thesis by (intro applied [of r]) auto
  qed
qed

lemma transition_row_evolves:
  assumes "cl_status r = e" and "cl_attempt_epoch r = ep" and "terminal e \<longrightarrow> n = e"
    and "\<And>m. ne = Some m \<Longrightarrow> ep \<le> m"
  shows "row_evolves r (transition_row now n ne cols r)"
  using assms by (auto simp: row_evolves_def split: option.splits)

text \<open>The whole contract of one call of \<open>transition\<close>.\<close>

lemma transition_started_inv:
  assumes run: "transition now i e n ep ne et reason extra cols d = Inr (res, d')"
    and inv: "db_inv d" and epoch: "\<And>m. ne = Some m \<Longrightarrow> ep \<le> m"
    and started: "\<And>r. r \<in> set (db_calls d) \<Longrightarrow> cl_id r = i \<Longrightarrow> cl_status r = e \<Longrightarrow>
                    campaign_started d (cl_campaign_id r)"
  shows "db_inv d' \<and> evolves d d'"
  using run db_invD(4) [OF inv]
proof (cases rule: transition_outcome)
  case (applied r)
  let ?r' = "transition_row now n ne cols r"
  have ev: "row_evolves r ?r'" using applied epoch by (intro transition_row_evolves) auto
  show ?thesis
    unfolding applied(8)
    using move_call_inv [OF inv applied(1) ev applied(6) _ started [OF applied(1-3)]]
      move_call_evolves [OF inv applied(1) ev]
    by simp
qed (use inv in simp_all)

lemma transition_inv:
  assumes "transition now i e n ep ne et reason extra cols d = Inr (res, d')"
    and inv: "db_inv d" and "\<And>m. ne = Some m \<Longrightarrow> ep \<le> m"
    and "\<And>r. r \<in> set (db_calls d) \<Longrightarrow> cl_id r = i \<Longrightarrow> cl_status r = e \<Longrightarrow>
           \<not> (cl_status r = QUEUED \<and> cl_provider_call_id r = None)"
  shows "db_inv d' \<and> evolves d d'"
  using assms(1,2,3) campaign_startedI [OF inv _ assms(4)] by (rule transition_started_inv) simp_all

text \<open>What a transition leaves alone, and which rows it can have changed.\<close>

lemma transition_other_rows:
  assumes run: "transition now i e n ep ne et reason extra cols d = Inr (res, d')"
    and keys: "keys_ok d" and r: "r \<in> set (db_calls d)" and "cl_id r \<noteq> i"
  shows "r \<in> set (db_calls d')"
  using run keys
proof (cases rule: transition_outcome)
  case (applied s)
  with r assms(4) show ?thesis by (simp add: move_call_def Let_def in_put_row)
qed (use r in simp_all)

lemma transition_frame:
  assumes run: "transition now i e n ep ne et reason extra cols d = Inr (res, d')"
    and keys: "keys_ok d"
  shows "db_cursors d' = db_cursors d" and "db_inbox d' = db_inbox d"
  using run keys
  by (cases rule: transition_outcome; simp add: move_call_def Let_def)+

lemma transition_not_applied:
  assumes run: "transition now i e n ep ne et reason extra cols d = Inr (res, d')"
    and keys: "keys_ok d" and "is_no_op res"
  shows "d' = d"
  using run keys assms(3)
  by (cases rule: transition_outcome) (simp_all add: is_no_op_def tr_applied_of_def)

text \<open>An unauthorised column is refused whatever the database holds.\<close>

lemma transition_unauthorized:
  assumes "c \<in> set (map fst cols)" and "c \<notin> set ALLOWED_COLUMN_UPDATES"
  shows "\<exists>msg. transition now i e n ep ne et reason extra cols d = Inl (ValueError msg)"
proof -
  have "filter (\<lambda>c. c \<notin> set ALLOWED_COLUMN_UPDATES) (map fst cols) \<noteq> []"
    using assms by (auto simp: filter_empty_conv)
  then show ?thesis by (simp add: transition_def Let_def)
qed

section \<open>Outcomes of a retryable disposition\<close>

lemma apply_retryable_outcome_cases:
  assumes run: "apply_retryable_outcome now py u i e ep rr oc base pre d = Inr (res, d')"
  obtains
    (final) reason where "oc = COMPLETED \<or> oc = FAILED"
      and "transition now i e oc ep None TRANSITION reason [] [] d = Inr (res, d')"
  | (retry) t reason where "oc = NO_ANSWER \<or> oc = BUSY" and "0 < rr"
      and "next_attempt_time u py ep base = Inr t"
      and "transition now i e RETRY_PENDING ep None TRANSITION reason []
             [(''next_attempt_at'', ColTime t), (''retries_remaining'', ColInt (rr - 1))] d =
           Inr (res, d')"
  | (exhausted) reason where "oc = NO_ANSWER \<or> oc = BUSY" and "rr \<le> 0"
      and "transition now i e FAILED ep None TRANSITION reason [] [] d = Inr (res, d')"
proof -
  obtain dec where dec: "classify (StatusOutcome oc) = Inr dec"
    using run by (auto simp: apply_retryable_outcome_def bind_res_Inr_iff)
  have kind: "dec = TERMINAL \<longleftrightarrow> oc = COMPLETED \<or> oc = FAILED"
      "dec \<noteq> TERMINAL \<longleftrightarrow> oc = NO_ANSWER \<or> oc = BUSY"
    using dec by (auto split: if_splits)
  consider "dec = TERMINAL" | "dec \<noteq> TERMINAL" "0 < rr" | "dec \<noteq> TERMINAL" "rr \<le> 0" by linarith
  then show thesis
  proof cases
    case 1
    with run dec kind show thesis
      by (intro final) (auto simp: apply_retryable_outcome_def)
  next
    case 2
    with run dec obtain t reason where
      "next_attempt_time u py ep base = Inr t"
      "transition now i e RETRY_PENDING ep None TRANSITION reason []
         [(''next_attempt_at'', ColTime t), (''retries_remaining'', ColInt (rr - 1))] d = Inr (res, d')"
      by (auto simp: apply_retryable_outcome_def bind_res_Inr_iff)
    with 2 kind show thesis by (intro retry) auto
  next
    case 3
    with run dec kind show thesis
      by (intro exhausted) (auto simp: apply_retryable_outcome_def)
  qed
qed

lemma apply_retryable_outcome_inv:
  assumes "apply_retryable_outcome now py u i e ep rr oc base pre d = Inr (res, d')"
    and "db_inv d"
    and "\<And>r. r \<in> set (db_calls d) \<Longrightarrow> cl_id r = i \<Longrightarrow> cl_status r = e \<Longrightarrow>
           campaign_started d (cl_campaign_id r)"
  shows "db_inv d' \<and> evolves d d'"
  using assms(1)
  by (cases rule: apply_retryable_outcome_cases)
    (auto dest!: transition_started_inv [OF _ assms(2)] assms(3))

lemma apply_retryable_outcome_not_applied:
  assumes "apply_retryable_outcome now py u i e ep rr oc base pre d = Inr (res, d')"
    and "keys_ok d" and "is_no_op res"
  shows "d' = d"
  using assms(1)
  by (cases rule: apply_retryable_outcome_cases) (auto dest!: transition_not_applied [OF _ assms(2,3)])

lemma apply_retryable_outcome_frame:
  assumes "apply_retryable_outcome now py u i e ep rr oc base pre d = Inr (res, d')" and "keys_ok d"
  shows "db_cursors d' = db_cursors d" and "db_inbox d' = db_inbox d"
  using assms(1)
  by (cases rule: apply_retryable_outcome_cases; auto dest: transition_frame [OF _ assms(2)])+

section \<open>The contract of a transaction\<close>

text \<open>
  \<open>run\<close> is the effect of one committed transaction, \<open>ready\<close> what its caller knows of the
  database when it starts.
\<close>

locale db_transaction =
  fixes ready :: "'a \<Rightarrow> db \<Rightarrow> bool"
    and run :: "'a \<Rightarrow> db \<Rightarrow> db \<Rightarrow> bool"
  assumes keeps_inv: "db_inv d \<Longrightarrow> ready a d \<Longrightarrow> run a d d' \<Longrightarrow> db_inv d'"
    and rows_evolve: "db_inv d \<Longrightarrow> ready a d \<Longrightarrow> run a d d' \<Longrightarrow> evolves d d'"
begin

lemma terminal_absorbs:
  assumes "db_inv d" and "ready a d" and "run a d d'" and "r \<in> set (db_calls d)"
    and "terminal (cl_status r)"
  shows "\<exists>r' \<in> set (db_calls d'). cl_id r' = cl_id r \<and> cl_status r' = cl_status r"
  using rows_evolve [OF assms(1-3)] assms(4,5) unfolding evolves_def row_evolves_def by metis

lemma epoch_grows:
  assumes "db_inv d" and "ready a d" and "run a d d'" and "r \<in> set (db_calls d)"
    and "r' \<in> set (db_calls d')" and "cl_id r' = cl_id r"
  shows "cl_attempt_epoch r \<le> cl_attempt_epoch r'"
proof -
  obtain s where s: "s \<in> set (db_calls d')" "row_evolves r s"
    using rows_evolve [OF assms(1-3)] assms(4) by (auto simp: evolves_def)
  moreover have "s = r'"
    using s assms(5,6) keeps_inv [OF assms(1-3)]
    by (intro call_key_eq [of d']) (auto simp: row_evolves_def dest: db_invD)
  ultimately show ?thesis by (simp add: row_evolves_def)
qed

lemma log_replays:
  assumes "db_inv d" and "ready a d" and "run a d d'" and "r \<in> set (db_calls d')"
  shows "replay_call (cl_id r) (db_audit d') = call_status_value (cl_status r)"
  using db_invD(5) [OF keeps_inv [OF assms(1-3)]] assms(4) by (simp add: audit_ok_def)

end

text \<open>The bare state machine meets it whenever its caller holds a row that is not a fresh one.\<close>

record transition_args =
  ta_now :: timestamp
  ta_id :: uuid
  ta_expected :: call_status
  ta_new :: call_status
  ta_epoch :: int
  ta_new_epoch :: "int option"
  ta_event :: event_type
  ta_reason :: string
  ta_extra :: json_dict
  ta_cols :: column_updates

definition transition_with :: "transition_args \<Rightarrow> db \<Rightarrow> (transition_result \<times> db) result" where
  "transition_with a d =
     transition (ta_now a) (ta_id a) (ta_expected a) (ta_new a) (ta_epoch a) (ta_new_epoch a)
       (ta_event a) (ta_reason a) (ta_extra a) (ta_cols a) d"

definition transition_ready :: "transition_args \<Rightarrow> db \<Rightarrow> bool" where
  "transition_ready a d \<longleftrightarrow>
     (\<forall>m. ta_new_epoch a = Some m \<longrightarrow> ta_epoch a \<le> m) \<and>
     (\<forall>r \<in> set (db_calls d). cl_id r = ta_id a \<longrightarrow> cl_status r = ta_expected a \<longrightarrow>
        \<not> (cl_status r = QUEUED \<and> cl_provider_call_id r = None))"

interpretation machine: db_transaction transition_ready
  "\<lambda>a d d'. \<exists>res. transition_with a d = Inr (res, d')"
proof unfold_locales
  fix d a d'
  assume "db_inv d" and "transition_ready a d" and "\<exists>res. transition_with a d = Inr (res, d')"
  then have "db_inv d' \<and> evolves d d'"
    unfolding transition_with_def transition_ready_def by (auto dest!: transition_inv)
  then show "db_inv d'" and "evolves d d'" by simp_all
qed

end
