(* ===== verification/Iso_Time.thy ===== *)
theory Iso_Time
  imports Schema
begin

text \<open>
  The time part of CPython 3.11's ISO 8601 reader (\<open>parse_isoformat_time\<close>), shared by
  \<open>time.fromisoformat\<close> and \<open>datetime.fromisoformat\<close>: \<open>HH[:MM[:SS[.f+]]]\<close> or \<open>HH[MM[SS[.f+]]]\<close>, then
  optionally \<open>Z\<close> or \<open>+\<close>/\<open>-\<close> and an offset of the same shape.
\<close>

definition us_per_minute :: int where "us_per_minute = 60000000"
definition us_per_day :: int where "us_per_day = 86400000000"

definition char_digit :: "char \<Rightarrow> int option" where
  "char_digit c =
     (let n = of_char c :: int in if 48 \<le> n \<and> n \<le> 57 then Some (n - 48) else None)"

fun parse_two :: "string \<Rightarrow> (int \<times> string) option" where
  "parse_two (a # b # rest) =
     (case (char_digit a, char_digit b) of
        (Some x, Some y) \<Rightarrow> Some (10 * x + y, rest)
      | _ \<Rightarrow> None)"
| "parse_two _ = None"

text \<open>
  A fraction: the first six characters are digits read as microseconds, digits after them are
  skipped; the flag says whether anything is left.
\<close>

definition parse_fraction :: "string \<Rightarrow> (int \<times> bool) option" where
  "parse_fraction f =
     (let ds = take 6 f in
        if f = [] \<or> \<not> list_all (\<lambda>c. char_digit c \<noteq> None) ds then None
        else
          Some (foldl (\<lambda>acc c. 10 * acc + the (char_digit c)) 0 ds * 10 ^ (6 - length ds),
                dropWhile (\<lambda>c. char_digit c \<noteq> None) (drop 6 f) \<noteq> []))"

text \<open>
  \<open>parse_hh_mm_ss_ff\<close>: up to three components of two digits, separated by colons when the first
  one is followed by a colon, then a fraction. One character after a component ends the reading and
  sets the flag, whatever it is.
\<close>

fun parse_components :: "nat \<Rightarrow> bool option \<Rightarrow> string \<Rightarrow> (int list \<times> int \<times> bool) option" where
  "parse_components 0 sep p =
     (case parse_fraction p of None \<Rightarrow> None | Some (us, junk) \<Rightarrow> Some ([], us, junk))"
| "parse_components (Suc n) sep p =
     (case parse_two p of
        None \<Rightarrow> None
      | Some (v, []) \<Rightarrow> Some ([v], 0, False)
      | Some (v, [c]) \<Rightarrow> Some ([v], 0, True)
      | Some (v, c # r) \<Rightarrow>
          let has_sep = (case sep of None \<Rightarrow> c = CHR '':'' | Some b \<Rightarrow> b);
              rest = (if has_sep \<and> c = CHR '':'' then parse_components n (Some has_sep) r
                      else if c = CHR ''.'' \<or> c = CHR '','' then parse_components 0 (Some has_sep) r
                      else if \<not> has_sep then parse_components n (Some has_sep) (c # r)
                      else None)
          in case rest of None \<Rightarrow> None | Some (vs, q) \<Rightarrow> Some (v # vs, q))"

definition parse_hh_mm_ss_ff :: "string \<Rightarrow> ((int \<times> int \<times> int \<times> int) \<times> bool) option" where
  "parse_hh_mm_ss_ff p =
     (case parse_components 3 None p of
        None \<Rightarrow> None
      | Some (vs, us, junk) \<Rightarrow>
          (case vs @ [0, 0, 0] of
             h # m # s # _ \<Rightarrow> Some ((h, m, s, us), junk)
           | _ \<Rightarrow> None))"

definition is_zone_mark :: "char \<Rightarrow> bool" where
  "is_zone_mark c \<longleftrightarrow> c = CHR ''-'' \<or> c = CHR ''+'' \<or> c = CHR ''Z''"

text \<open>The zone starts at the first zone mark.\<close>

definition split_zone :: "string \<Rightarrow> string \<times> string" where
  "split_zone s =
     (takeWhile (\<lambda>c. \<not> is_zone_mark c) s, dropWhile (\<lambda>c. \<not> is_zone_mark c) s)"

definition us_of :: "int \<times> int \<times> int \<times> int \<Rightarrow> int" where
  "us_of q = (case q of (h, m, s, us) \<Rightarrow> ((h * 60 + m) * 60 + s) * 1000000 + us)"

text \<open>
  \<open>None\<close> is a malformed zone. A zone of no whole second is UTC, whatever its fraction; an offset of a
  day or junk is refused by \<open>timezone(...)\<close>.
\<close>

definition parse_zone :: "string \<Rightarrow> int option option" where
  "parse_zone z =
     (case z of
        [] \<Rightarrow> Some None
      | c # r \<Rightarrow>
          if c = CHR ''Z'' then (if r = [] then Some (Some 0) else None)
          else
            (case parse_hh_mm_ss_ff r of
               Some ((h, m, s, us), False) \<Rightarrow>
                 let us' = (if h = 0 \<and> m = 0 \<and> s = 0 then 0 else us);
                     off = (if c = CHR ''-'' then - us_of (h, m, s, us') else us_of (h, m, s, us'))
                 in if \<bar>off\<bar> < us_per_day then Some (Some off) else None
             | _ \<Rightarrow> None))"

text \<open>The microseconds since midnight and the offset. Something left after the time is an error
  unless a zone follows.\<close>

definition parse_isoformat_time :: "string \<Rightarrow> (int \<times> int option) option" where
  "parse_isoformat_time s =
     (let (body, z) = split_zone s
      in case (parse_hh_mm_ss_ff body, parse_zone z) of
           (Some ((h, m, sec, us), junk), Some off) \<Rightarrow>
             if junk \<and> z = [] \<or> \<not> (h < 24 \<and> m < 60 \<and> sec < 60) then None
             else Some (us_of (h, m, sec, us), off)
         | _ \<Rightarrow> None)"

end
