(* ===== verification/Business_Hours.thy ===== *)
theory Business_Hours
  imports Iso_Time
begin

text \<open>
  Business hours (\<^verbatim>\<open>app/scheduler/business_hours.py\<close>). The time zone database is a parameter:
  \<open>zones name\<close> is \<open>None\<close> where \<open>ZoneInfo(name)\<close> raises, otherwise the UTC offset in
  microseconds at each instant. A \<open>datetime.time\<close> is the microseconds since midnight with an
  optional UTC offset: a naive and an aware time cannot be ordered.
\<close>

type_synonym zone_db = "string \<Rightarrow> (timestamp \<Rightarrow> int) option"

section \<open>datetime.time\<close>

record py_time =
  tm_us :: int
  tm_offset :: "int option"

text \<open>
  \<open>a < b\<close>: naive times compare by the clock, aware ones by the clock less the offset in whole
  minutes (the clock alone when the offsets agree); a mixed pair raises \<open>TypeError\<close>.
\<close>

definition time_key :: "int \<Rightarrow> py_time \<Rightarrow> int" where
  "time_key off t = tm_us t - (off div us_per_minute) * us_per_minute"

definition time_cmp :: "(int \<Rightarrow> int \<Rightarrow> bool) \<Rightarrow> py_time \<Rightarrow> py_time \<Rightarrow> bool result" where
  "time_cmp le a b =
     (case (tm_offset a, tm_offset b) of
        (None, None) \<Rightarrow> Inr (le (tm_us a) (tm_us b))
      | (Some oa, Some ob) \<Rightarrow>
          Inr (if oa = ob then le (tm_us a) (tm_us b) else le (time_key oa a) (time_key ob b))
      | _ \<Rightarrow> Inl (TypeError ''can't compare offset-naive and offset-aware times''))"

definition time_less :: "py_time \<Rightarrow> py_time \<Rightarrow> bool result" where
  "time_less = time_cmp (<)"

definition time_leq :: "py_time \<Rightarrow> py_time \<Rightarrow> bool result" where
  "time_leq = time_cmp (\<le>)"

definition naive_time :: "int \<Rightarrow> py_time" where
  "naive_time us = \<lparr>tm_us = us, tm_offset = None\<rparr>"

section \<open>time.fromisoformat\<close>

definition time_fromisoformat :: "string \<Rightarrow> py_time result" where
  "time_fromisoformat s0 =
     (let s = (case s0 of c # r \<Rightarrow> if c = CHR ''T'' then r else s0 | [] \<Rightarrow> s0)
      in case parse_isoformat_time s of
           None \<Rightarrow> Inl (ValueError (''Invalid isoformat string: '' @ s0))
         | Some (us, off) \<Rightarrow> Inr \<lparr>tm_us = us, tm_offset = off\<rparr>)"

section \<open>Windows\<close>

record time_window =
  tw_start :: py_time
  tw_end :: py_time

text \<open>\<open>time.fromisoformat(raw["start"])\<close> on a JSON value.\<close>

definition window_bound :: "json \<Rightarrow> string \<Rightarrow> py_time result" where
  "window_bound raw k =
     (case raw of
        JObj o' \<Rightarrow>
          bind_res (dict_index o' k) (\<lambda>v.
            case v of
              JStr s \<Rightarrow> time_fromisoformat s
            | _ \<Rightarrow> Inl (TypeError ''fromisoformat: argument must be str''))
      | _ \<Rightarrow> Inl (TypeError ''indices must be integers''))"

definition parse_window :: "json \<Rightarrow> time_window result" where
  "parse_window raw =
     bind_res (window_bound raw ''start'') (\<lambda>start.
     bind_res (window_bound raw ''end'') (\<lambda>end'.
     bind_res (time_less start end') (\<lambda>lt.
       if \<not> lt then Inl (InvalidScheduleError ''window start >= end'')
       else Inr \<lparr>tw_start = start, tw_end = end'\<rparr>)))"

definition parse_day_windows :: "json \<Rightarrow> time_window list result" where
  "parse_day_windows day_list =
     (case day_list of
        JNull \<Rightarrow> Inr []
      | JList ws \<Rightarrow> map_res parse_window ws
      | _ \<Rightarrow> Inl (InvalidScheduleError ''expected list''))"

definition DAY_KEYS :: "string list" where
  "DAY_KEYS = [''mon'', ''tue'', ''wed'', ''thu'', ''fri'', ''sat'', ''sun'']"

text \<open>1970-01-01 was a Thursday.\<close>

definition weekday :: "timestamp \<Rightarrow> nat" where
  "weekday local = nat ((local div us_per_day + 3) mod 7)"

definition time_of :: "timestamp \<Rightarrow> py_time" where
  "time_of local = naive_time (local mod us_per_day)"

text \<open>\<open>any(w.start <= t_now < w.end for w in windows)\<close>, stopping at the first hit.\<close>

fun any_window :: "py_time \<Rightarrow> time_window list \<Rightarrow> bool result" where
  "any_window t [] = Inr False"
| "any_window t (w # ws) =
     bind_res (time_leq (tw_start w) t) (\<lambda>b1.
       if \<not> b1 then any_window t ws
       else bind_res (time_less t (tw_end w)) (\<lambda>b2. if b2 then Inr True else any_window t ws))"

definition is_in_window :: "zone_db \<Rightarrow> json_dict \<Rightarrow> string \<Rightarrow> timestamp \<Rightarrow> bool result" where
  "is_in_window zones schedule timezone now_utc =
     (case zones timezone of
        None \<Rightarrow> Inr False
      | Some offset \<Rightarrow>
          let local = now_utc + offset now_utc;
              day_key = DAY_KEYS ! weekday local;
              day_raw = dict_get schedule day_key (JList [])
          in case parse_day_windows day_raw of
               Inl (InvalidScheduleError msg) \<Rightarrow> Inr False
             | Inl e \<Rightarrow> Inl e
             | Inr windows \<Rightarrow> any_window (time_of local) windows)"

section \<open>Naive schedules\<close>

text \<open>A window of naive times: what the comparison computes is the half-open interval.\<close>

definition naive_window :: "time_window \<Rightarrow> bool" where
  "naive_window w \<longleftrightarrow> tm_offset (tw_start w) = None \<and> tm_offset (tw_end w) = None"

lemma time_cmp_naive [simp]:
  "tm_offset a = None \<Longrightarrow> tm_offset b = None \<Longrightarrow> time_cmp le a b = Inr (le (tm_us a) (tm_us b))"
  by (simp add: time_cmp_def)

lemma naive_time_simps [simp]:
  "tm_us (naive_time u) = u" "tm_offset (naive_time u) = None"
  by (simp_all add: naive_time_def)

lemma any_window_naive:
  "list_all naive_window ws \<Longrightarrow>
   any_window (naive_time u) ws =
   Inr (\<exists>w \<in> set ws. tm_us (tw_start w) \<le> u \<and> u < tm_us (tw_end w))"
  by (induction ws) (auto simp: naive_window_def time_leq_def time_less_def)

lemma parse_window_ordered:
  "parse_window raw = Inr w \<Longrightarrow> naive_window w \<Longrightarrow> tm_us (tw_start w) < tm_us (tw_end w)"
  by (auto simp: parse_window_def bind_res_Inr_iff naive_window_def time_less_def split: if_splits)

lemma weekday_less: "weekday local < 7"
  by (simp add: weekday_def nat_less_iff)

lemma time_of_bounds: "0 \<le> tm_us (time_of local)" "tm_us (time_of local) < us_per_day"
  by (simp_all add: time_of_def us_per_day_def)

end
