(* ===== verification/Py_Datetime.thy ===== *)
theory Py_Datetime
  imports Iso_Time
begin

text \<open>
  The calendar of CPython's \<open>datetime\<close>: ordinals to years, months and days and back
  (\<open>_ord2ymd\<close>, \<open>_ymd2ord\<close>), and \<open>isoformat()\<close> of an aware UTC datetime, which the
  service writes into audit rows and pagination cursors.
\<close>

definition is_leap :: "int \<Rightarrow> bool" where
  "is_leap y \<longleftrightarrow> y mod 4 = 0 \<and> (y mod 100 \<noteq> 0 \<or> y mod 400 = 0)"

definition days_before_year :: "int \<Rightarrow> int" where
  "days_before_year year = (let y = year - 1 in y * 365 + y div 4 - y div 100 + y div 400)"

definition DAYS_IN_MONTH :: "int list" where
  "DAYS_IN_MONTH = [-1, 31, 28, 31, 30, 31, 30, 31, 31, 30, 31, 30, 31]"

definition DAYS_BEFORE_MONTH :: "int list" where
  "DAYS_BEFORE_MONTH = [-1, 0, 31, 59, 90, 120, 151, 181, 212, 243, 273, 304, 334]"

definition days_before_month :: "int \<Rightarrow> nat \<Rightarrow> int" where
  "days_before_month year month =
     DAYS_BEFORE_MONTH ! month + (if month > 2 \<and> is_leap year then 1 else 0)"

definition ymd2ord :: "int \<Rightarrow> nat \<Rightarrow> int \<Rightarrow> int" where
  "ymd2ord year month day = days_before_year year + days_before_month year month + day"

text \<open>The last step of \<open>_ord2ymd\<close>: day \<open>n\<close> (from 0) of a year to month and day.\<close>

definition month_day :: "bool \<Rightarrow> int \<Rightarrow> nat \<times> int" where
  "month_day leapyear n =
     (let month = nat ((n + 50) div 32);
          preceding = DAYS_BEFORE_MONTH ! month + (if month > 2 \<and> leapyear then 1 else 0)
      in if preceding > n then
           (let month' = month - 1;
                preceding' = preceding -
                  (DAYS_IN_MONTH ! month' + (if month' = 2 \<and> leapyear then 1 else 0))
            in (month', n - preceding' + 1))
         else (month, n - preceding + 1))"

definition ord2ymd :: "int \<Rightarrow> int \<times> nat \<times> int" where
  "ord2ymd ord =
     (let n = ord - 1;
          n400 = n div 146097; n = n mod 146097;
          n100 = n div 36524; n = n mod 36524;
          n4 = n div 1461; n = n mod 1461;
          n1 = n div 365; n = n mod 365;
          year = n400 * 400 + 1 + n100 * 100 + n4 * 4 + n1
      in if n1 = 4 \<or> n100 = 4 then (year - 1, 12, 31)
         else
           let leapyear = (n1 = 3 \<and> (n4 \<noteq> 24 \<or> n100 = 3));
               (month, day) = month_day leapyear n
           in (year, month, day))"

definition epoch_ordinal :: int where
  "epoch_ordinal = 719163"

text \<open>Zero-padded decimal of a fixed width.\<close>

fun pad_digits :: "nat \<Rightarrow> nat \<Rightarrow> string" where
  "pad_digits 0 n = []"
| "pad_digits (Suc k) n = pad_digits k (n div 10) @ [digit_char (n mod 10)]"

definition datetime_isoformat :: "timestamp \<Rightarrow> string" where
  "datetime_isoformat t =
     (let (y, mo, d) = ord2ymd (t div 86400000000 + epoch_ordinal);
          r = nat (t mod 86400000000);
          us = r mod 1000000; s = r div 1000000
      in pad_digits 4 (nat y) @ ''-'' @ pad_digits 2 mo @ ''-'' @ pad_digits 2 (nat d) @ ''T'' @
         pad_digits 2 (s div 3600) @ '':'' @ pad_digits 2 (s div 60 mod 60) @ '':'' @
         pad_digits 2 (s mod 60) @
         (if us = 0 then [] else ''.'' @ pad_digits 6 us) @ ''+00:00'')"

section \<open>Ordinals and dates agree\<close>

definition days_in_month :: "int \<Rightarrow> nat \<Rightarrow> int" where
  "days_in_month year month = DAYS_IN_MONTH ! month + (if month = 2 \<and> is_leap year then 1 else 0)"

definition month_day_ok :: "bool \<Rightarrow> int \<Rightarrow> bool" where
  "month_day_ok leap n \<longleftrightarrow>
     (case month_day leap n of
        (m, d) \<Rightarrow> m \<in> set [1..<13] \<and> 1 \<le> d \<and> d \<le> DAYS_IN_MONTH ! m + (if m = 2 \<and> leap then 1 else 0) \<and>
          DAYS_BEFORE_MONTH ! m + (if m > 2 \<and> leap then 1 else 0) + d = n + 1)"

lemma month_day_correct:
  assumes "0 \<le> n" and "n < (if leap then 366 else 365)"
  shows "month_day_ok leap n"
proof -
  define k where "k = (n + 50) div 32"
  have rng: "32 * k \<le> n + 50" "n + 50 < 32 * k + 32" unfolding k_def by presburger+
  with assms have "k \<in> {1..12}" by (auto split: if_splits)
  then have "k = 1 \<or> k = 2 \<or> k = 3 \<or> k = 4 \<or> k = 5 \<or> k = 6 \<or> k = 7 \<or> k = 8 \<or> k = 9 \<or> k = 10 \<or> k = 11 \<or> k = 12"
    unfolding atLeastAtMost_iff by presburger
  with rng assms show ?thesis
    unfolding month_day_ok_def month_day_def k_def [symmetric] DAYS_IN_MONTH_def DAYS_BEFORE_MONTH_def Let_def
    by (elim disjE) (simp_all add: eval_nat_numeral split: if_splits)
qed

lemma div_mult_add: "0 \<le> r \<Longrightarrow> r < k \<Longrightarrow> (k * q + r) div k = q" for k q r :: int
  by (simp add: div_add1_eq)

text \<open>The year \<open>400 a + 100 b + 4 c + e + 1\<close> and the days before it.\<close>

lemma days_before_cycle:
  assumes "0 \<le> b" "b \<le> 3" "0 \<le> c" "c \<le> 24" "0 \<le> e" "e \<le> (3 :: int)"
  shows "days_before_year (a * 400 + 1 + b * 100 + c * 4 + e) = 146097 * a + 36524 * b + 1461 * c + 365 * e"
proof -
  let ?y = "a * 400 + b * 100 + c * 4 + e"
  have "?y = 4 * (100 * a + 25 * b + c) + e" by simp
  then have "?y div 4 = 100 * a + 25 * b + c" using assms by (simp only: div_mult_add)
  moreover have "?y = 100 * (4 * a + b) + (c * 4 + e)" by simp
  then have "?y div 100 = 4 * a + b" using assms by (simp only: div_mult_add)
  moreover have "?y = 400 * a + (b * 100 + c * 4 + e)" by simp
  then have "?y div 400 = a" using assms by (simp only: div_mult_add)
  ultimately show ?thesis by (simp add: days_before_year_def Let_def algebra_simps)
qed

lemma mod_zero_top: "0 < x \<Longrightarrow> x \<le> k \<Longrightarrow> (k * q + x) mod k = 0 \<longleftrightarrow> x = k" for x k q :: int
  by (metis mod_mult_self4 mod_pos_pos_trivial mod_self order.strict_iff_order order_less_imp_le)

lemma is_leap_cycle:
  assumes "0 \<le> b" "b \<le> 3" "0 \<le> c" "c \<le> 24" "0 \<le> e" "e \<le> (3 :: int)"
  shows "is_leap (a * 400 + 1 + b * 100 + c * 4 + e) \<longleftrightarrow> e = 3 \<and> (c \<noteq> 24 \<or> b = 3)"
proof -
  let ?y = "a * 400 + 1 + b * 100 + c * 4 + e"
  have "?y = 4 * (100 * a + 25 * b + c) + (e + 1)" "?y = 100 * (4 * a + b) + (c * 4 + e + 1)"
    "?y = 400 * a + (b * 100 + c * 4 + e + 1)" by simp_all
  moreover have "0 < e + 1" "e + 1 \<le> 4" "c * 4 + e + 1 \<le> 100" "0 < c * 4 + e + 1"
    "b * 100 + c * 4 + e + 1 \<le> 400" "0 < b * 100 + c * 4 + e + 1" using assms by linarith+
  ultimately have "is_leap ?y \<longleftrightarrow> e + 1 = 4 \<and> (c * 4 + e + 1 \<noteq> 100 \<or> b * 100 + c * 4 + e + 1 = 400)"
    unfolding is_leap_def by (metis mod_zero_top)
  also have "\<dots> \<longleftrightarrow> e = 3 \<and> (c \<noteq> 24 \<or> b = 3)" using assms by (intro iffI conjI; linarith)
  finally show ?thesis .
qed

text \<open>\<open>_ord2ymd\<close> inverts \<open>_ymd2ord\<close>, and gives a date of the calendar.\<close>

definition date_at :: "int \<Rightarrow> int \<Rightarrow> int \<times> nat \<times> int \<Rightarrow> bool" where
  "date_at ord year r \<longleftrightarrow>
     (case r of (y, m, d) \<Rightarrow> y = year \<and> 1 \<le> m \<and> m \<le> 12 \<and> 1 \<le> d \<and> d \<le> days_in_month y m \<and> ymd2ord y m d = ord)"

lemma date_at_month_day:
  assumes "0 \<le> n" and "n < (if is_leap y then 366 else 365)" and "days_before_year y + n + 1 = ord"
  shows "date_at ord y (case month_day (is_leap y) n of (m, d) \<Rightarrow> (y, m, d))"
  using month_day_correct [OF assms(1,2)] assms(3)
  by (auto simp: month_day_ok_def date_at_def ymd2ord_def days_before_month_def days_in_month_def split: prod.splits)

lemma date_at_last:
  assumes "days_before_year y + 366 = ord" and "is_leap y"
  shows "date_at ord y (y, 12, 31)"
  using assms by (simp add: date_at_def ymd2ord_def days_before_month_def days_in_month_def DAYS_IN_MONTH_def
      DAYS_BEFORE_MONTH_def)

lemma ord2ymd_date: "\<exists>y. date_at ord y (ord2ymd ord)"
proof -
  define a where "a = (ord - 1) div 146097"
  define n where "n = (ord - 1) mod 146097"
  define b where "b = n div 36524"
  define p where "p = n mod 36524"
  define c where "c = p div 1461"
  define q where "q = p mod 1461"
  define e where "e = q div 365"
  define r where "r = q mod 365"
  note defs = a_def n_def b_def p_def c_def q_def e_def r_def
  have ord: "ord = 146097 * a + n + 1" by (simp add: defs)
  have n: "0 \<le> n" "n < 146097" "n = 36524 * b + p" by (simp_all add: defs)
  have p: "0 \<le> p" "p < 36524" "p = 1461 * c + q" by (simp_all add: p_def c_def q_def)
  have q: "0 \<le> q" "q < 1461" "q = 365 * e + r" by (simp_all add: q_def e_def r_def)
  have r: "0 \<le> r" "r < 365" by (simp_all add: r_def)
  have rng: "0 \<le> b" "b \<le> 4" "0 \<le> c" "c \<le> 24" "0 \<le> e" "e \<le> 4" using n p q r by linarith+
  let ?y = "a * 400 + 1 + b * 100 + c * 4 + e"
  have split: "ord2ymd ord =
      (if e = 4 \<or> b = 4 then (?y - 1, 12, 31)
       else case month_day (e = 3 \<and> (c \<noteq> 24 \<or> b = 3)) r of (m, d) \<Rightarrow> (?y, m, d))"
    unfolding ord2ymd_def Let_def defs ..
  consider (century) "b = 4" | (year) "e = 4" "b \<le> 3" | (usual) "b \<le> 3" "e \<le> 3" using rng by linarith
  then show ?thesis
  proof cases
    case century
    then have "p = 0" using n p(1) by linarith
    then have z: "c = 0" "q = 0" "e = 0" "r = 0" by (simp_all add: c_def q_def e_def r_def)
    have y: "?y - 1 = a * 400 + 1 + 3 * 100 + 24 * 4 + 3" using century z by simp
    have "date_at ord (?y - 1) (?y - 1, 12, 31)" unfolding y
      using ord n(3) century \<open>p = 0\<close>
      by (intro date_at_last) (simp_all only: is_leap_cycle days_before_cycle, simp_all)
    with split century show ?thesis by auto
  next
    case year
    then have "r = 0" using q r(1) by linarith
    have y: "?y - 1 = a * 400 + 1 + b * 100 + c * 4 + 3" using year by simp
    have leap: "c \<noteq> 24 \<or> b = 3" using year q(3) p n r(1) by linarith
    have "date_at ord (?y - 1) (?y - 1, 12, 31)" unfolding y
    proof (rule date_at_last)
      show "days_before_year (a * 400 + 1 + b * 100 + c * 4 + 3) + 366 = ord"
        using ord n(3) p(3) q(3) year rng \<open>r = 0\<close> by (subst days_before_cycle) simp_all
      show "is_leap (a * 400 + 1 + b * 100 + c * 4 + 3)"
        using year rng leap by (subst is_leap_cycle) simp_all
    qed
    with split year show ?thesis by auto
  next
    case usual
    have leap: "is_leap ?y \<longleftrightarrow> e = 3 \<and> (c \<noteq> 24 \<or> b = 3)" using usual rng by (intro is_leap_cycle)
    have "days_before_year ?y = 146097 * a + 36524 * b + 1461 * c + 365 * e"
      using usual rng by (intro days_before_cycle)
    then have "date_at ord ?y (case month_day (is_leap ?y) r of (m, d) \<Rightarrow> (?y, m, d))"
      using ord n(3) p(3) q(3) r by (intro date_at_month_day) auto
    with split usual leap show ?thesis by auto
  qed
qed

text \<open>The days of the years 1 to 9999.\<close>

definition MAX_ORDINAL :: int where
  "MAX_ORDINAL = 3652059"

lemma year_of_ordinal:
  assumes "days_before_year y + k = ord" "1 \<le> k" "k \<le> 366" "1 \<le> ord" "ord \<le> MAX_ORDINAL"
  shows "1 \<le> y \<and> y \<le> 9999"
proof -
  define x where "x = y - 1"
  define a b c where "a = x div 4" and "b = x div 100" and "c = x div 400"
  have x: "days_before_year y = 365 * x + a - b + c" by (simp add: days_before_year_def x_def a_def b_def c_def Let_def)
  have "x = 4 * a + x mod 4" "x = 100 * b + x mod 100" "x = 400 * c + x mod 400"
    by (simp_all add: a_def b_def c_def)
  moreover have "0 \<le> x mod 4" "x mod 4 \<le> 3" "0 \<le> x mod 100" "x mod 100 \<le> 99" "0 \<le> x mod 400" "x mod 400 \<le> 399"
    using pos_mod_bound [of 4 x] pos_mod_bound [of 100 x] pos_mod_bound [of 400 x] by simp_all
  ultimately have bounds: "4 * a \<le> x" "x \<le> 4 * a + 3" "100 * b \<le> x" "x \<le> 100 * b + 99" "400 * c \<le> x" "x \<le> 400 * c + 399"
    by linarith+
  have "0 \<le> x"
  proof (rule ccontr)
    assume "\<not> 0 \<le> x"
    with bounds have "a \<le> -1" "c \<le> -1" "x \<le> -1" by linarith+
    with bounds x assms show False by linarith
  qed
  moreover have "x \<le> 9998"
  proof (rule ccontr)
    assume "\<not> x \<le> 9998"
    with bounds have "2499 \<le> a" "24 \<le> c" "9999 \<le> x" by linarith+
    with bounds x assms show False unfolding MAX_ORDINAL_def by linarith
  qed
  ultimately show ?thesis by (simp add: x_def)
qed

lemma days_in_month_le: "1 \<le> m \<Longrightarrow> m \<le> 12 \<Longrightarrow> days_in_month y m \<le> 31"
proof -
  assume "1 \<le> m" "m \<le> 12"
  then have "m \<in> set [1..<13]" by simp
  moreover have "list_all (\<lambda>m. DAYS_IN_MONTH ! m \<le> 31 \<and> DAYS_IN_MONTH ! 2 \<le> 30) [1..<13]" by code_simp
  ultimately show ?thesis by (auto simp: days_in_month_def list_all_iff)
qed

lemma ord2ymd_range:
  assumes "1 \<le> ord" and "ord \<le> MAX_ORDINAL"
  obtains y m d where "ord2ymd ord = (y, m, d)" "ymd2ord y m d = ord" "1 \<le> y" "y \<le> 9999"
    "1 \<le> m" "m \<le> 12" "1 \<le> d" "d \<le> days_in_month y m"
proof -
  obtain y m d where v: "ord2ymd ord = (y, m, d)" by (metis prod_cases3)
  with ord2ymd_date [of ord] have date: "1 \<le> m" "m \<le> 12" "1 \<le> d" "d \<le> days_in_month y m" "ymd2ord y m d = ord"
    by (auto simp: date_at_def)
  have "m \<in> set [1..<13]" using date(1,2) by simp
  moreover have "list_all (\<lambda>m. 0 \<le> DAYS_BEFORE_MONTH ! m \<and> DAYS_BEFORE_MONTH ! m + DAYS_IN_MONTH ! m \<le> 365 \<and>
      (m \<le> 2 \<longrightarrow> DAYS_BEFORE_MONTH ! m + DAYS_IN_MONTH ! m \<le> 59)) [1..<13]" by code_simp
  ultimately have "0 \<le> DAYS_BEFORE_MONTH ! m" "DAYS_BEFORE_MONTH ! m + DAYS_IN_MONTH ! m \<le> 365"
    by (auto simp: list_all_iff)
  then have "1 \<le> days_before_month y m + d" "days_before_month y m + d \<le> 366"
    using date(3,4) by (auto simp: days_before_month_def days_in_month_def split: if_splits)
  with year_of_ordinal [of y "days_before_month y m + d" ord] date(5) assms have "1 \<le> y" "y \<le> 9999"
    by (auto simp: ymd2ord_def)
  with that v date show thesis by blast
qed

end
