(* ===== verification/Scheduler_Tick.thy ===== *)
theory Scheduler_Tick
  imports Transition_Contract Business_Hours Py_Datetime
begin

text \<open>
  One scheduler tick (\<^verbatim>\<open>app/scheduler/tick.py\<close>). The reads and skip rows of steps 1 to 4 run
  outside a transaction, so they persist whatever happens next; the requeue, the claim and the
  application of the provider's answer are one transaction each and roll back as a whole. Each
  phase is its own definition, so other tasks can run between them (see \<open>System\<close>); \<open>tick\<close>
  composes them without interference.
\<close>

record tick_decision =
  td_campaign_id :: "uuid option"
  td_is_retry :: bool

datatype selection =
    NoWork
  | Picked campaign_row_with_cursor bool

section \<open>Steps 1 to 4: gates and pick\<close>

definition rr_sort_key :: "campaign_row_with_cursor \<Rightarrow> timestamp \<times> uuid" where
  "rr_sort_key c =
     (case cp_last_dispatch_at c of None \<Rightarrow> datetime_min | Some t \<Rightarrow> t, cp_id c)"

fun split_hours ::
  "zone_db \<Rightarrow> timestamp \<Rightarrow> campaign_row_with_cursor list \<Rightarrow>
   (campaign_row_with_cursor list \<times> campaign_row_with_cursor list) result" where
  "split_hours zones now_utc [] = Inr ([], [])"
| "split_hours zones now_utc (c # cs) =
     bind_res (is_in_window zones (cp_schedule c) (cp_timezone c) now_utc) (\<lambda>b.
     bind_res (split_hours zones now_utc cs) (\<lambda>(ins, outs).
       Inr (if b then (c # ins, outs) else (ins, c # outs))))"

definition skip_business_hour_event :: "campaign_row_with_cursor \<Rightarrow> audit_event" where
  "skip_business_hour_event c =
     (audit_event_of SKIP_BUSINESS_HOUR ''outside configured business-hour window'')
       \<lparr>ae_campaign_id := Some (cp_id c), ae_extra := [(''timezone'', JStr (cp_timezone c))]\<rparr>"

definition skip_concurrency_event :: "int \<Rightarrow> campaign_row_with_cursor \<Rightarrow> audit_event" where
  "skip_concurrency_event current c =
     (audit_event_of SKIP_CONCURRENCY
        (''in-flight '' @ str_int current @ '' >= max_concurrent '' @ str_int (cp_max_concurrent c)))
       \<lparr>ae_campaign_id := Some (cp_id c),
        ae_extra := [(''in_flight'', JInt current), (''max_concurrent'', JInt (cp_max_concurrent c))]\<rparr>"

definition skip_out_of_hours :: "timestamp \<Rightarrow> campaign_row_with_cursor list \<Rightarrow> db \<Rightarrow> db" where
  "skip_out_of_hours now cs d = fold (\<lambda>c. emit_audit now (skip_business_hour_event c)) cs d"

definition current_in_flight :: "(uuid \<rightharpoonup> int) \<Rightarrow> campaign_row_with_cursor \<Rightarrow> int" where
  "current_in_flight in_flight c = (case in_flight (cp_id c) of None \<Rightarrow> 0 | Some n \<Rightarrow> n)"

fun concurrency_gate ::
  "timestamp \<Rightarrow> (uuid \<rightharpoonup> int) \<Rightarrow> campaign_row_with_cursor list \<Rightarrow> db \<Rightarrow>
   campaign_row_with_cursor list \<times> db" where
  "concurrency_gate now in_flight [] d = ([], d)"
| "concurrency_gate now in_flight (c # cs) d =
     (let current = current_in_flight in_flight c in
        if current < cp_max_concurrent c
        then (let (capped, d') = concurrency_gate now in_flight cs d in (c # capped, d'))
        else concurrency_gate now in_flight cs
               (emit_audit now (skip_concurrency_event current c) d))"

definition pick :: "uuid list \<Rightarrow> campaign_row_with_cursor list \<Rightarrow> selection" where
  "pick retry_due_campaigns capped =
     (case sort_key rr_sort_key (filter (\<lambda>c. cp_id c \<in> set retry_due_campaigns) capped) of
        c # _ \<Rightarrow> Picked c True
      | [] \<Rightarrow>
          (case first_min rr_sort_key capped of
             None \<Rightarrow> NoWork
           | Some c \<Rightarrow> Picked c False))"

definition tick_select ::
  "zone_db \<Rightarrow> timestamp \<Rightarrow> timestamp \<Rightarrow> db \<Rightarrow> selection result \<times> db" where
  "tick_select zones now_utc now d =
     (let all_eligible = list_eligible_for_tick d in
      if all_eligible = [] then (Inr NoWork, d)
      else case split_hours zones now_utc all_eligible of
        Inl e \<Rightarrow> (Inl e, d)
      | Inr (in_hours, out_of_hours) \<Rightarrow>
          let d1 = skip_out_of_hours now out_of_hours d in
          if in_hours = [] then (Inr NoWork, d1)
          else
            let in_flight = in_flight_counts_by_campaign (map cp_id in_hours) d1;
                (capped, d2) = concurrency_gate now in_flight in_hours d1
            in if capped = [] then (Inr NoWork, d2)
               else (Inr (pick (find_retry_due_campaign_ids now d2) capped), d2))"

section \<open>Step 5: requeue, claim, dial, apply\<close>

definition oldest_retry_due ::
  "(uuid \<Rightarrow> bool) \<Rightarrow> timestamp \<Rightarrow> uuid \<Rightarrow> db \<Rightarrow> call_row option" where
  "oldest_retry_due locked now cid d =
     first_min cl_created_at
       (filter (\<lambda>r. cl_campaign_id r = cid \<and> cl_status r = RETRY_PENDING \<and>
                    (case cl_next_attempt_at r of None \<Rightarrow> False | Some t \<Rightarrow> t \<le> now) \<and>
                    \<not> locked (cl_id r))
          (db_calls d))"

definition requeue_oldest_retry_due ::
  "(uuid \<Rightarrow> bool) \<Rightarrow> timestamp \<Rightarrow> uuid \<Rightarrow> db \<Rightarrow> db result" where
  "requeue_oldest_retry_due locked now cid d =
     (case oldest_retry_due locked now cid d of
        None \<Rightarrow> Inr d
      | Some row \<Rightarrow>
          bind_res
            (transition now (cl_id row) RETRY_PENDING QUEUED (cl_attempt_epoch row) None RETRY_DUE
               ''backoff elapsed; requeueing for dispatch'' [] [] d)
            (\<lambda>(res, d'). Inr d'))"

definition claimed_event ::
  "int \<Rightarrow> int \<Rightarrow> timestamp option \<Rightarrow> campaign_row_with_cursor \<Rightarrow> call_row \<Rightarrow> audit_event" where
  "claimed_event in_flight_at_claim retries_pending_system rr_cursor_before campaign claimed =
     (audit_event_of CLAIMED ''claim for dispatch'')
       \<lparr>ae_campaign_id := Some (cp_id campaign), ae_call_id := Some (cl_id claimed),
        ae_phone := Some (cl_phone claimed), ae_attempt_epoch := Some (cl_attempt_epoch claimed),
        ae_state_before := Some ''QUEUED'', ae_state_after := Some ''DIALING'',
        ae_extra :=
          [(''in_flight_at_claim'', JInt in_flight_at_claim),
           (''max_concurrent'', JInt (cp_max_concurrent campaign)),
           (''retries_pending_system'', JInt retries_pending_system),
           (''rr_cursor_before'', json_opt_str (map_option datetime_isoformat rr_cursor_before))]\<rparr>"

text \<open>Phase 1: the claim, its audit row and the promotion, in one transaction.\<close>

definition dispatch_claim ::
  "(uuid \<Rightarrow> bool) \<Rightarrow> timestamp \<Rightarrow> campaign_row_with_cursor \<Rightarrow> db \<Rightarrow> (call_row option \<times> db) result" where
  "dispatch_claim locked now campaign d =
     (let retries_pending_system = count_retries_due_system now d;
          in_flight_at_claim = in_flight_count d (cp_id campaign);
          rr_cursor_before = get_last_dispatch_at d (cp_id campaign)
      in bind_res (claim_next_queued locked now (cp_id campaign) d) (\<lambda>(claimed, d1).
           case claimed of
             None \<Rightarrow> Inr (None, d1)
           | Some claimed \<Rightarrow>
               let d2 = emit_audit now
                          (claimed_event in_flight_at_claim retries_pending_system
                             rr_cursor_before campaign claimed) d1;
                   d3 = (if cp_status campaign = PENDING
                         then maybe_promote_to_active now (cp_id campaign) d2 else d2)
               in Inr (Some claimed, d3)))"

text \<open>Phase 2: the idempotency key handed to the provider.\<close>

definition idem_key :: "call_row \<Rightarrow> string" where
  "idem_key claimed = str_uuid (cl_id claimed) @ '':'' @ str_int (cl_attempt_epoch claimed)"

definition tick_base_seconds ::
  "(string \<Rightarrow> rat option) \<Rightarrow> settings \<Rightarrow> campaign_row_with_cursor \<Rightarrow> rat result" where
  "tick_base_seconds float_of_str stg campaign =
     py_float float_of_str
       (dict_get (cp_retry_config campaign) ''backoff_base_seconds''
          (JInt (retry_backoff_base_seconds stg)))"

text \<open>Phase 3: the provider's answer and the round-robin cursor, in one transaction.\<close>

definition apply_outcome ::
  "timestamp \<Rightarrow> timestamp \<Rightarrow> rat \<Rightarrow> rat \<Rightarrow> call_row \<Rightarrow> place_outcome \<Rightarrow> db \<Rightarrow>
   (transition_result \<times> db) result" where
  "apply_outcome now py_now u base_seconds claimed outcome d =
     (case outcome of
        Placed handle \<Rightarrow>
          transition now (cl_id claimed) DIALING DIALING (cl_attempt_epoch claimed) None DISPATCH
            ''dispatched to provider''
            [(''provider_call_id'', JStr (h_provider_call_id handle))]
            [(''provider_call_id'', ColText (h_provider_call_id handle))] d
      | ProviderRejected reason_code \<Rightarrow>
          transition now (cl_id claimed) DIALING FAILED (cl_attempt_epoch claimed) None TRANSITION
            (''provider_rejected:'' @ reason_code)
            [(''reason_code'', JStr reason_code)] [] d
      | ProviderUnavailable \<Rightarrow>
          if cl_retries_remaining claimed > 0 then
            bind_res (next_attempt_time u py_now (cl_attempt_epoch claimed) base_seconds)
              (\<lambda>next_attempt.
                 transition now (cl_id claimed) DIALING RETRY_PENDING (cl_attempt_epoch claimed)
                   None TRANSITION ''provider_unavailable'' []
                   [(''next_attempt_at'', ColTime next_attempt),
                    (''retries_remaining'', ColInt (cl_retries_remaining claimed - 1))] d)
          else
            transition now (cl_id claimed) DIALING FAILED (cl_attempt_epoch claimed) None TRANSITION
              ''provider_unavailable, retries exhausted'' [] [] d
      | PlaceRaised e \<Rightarrow> Inl e)"

definition dispatch_apply ::
  "(string \<Rightarrow> rat option) \<Rightarrow> settings \<Rightarrow> timestamp \<Rightarrow> timestamp \<Rightarrow> rat \<Rightarrow> timestamp \<Rightarrow>
   campaign_row_with_cursor \<Rightarrow> call_row \<Rightarrow> place_outcome \<Rightarrow> db \<Rightarrow> db result" where
  "dispatch_apply float_of_str stg now py_now u cursor_ts campaign claimed outcome d =
     (case outcome of
        PlaceRaised e \<Rightarrow> Inl e
      | _ \<Rightarrow>
          bind_res (tick_base_seconds float_of_str stg campaign) (\<lambda>base_seconds.
          bind_res (apply_outcome now py_now u base_seconds claimed outcome d) (\<lambda>(res, d1).
            update_last_dispatch_at (cp_id campaign) cursor_ts d1)))"

section \<open>The tick\<close>

text \<open>
  What a tick takes from outside: the zone database, the settings, \<open>float(str)\<close>, the provider,
  the jitter, the rows other transactions hold, and the readings of the clocks (\<open>datetime.now\<close>
  in the process, \<open>NOW()\<close> in each transaction).
\<close>

record tick_env =
  te_zones :: zone_db
  te_settings :: settings
  te_float_of_str :: "string \<Rightarrow> rat option"
  te_place_call :: "string \<Rightarrow> string \<Rightarrow> place_outcome"
  te_jitter :: rat
  te_locked :: "uuid \<Rightarrow> bool"
  te_now_utc :: timestamp
  te_read_now :: timestamp
  te_requeue_now :: timestamp
  te_claim_now :: timestamp
  te_apply_now :: timestamp
  te_apply_utc :: timestamp
  te_cursor_utc :: timestamp

definition dispatch_one :: "tick_env \<Rightarrow> campaign_row_with_cursor \<Rightarrow> db \<Rightarrow> uuid option result \<times> db" where
  "dispatch_one env campaign d =
     (case dispatch_claim (te_locked env) (te_claim_now env) campaign d of
        Inl e \<Rightarrow> (Inl e, d)
      | Inr (None, d1) \<Rightarrow> (Inr None, d1)
      | Inr (Some claimed, d1) \<Rightarrow>
          (case dispatch_apply (te_float_of_str env) (te_settings env) (te_apply_now env)
                  (te_apply_utc env) (te_jitter env) (te_cursor_utc env) campaign claimed
                  (te_place_call env (idem_key claimed) (cl_phone claimed)) d1 of
             Inl e \<Rightarrow> (Inl e, d1)
           | Inr d2 \<Rightarrow> (Inr (Some (cp_id campaign)), d2)))"

definition tick :: "tick_env \<Rightarrow> db \<Rightarrow> tick_decision result \<times> db" where
  "tick env d =
     (case tick_select (te_zones env) (te_now_utc env) (te_read_now env) d of
        (Inl e, d1) \<Rightarrow> (Inl e, d1)
      | (Inr NoWork, d1) \<Rightarrow> (Inr \<lparr>td_campaign_id = None, td_is_retry = False\<rparr>, d1)
      | (Inr (Picked c is_retry), d1) \<Rightarrow>
          (case (if is_retry
                 then requeue_oldest_retry_due (te_locked env) (te_requeue_now env) (cp_id c) d1
                 else Inr d1) of
             Inl e \<Rightarrow> (Inl e, d1)
           | Inr d2 \<Rightarrow>
               (case dispatch_one env c d2 of
                  (Inl e, d3) \<Rightarrow> (Inl e, d3)
                | (Inr dispatched, d3) \<Rightarrow>
                    (Inr \<lparr>td_campaign_id = dispatched, td_is_retry = is_retry\<rparr>, d3))))"

end
