(* ===== verification/Scheduler_Facts.thy ===== *)
theory Scheduler_Facts
  imports Scheduler_Tick
begin

text \<open>
  The tick's phases against the invariant: the reads change no call, the requeue, the claim and the
  application of the provider's answer are transactions that keep the invariant, and what the
  selection promises about the campaign it picks.
\<close>

section \<open>Counting calls across one rewrite\<close>

lemma put_row_count:
  assumes "distinct (map cl_id (db_calls d))" and "r \<in> set (db_calls d)"
    and "cl_id r' = cl_id r" and "cl_campaign_id r' = cl_campaign_id r"
  shows "count_status S (put_row r' d) i + (if cl_campaign_id r = i \<and> S (cl_status r) then 1 else 0) =
         count_status S d i + (if cl_campaign_id r = i \<and> S (cl_status r') then 1 else 0)"
proof -
  let ?P = "\<lambda>r. cl_campaign_id r = i \<and> S (cl_status r)"
  have "db_calls (put_row r' d) = update_where (\<lambda>x. cl_id x = cl_id r) (\<lambda>_. r') (db_calls d)"
    using assms(3) by (simp add: put_row_def update_where_def)
  with count_where_update_key [OF assms(1,2) refl, of ?P "\<lambda>_. r'"] assms(4)
  show ?thesis by (auto simp: count_status_def split: if_splits)
qed

lemma count_status_cong: "db_calls d' = db_calls d \<Longrightarrow> count_status S d' i = count_status S d i"
  by (simp add: count_status_def)

lemma in_flight_put_row_le:
  assumes "distinct (map cl_id (db_calls d))" and "r \<in> set (db_calls d)"
    and "cl_id r' = cl_id r" and "cl_campaign_id r' = cl_campaign_id r"
    and "cl_status r' \<in> {DIALING, IN_PROGRESS} \<longrightarrow> cl_status r \<in> {DIALING, IN_PROGRESS}"
  shows "in_flight_count (put_row r' d) i \<le> in_flight_count d i"
  using put_row_count [OF assms(1-4), of "\<lambda>s. s \<in> {DIALING, IN_PROGRESS}" i] assms(5)
  unfolding in_flight_count_def by (auto split: if_splits)

lemma in_flight_nonneg: "0 \<le> in_flight_count d i"
  by (simp add: in_flight_count_def count_status_def)

section \<open>The in-flight dict\<close>

lemma fold_map_upd:
  "fold (\<lambda>k m. m(k \<mapsto> g k)) ks m k = (if k \<in> set ks then Some (g k) else m k)"
  by (induction ks arbitrary: m) auto

lemma in_flight_counts_correct:
  assumes "cid \<in> set cids"
  shows "in_flight_counts_by_campaign cids d cid = Some (in_flight_count d cid)"
proof -
  let ?rows = "filter (\<lambda>r. cl_campaign_id r \<in> set cids \<and> cl_status r \<in> {DIALING, IN_PROGRESS}) (db_calls d)"
  have "in_flight_count d cid = 0" if "cid \<notin> set (remdups (map cl_campaign_id ?rows))"
    using that assms by (auto simp: in_flight_count_def count_status_def count_where_0_iff)
  moreover have "cids \<noteq> []" using assms by auto
  ultimately show ?thesis
    using assms by (simp add: in_flight_counts_by_campaign_def fold_map_upd)
qed

section \<open>The reads\<close>

lemma skip_event_quiet [simp]:
  "quiet_event (skip_business_hour_event c)" "quiet_event (skip_concurrency_event n c)"
  by (simp_all add: quiet_event_def skip_business_hour_event_def skip_concurrency_event_def)

definition only_quiet_rows_added :: "db \<Rightarrow> db \<Rightarrow> bool" where
  "only_quiet_rows_added d d' \<longleftrightarrow>
     db_calls d' = db_calls d \<and> db_campaigns d' = db_campaigns d \<and>
     db_cursors d' = db_cursors d \<and> db_inbox d' = db_inbox d \<and> (db_inv d \<longrightarrow> db_inv d')"

lemma quiet_refl [simp]: "only_quiet_rows_added d d"
  by (simp add: only_quiet_rows_added_def)

lemma quiet_trans:
  "only_quiet_rows_added a b \<Longrightarrow> only_quiet_rows_added b c \<Longrightarrow> only_quiet_rows_added a c"
  by (simp add: only_quiet_rows_added_def)

lemma quiet_emit: "quiet_event ev \<Longrightarrow> only_quiet_rows_added d (emit_audit now ev d)"
  by (simp add: only_quiet_rows_added_def db_inv_quiet_emit)

lemma quiet_skip: "only_quiet_rows_added d (skip_out_of_hours now cs d)"
  unfolding skip_out_of_hours_def
proof (induction cs arbitrary: d)
  case (Cons c cs)
  have "only_quiet_rows_added d (emit_audit now (skip_business_hour_event c) d)"
    by (simp add: quiet_emit)
  from quiet_trans [OF this Cons.IH] show ?case by simp
qed simp

lemma quiet_gate: "only_quiet_rows_added d (snd (concurrency_gate now m cs d))"
proof (induction cs arbitrary: d)
  case (Cons c cs)
  have "only_quiet_rows_added d (emit_audit now (skip_concurrency_event n c) d)" for n
    by (simp add: quiet_emit)
  from quiet_trans [OF this Cons.IH] Cons.IH [of d] show ?case
    by (simp add: Let_def case_prod_unfold)
qed simp

lemma concurrency_gate_fst:
  "fst (concurrency_gate now m cs d) =
   filter (\<lambda>c. current_in_flight m c < cp_max_concurrent c) cs"
  by (induction cs arbitrary: d) (simp_all add: Let_def case_prod_unfold)

lemma split_hours_Inr:
  "split_hours zones t cs = Inr (ins, outs) \<Longrightarrow>
   ins = filter (\<lambda>c. is_in_window zones (cp_schedule c) (cp_timezone c) t = Inr True) cs \<and>
   outs = filter (\<lambda>c. is_in_window zones (cp_schedule c) (cp_timezone c) t = Inr False) cs"
  by (induction cs arbitrary: ins outs) (auto simp: bind_res_Inr_iff split: if_splits)

text \<open>The campaigns a tick may dispatch from.\<close>

definition tick_candidates :: "zone_db \<Rightarrow> timestamp \<Rightarrow> db \<Rightarrow> campaign_row_with_cursor list" where
  "tick_candidates zones now_utc d =
     filter (\<lambda>c. is_in_window zones (cp_schedule c) (cp_timezone c) now_utc = Inr True \<and>
                 in_flight_count d (cp_id c) < cp_max_concurrent c)
       (list_eligible_for_tick d)"

lemma pick_Nil [simp]: "pick ids [] = NoWork"
  by (simp add: pick_def)

lemma filter_in_flight:
  assumes "set cs \<subseteq> set ds" and "ds \<noteq> []"
  shows "filter (\<lambda>c. current_in_flight (in_flight_counts_by_campaign (map cp_id ds) d) c
                     < cp_max_concurrent c) cs =
         filter (\<lambda>c. in_flight_count d (cp_id c) < cp_max_concurrent c) cs"
  using assms by (intro filter_cong refl) (auto simp: current_in_flight_def in_flight_counts_correct)

lemma in_flight_counts_cong:
  "db_calls d' = db_calls d \<Longrightarrow> in_flight_counts_by_campaign cids d' = in_flight_counts_by_campaign cids d"
  by (simp add: in_flight_counts_by_campaign_def in_flight_count_def count_status_def)

lemma find_retry_due_cong:
  "db_calls d' = db_calls d \<Longrightarrow> find_retry_due_campaign_ids now d' = find_retry_due_campaign_ids now d"
  by (simp add: find_retry_due_campaign_ids_def)

text \<open>Selection in one line: the pick among the candidates, whatever rows are skipped.\<close>

lemma tick_select_cases:
  obtains
    (raises) e where "fst (tick_select zones t now d) = Inl e" and "snd (tick_select zones t now d) = d"
      and "split_hours zones t (list_eligible_for_tick d) = Inl e"
  | (selects) "fst (tick_select zones t now d) =
      Inr (pick (find_retry_due_campaign_ids now d) (tick_candidates zones t d))"
      and "only_quiet_rows_added d (snd (tick_select zones t now d))"
proof (cases "split_hours zones t (list_eligible_for_tick d)")
  case (Inl e)
  then have "list_eligible_for_tick d \<noteq> []" by auto
  with Inl raises show thesis by (simp add: tick_select_def Let_def)
next
  case (Inr p)
  obtain ins outs where io: "split_hours zones t (list_eligible_for_tick d) = Inr (ins, outs)"
    using Inr by (cases p) auto
  note ins = split_hours_Inr [OF io, THEN conjunct1]
  let ?d1 = "skip_out_of_hours now outs d"
  let ?g = "concurrency_gate now (in_flight_counts_by_campaign (map cp_id ins) ?d1) ins ?d1"
  have q1: "only_quiet_rows_added d ?d1" by (rule quiet_skip)
  have q2: "only_quiet_rows_added d (snd ?g)" using quiet_trans [OF q1 quiet_gate] .
  have cands: "tick_candidates zones t d =
      filter (\<lambda>c. in_flight_count d (cp_id c) < cp_max_concurrent c) ins"
    by (simp add: ins tick_candidates_def conj_commute)
  show thesis
  proof (cases "ins = []")
    case True
    then have "tick_candidates zones t d = []" by (simp add: cands)
    with True io q1 show thesis
      by (intro selects) (auto simp: tick_select_def Let_def)
  next
    case False
    have counts: "in_flight_counts_by_campaign (map cp_id ins) ?d1 =
        in_flight_counts_by_campaign (map cp_id ins) d"
      using q1 by (intro in_flight_counts_cong) (simp add: only_quiet_rows_added_def)
    have gate: "fst ?g = tick_candidates zones t d"
      using False unfolding concurrency_gate_fst cands counts by (intro filter_in_flight) simp_all
    have some: "list_eligible_for_tick d \<noteq> []" using False ins by auto
    have run: "tick_select zones t now d =
        (if fst ?g = [] then (Inr NoWork, snd ?g)
         else (Inr (pick (find_retry_due_campaign_ids now (snd ?g)) (fst ?g)), snd ?g))"
      using False some by (simp add: tick_select_def Let_def io case_prod_unfold)
    have due: "find_retry_due_campaign_ids now (snd ?g) = find_retry_due_campaign_ids now d"
      using q2 by (intro find_retry_due_cong) (simp add: only_quiet_rows_added_def)
    show thesis
      unfolding gate due by (rule selects) (use q2 in \<open>simp_all add: run gate due\<close>)
  qed
qed

lemma tick_select_quiet: "only_quiet_rows_added d (snd (tick_select zones t now d))"
  by (cases rule: tick_select_cases [where zones = zones and t = t and now = now and d = d]) simp_all


section \<open>The transactions\<close>

text \<open>What a snapshot of a campaign must still say when the claim runs: a pending campaign was
  pending when it was read (statuses only move forward).\<close>

definition snapshot_ok :: "campaign_row_with_cursor \<Rightarrow> db \<Rightarrow> bool" where
  "snapshot_ok campaign d \<longleftrightarrow>
     campaign_exists (cp_id campaign) d \<and>
     (\<forall>c \<in> set (db_campaigns d).
        cp_id c = cp_id campaign \<longrightarrow> cp_status c = PENDING \<longrightarrow> cp_status campaign = PENDING)"

lemma snapshot_ok_evolves:
  assumes "snapshot_ok campaign d" and "evolves d d'" and "db_inv d'"
  shows "snapshot_ok campaign d'"
proof -
  obtain c where c: "c \<in> set (db_campaigns d)" "cp_id c = cp_id campaign"
    using assms(1) by (auto simp: snapshot_ok_def campaign_exists_def)
  then obtain c' where c': "c' \<in> set (db_campaigns d')" "campaign_evolves c c'"
    using assms(2) by (auto simp: evolves_def)
  have id: "cp_id c' = cp_id campaign" using c(2) campaign_evolves_id [OF c'(2)] by simp
  have "cp_status campaign = PENDING"
    if "x \<in> set (db_campaigns d')" "cp_id x = cp_id campaign" "cp_status x = PENDING" for x
  proof -
    have "x = c'" using that c' id by (intro campaign_key_eq [OF db_invD(2) [OF assms(3)]]) auto
    then have "cp_status c = PENDING" using that(3) c'(2)
      by (cases "cp_status c") (auto simp: campaign_evolves_def)
    with c assms(1) show ?thesis by (auto simp: snapshot_ok_def)
  qed
  with c'(1) id show ?thesis by (auto simp: snapshot_ok_def campaign_exists_def)
qed

lemma requeue_cases:
  assumes "requeue_oldest_retry_due locked now cid d = Inr d'"
  obtains (drained) "oldest_retry_due locked now cid d = None" and "d' = d"
  | (requeued) row res where "oldest_retry_due locked now cid d = Some row"
      and "row \<in> set (db_calls d)" and "cl_campaign_id row = cid" and "cl_status row = RETRY_PENDING"
      and "transition now (cl_id row) RETRY_PENDING QUEUED (cl_attempt_epoch row) None RETRY_DUE
             ''backoff elapsed; requeueing for dispatch'' [] [] d = Inr (res, d')"
proof (cases "oldest_retry_due locked now cid d")
  case None
  with assms have "d' = d" by (simp add: requeue_oldest_retry_due_def)
  with None show thesis by (rule drained)
next
  case (Some row)
  then have "row \<in> set (db_calls d)" "cl_campaign_id row = cid" "cl_status row = RETRY_PENDING"
    by (auto simp: oldest_retry_due_def dest: first_min_in_set)
  with Some assms requeued show thesis
    by (auto simp: requeue_oldest_retry_due_def bind_res_Inr_iff)
qed

lemma requeue_inv:
  assumes "requeue_oldest_retry_due locked now cid d = Inr d'" and "db_inv d"
  shows "db_inv d' \<and> evolves d d'"
  using assms(1)
proof (cases rule: requeue_cases)
  case (requeued row res)
  from transition_inv [OF requeued(5) assms(2)] show ?thesis by simp
qed (use assms in simp)

lemma claim_row_simps [simp]:
  "cl_id (claim_row now r) = cl_id r" "cl_campaign_id (claim_row now r) = cl_campaign_id r"
  "cl_phone (claim_row now r) = cl_phone r" "cl_status (claim_row now r) = DIALING"
  "cl_attempt_epoch (claim_row now r) = cl_attempt_epoch r + 1"
  "cl_retries_remaining (claim_row now r) = cl_retries_remaining r"
  "cl_provider_call_id (claim_row now r) = None" "cl_created_at (claim_row now r) = cl_created_at r"
  "cl_updated_at (claim_row now r) = now"
  by (simp_all add: claim_row_def)

lemma claim_candidate_Some:
  assumes "claim_candidate locked now cid d = Some r"
  shows "r \<in> set (db_calls d)" and "cl_campaign_id r = cid" and "cl_status r = QUEUED"
    and "\<not> locked (cl_id r)"
  using first_min_in_set [OF assms [unfolded claim_candidate_def]] by auto

lemma claim_next_queued_Some:
  assumes "claim_candidate locked now cid d = Some r" and "keys_ok d"
  shows "claim_next_queued locked now cid d =
    (if phone_index_ok (db_calls (put_row (claim_row now r) d))
     then Inr (Some (claim_row now r), put_row (claim_row now r) d) else Inl UniqueViolationError)"
proof -
  let ?P = "\<lambda>x. cl_id x = cl_id r"
  have r: "r \<in> set (db_calls d)" using assms(1) by (rule claim_candidate_Some)
  then obtain x where x: "find ?P (db_calls d) = Some x" by (metis (mono_tags, lifting) find_None_set option.exhaust)
  then have "x = r" using assms(2) r
    by (intro call_key_eq [of d]) (auto simp: keys_ok_def dest: find_Some_iff_set)
  with x have "find ?P (db_calls d) = Some r" by simp
  then have "update_call_where ?P (claim_row now) d =
      (if phone_index_ok (db_calls (put_row (claim_row now r) d))
       then Inr (Some (claim_row now r), put_row (claim_row now r) d) else Inl UniqueViolationError)"
    using assms(2) by (intro update_call_where_Some) (auto simp: keys_ok_def)
  with assms(1) show ?thesis by (simp add: claim_next_queued_def)
qed

lemma dispatch_claim_cases:
  assumes inv: "db_inv d"
  obtains (none) "claim_candidate locked now (cp_id campaign) d = None"
      and "dispatch_claim locked now campaign d = Inr (None, d)"
  | (claimed) r ev where "claim_candidate locked now (cp_id campaign) d = Some r"
      and "records_move ev (claim_row now r)"
      and "phone_index_ok (db_calls (put_row (claim_row now r) d))"
      and "dispatch_claim locked now campaign d =
        Inr (Some (claim_row now r),
             if cp_status campaign = PENDING
             then maybe_promote_to_active now (cp_id campaign) (emit_audit now ev (put_row (claim_row now r) d))
             else emit_audit now ev (put_row (claim_row now r) d))"
      and "ae_event_type ev = CLAIMED"
proof (cases "claim_candidate locked now (cp_id campaign) d")
  case None
  then show thesis by (intro none) (simp_all add: dispatch_claim_def claim_next_queued_def)
next
  case (Some r)
  note c = claim_candidate_Some [OF Some]
  have ok: "phone_index_ok (db_calls (put_row (claim_row now r) d))"
    using c by (intro phone_index_put_row [of d r] db_invD [OF inv]) (auto simp: in_phone_index_def)
  have run: "claim_next_queued locked now (cp_id campaign) d =
      Inr (Some (claim_row now r), put_row (claim_row now r) d)"
    using claim_next_queued_Some [OF Some db_invD(4) [OF inv]] ok by simp
  show thesis
    by (rule claimed [OF Some _ ok])
      (auto simp: dispatch_claim_def run Let_def records_move_def claimed_event_def)
qed

lemma dispatch_claim_inv:
  assumes run: "dispatch_claim locked now campaign d = Inr (cl, d')" and inv: "db_inv d"
    and snap: "snapshot_ok campaign d"
  shows "db_inv d' \<and> evolves d d'"
  using inv
proof (cases rule: dispatch_claim_cases [where locked = locked and now = now and campaign = campaign])
  case none
  with run inv show ?thesis by simp
next
  case (claimed r ev)
  note c = claim_candidate_Some [OF claimed(1)]
  let ?r = "claim_row now r" and ?p = "cp_status campaign = PENDING"
  let ?d = "emit_audit now ev (put_row ?r d)"
  have evo: "row_evolves r ?r" using c by (simp add: row_evolves_def terminal_iff)
  have d': "d' = (if ?p then maybe_promote_to_active now (cl_campaign_id r) ?d else ?d)"
    using run claimed(4) c(2) by auto
  have "db_inv d'"
    using start_call_inv [OF inv c(1) evo claimed(3,2) _ d'] snap c(2)
    by (auto simp: snapshot_ok_def terminal_iff)
  moreover have "evolves d (put_row ?r d)" using db_invD(1) [OF inv] c(1) evo by (rule evolves_put_row)
  moreover have "evolves (put_row ?r d) ?d" by (rule evolves_same_tables) simp_all
  moreover have "evolves ?d d'"
    using promote_evolves [of ?d] db_invD(2) [OF inv] by (auto simp: d')
  ultimately show ?thesis by (metis evolves_trans)
qed

lemma apply_outcome_inv:
  assumes "apply_outcome now py u base claimed outcome d = Inr (res, d')" and "db_inv d"
  shows "db_inv d' \<and> evolves d d'"
  using assms(1)
  by (auto simp: apply_outcome_def bind_res_Inr_iff split: place_outcome.splits if_splits
      dest!: transition_inv [OF _ assms(2)])

lemma update_cursor_inv:
  assumes "update_last_dispatch_at cid ts d = Inr d'" and "db_inv d"
  shows "db_inv d' \<and> evolves d d'"
proof -
  have eq: "d' = d\<lparr>db_cursors := (db_cursors d)(cid \<mapsto> Some ts)\<rparr>"
    using assms(1) by (auto simp: update_last_dispatch_at_def split: if_splits)
  have "db_inv d' \<longleftrightarrow> db_inv d" by (rule db_inv_cong) (simp_all add: eq)
  moreover have "evolves d d'" by (rule evolves_same_tables) (simp_all add: eq)
  ultimately show ?thesis using assms(2) by simp
qed

lemma dispatch_apply_cases:
  assumes "dispatch_apply fs stg now py u ts campaign claimed outcome d = Inr d'"
  obtains base res d1 where "tick_base_seconds fs stg campaign = Inr base"
    and "apply_outcome now py u base claimed outcome d = Inr (res, d1)"
    and "update_last_dispatch_at (cp_id campaign) ts d1 = Inr d'"
  using assms by (auto simp: dispatch_apply_def bind_res_Inr_iff split: place_outcome.splits)

lemma dispatch_apply_inv:
  assumes "dispatch_apply fs stg now py u ts campaign claimed outcome d = Inr d'" and "db_inv d"
  shows "db_inv d' \<and> evolves d d'"
  using assms(1)
proof (cases rule: dispatch_apply_cases)
  case (1 base res d1)
  from apply_outcome_inv [OF 1(2) assms(2)] update_cursor_inv [OF 1(3)] show ?thesis
    by (metis evolves_trans)
qed


section \<open>Each phase is a transaction\<close>

lemma tick_select_inv:
  assumes "db_inv d"
  shows "db_inv (snd (tick_select zones t now d)) \<and> evolves d (snd (tick_select zones t now d))"
  using tick_select_quiet [of d zones t now] assms
  by (auto simp: only_quiet_rows_added_def intro: evolves_same_tables)

interpretation selection: db_transaction "\<lambda>_ _. True"
  "\<lambda>a d d'. d' = snd (tick_select (fst a) (fst (snd a)) (snd (snd a)) d)"
  by unfold_locales (use tick_select_inv in blast)+

interpretation requeue: db_transaction "\<lambda>_ _. True"
  "\<lambda>a d d'. requeue_oldest_retry_due (fst a) (fst (snd a)) (snd (snd a)) d = Inr d'"
  by unfold_locales (use requeue_inv in blast)+

interpretation claim: db_transaction "\<lambda>a d. snapshot_ok (snd (snd a)) d"
  "\<lambda>a d d'. \<exists>cl. dispatch_claim (fst a) (fst (snd a)) (snd (snd a)) d = Inr (cl, d')"
  by unfold_locales (use dispatch_claim_inv in blast)+

interpretation outcome: db_transaction "\<lambda>_ _. True"
  "\<lambda>a d d'. \<exists>py u ts fs stg now. dispatch_apply fs stg now py u ts (fst a) (fst (snd a)) (snd (snd a)) d = Inr d'"
  by unfold_locales (use dispatch_apply_inv in blast)+

section \<open>What the selection promises\<close>

lemma pick_cases:
  assumes "pick ids capped = Picked c is_retry"
  shows "c \<in> set capped" and "is_retry \<longleftrightarrow> (\<exists>x \<in> set capped. cp_id x \<in> set ids)"
    and "is_retry \<Longrightarrow> cp_id c \<in> set ids"
    and "x \<in> set capped \<Longrightarrow> \<not> is_retry \<or> cp_id x \<in> set ids \<Longrightarrow> rr_sort_key c \<le> rr_sort_key x"
proof -
  let ?due = "filter (\<lambda>c. cp_id c \<in> set ids) capped"
  have "c \<in> set capped \<and> (is_retry \<longleftrightarrow> (\<exists>x \<in> set capped. cp_id x \<in> set ids)) \<and>
    (is_retry \<longrightarrow> cp_id c \<in> set ids) \<and>
    (\<forall>x \<in> set capped. \<not> is_retry \<or> cp_id x \<in> set ids \<longrightarrow> rr_sort_key c \<le> rr_sort_key x)"
  proof (cases "?due = []")
    case True
    then have "\<forall>x \<in> set capped. cp_id x \<notin> set ids" by (simp add: filter_empty_conv)
    moreover from True assms have "first_min rr_sort_key capped = Some c \<and> \<not> is_retry"
      by (auto simp: pick_def split: option.splits)
    ultimately show ?thesis by (auto dest: first_min_in_set first_min_le)
  next
    case False
    from hd_sort_key [OF False] have m: "first_min rr_sort_key ?due = Some (hd (sort_key rr_sort_key ?due))" .
    from False obtain y ys where "sort_key rr_sort_key ?due = y # ys"
      by (metis list.exhaust length_0_conv length_sort)
    with m assms have "first_min rr_sort_key ?due = Some c \<and> is_retry" by (simp add: pick_def)
    then show ?thesis using first_min_in_set [of rr_sort_key ?due c] first_min_le [of rr_sort_key ?due c]
      by auto
  qed
  then show "c \<in> set capped" and "is_retry \<longleftrightarrow> (\<exists>x \<in> set capped. cp_id x \<in> set ids)"
    and "is_retry \<Longrightarrow> cp_id c \<in> set ids"
    and "x \<in> set capped \<Longrightarrow> \<not> is_retry \<or> cp_id x \<in> set ids \<Longrightarrow> rr_sort_key c \<le> rr_sort_key x"
    by blast+
qed

lemma with_cursor_simps [simp]:
  "cp_id (with_cursor d c) = cp_id c" "cp_status (with_cursor d c) = cp_status c"
  "cp_max_concurrent (with_cursor d c) = cp_max_concurrent c"
  "cp_schedule (with_cursor d c) = cp_schedule c" "cp_timezone (with_cursor d c) = cp_timezone c"
  "cp_retry_config (with_cursor d c) = cp_retry_config c"
  "cp_last_dispatch_at (with_cursor d c) = last_dispatch d (cp_id c)"
  by (simp_all add: with_cursor_def campaign_row.extend_def campaign_row_with_cursor.fields_def)

lemma in_list_eligible:
  "c \<in> set (list_eligible_for_tick d) \<longleftrightarrow>
   (\<exists>x \<in> set (db_campaigns d). c = with_cursor d x \<and> cp_status x \<in> {PENDING, ACTIVE} \<and>
      has_dispatchable_work d (cp_id x))"
  by (auto simp: list_eligible_for_tick_def)

lemma selected_campaign:
  assumes "tick_select zones t now d = (Inr (Picked c is_retry), d1)" and "db_inv d"
  obtains x where "x \<in> set (db_campaigns d)" and "c = with_cursor d x"
    and "in_flight_count d (cp_id x) < cp_max_concurrent x" and "snapshot_ok c d"
    and "only_quiet_rows_added d d1"
proof (cases rule: tick_select_cases [where zones = zones and t = t and now = now and d = d])
  case raises
  with assms(1) show thesis by simp
next
  case selects
  with assms(1) have p: "pick (find_retry_due_campaign_ids now d) (tick_candidates zones t d) = Picked c is_retry"
      and q: "only_quiet_rows_added d d1" by simp_all
  from pick_cases(1) [OF p] obtain x where x: "x \<in> set (db_campaigns d)" "c = with_cursor d x"
      "in_flight_count d (cp_id x) < cp_max_concurrent x"
    by (auto simp: tick_candidates_def in_list_eligible)
  have "snapshot_ok c d"
    using x campaign_key_eq [OF db_invD(2) [OF assms(2)] _ x(1)]
    by (auto simp: snapshot_ok_def campaign_exists_def)
  with x q show thesis by (intro that)
qed

end
