(* ===== verification/Number_Text.thy ===== *)
theory Number_Text
  imports Prelude
begin

text \<open>
  Numbers read back from text: \<open>int(s)\<close>, \<open>int(s, 16)\<close> and \<open>UUID(s)\<close> as Python reads them, and that they
  invert the decimal, hexadecimal and UUID texts of Prelude, which are therefore injective.
\<close>

section \<open>Digits\<close>

definition hex_value :: "char \<Rightarrow> nat option" where
  "hex_value c =
     (let n = of_char c :: nat in
        if 48 \<le> n \<and> n \<le> 57 then Some (n - 48)
        else if 97 \<le> n \<and> n \<le> 102 then Some (n - 87)
        else if 65 \<le> n \<and> n \<le> 70 then Some (n - 55)
        else None)"

fun hex_text_value :: "nat \<Rightarrow> string \<Rightarrow> nat option" where
  "hex_text_value acc [] = Some acc"
| "hex_text_value acc (c # s) =
     (case hex_value c of None \<Rightarrow> None | Some v \<Rightarrow> hex_text_value (16 * acc + v) s)"

definition digits_value :: "string \<Rightarrow> nat" where
  "digits_value ds = foldl (\<lambda>acc c. 10 * acc + (of_char c - 48)) 0 ds"

definition starts_with :: "string \<Rightarrow> string \<Rightarrow> bool" where
  "starts_with p s \<longleftrightarrow> take (length p) s = p"

section \<open>int(...) and UUID(...)\<close>

definition int_space :: "char \<Rightarrow> bool" where
  "int_space c \<longleftrightarrow> (let n = of_char c :: nat in 9 \<le> n \<and> n \<le> 13 \<or> n = 32)"

text \<open>Digits of a base, a single underscore between two of them allowed.\<close>

fun scan_base :: "nat \<Rightarrow> nat \<Rightarrow> bool \<Rightarrow> string \<Rightarrow> nat option" where
  "scan_base b acc after_digit [] = (if after_digit then Some acc else None)"
| "scan_base b acc after_digit (c # s) =
     (if c = CHR ''_'' then (if after_digit then scan_base b acc False s else None)
      else case hex_value c of
        None \<Rightarrow> None
      | Some v \<Rightarrow> if v < b then scan_base b (b * acc + v) True s else None)"

definition strip_int :: "string \<Rightarrow> string" where
  "strip_int s = rev (dropWhile int_space (rev (dropWhile int_space s)))"

definition drop_prefix :: "nat \<Rightarrow> string \<Rightarrow> string" where
  "drop_prefix b s =
     (if b = 16 \<and> (starts_with ''0x'' s \<or> starts_with ''0X'' s)
      then (case drop 2 s of c # r \<Rightarrow> if c = CHR ''_'' then r else c # r | [] \<Rightarrow> [])
      else s)"

definition int_of_text :: "nat \<Rightarrow> string \<Rightarrow> int result" where
  "int_of_text b s =
     (let t = strip_int s;
          signed = (case t of c # _ \<Rightarrow> c = CHR ''+'' \<or> c = CHR ''-'' | [] \<Rightarrow> False);
          neg = (case t of c # _ \<Rightarrow> c = CHR ''-'' | [] \<Rightarrow> False)
      in case scan_base b 0 False (drop_prefix b (if signed then tl t else t)) of
           None \<Rightarrow> Inl (ValueError ''invalid literal for int()'')
         | Some n \<Rightarrow> Inr (if neg then - int n else int n))"

function remove_all :: "string \<Rightarrow> string \<Rightarrow> string" where
  "remove_all sub s =
     (if sub = [] then s
      else case s of
        [] \<Rightarrow> []
      | c # r \<Rightarrow> if starts_with sub s then remove_all sub (drop (length sub) s) else c # remove_all sub r)"
  by pat_completeness auto
termination by (relation "measure (\<lambda>(sub, s). length s)") auto

declare remove_all.simps [simp del]

definition strip_braces :: "string \<Rightarrow> string" where
  "strip_braces s =
     (let brace = (\<lambda>c. c = CHR ''{'' \<or> c = CHR ''}'') in rev (dropWhile brace (rev (dropWhile brace s))))"

definition uuid_of_hex :: "string \<Rightarrow> uuid result" where
  "uuid_of_hex s =
     (let h = filter (\<lambda>c. c \<noteq> CHR ''-'') (strip_braces (remove_all ''uuid:'' (remove_all ''urn:'' s)))
      in if length h \<noteq> 32 then Inl (ValueError ''badly formed hexadecimal UUID string'')
         else bind_res (int_of_text 16 h) (\<lambda>i.
           if 0 \<le> i \<and> i < 2 ^ 128 then Inr (nat i)
           else Inl (ValueError ''int is out of range (need a 128-bit value)'')))"

section \<open>Reading digits back\<close>

lemma hex_value_digit: "n < 16 \<Longrightarrow> hex_value (digit_char n) = Some n"
proof -
  assume "n < 16"
  moreover have "list_all (\<lambda>n. hex_value (digit_char n) = Some n) [0..<16]" by code_simp
  ultimately show ?thesis by (simp add: list_all_iff)
qed

lemma hex_text_value_app:
  "hex_text_value acc (s @ t) = (case hex_text_value acc s of None \<Rightarrow> None | Some v \<Rightarrow> hex_text_value v t)"
  by (induction s arbitrary: acc) (auto split: option.splits)

lemma hex_text_value_digits: "n < 16 ^ k \<Longrightarrow> hex_text_value 0 (hex_digits k n) = Some n"
  by (induction k arbitrary: n) (simp_all add: hex_text_value_app hex_value_digit)

lemma length_hex_digits [simp]: "length (hex_digits k n) = k"
  by (induction k arbitrary: n) simp_all

lemma ascii_digit_char: "n < 10 \<Longrightarrow> ascii_digit (digit_char n) \<and> of_char (digit_char n) = 48 + n"
proof -
  assume "n < 10"
  moreover have "list_all (\<lambda>n. ascii_digit (digit_char n) \<and> of_char (digit_char n) = 48 + n) [0..<10]" by code_simp
  ultimately show ?thesis by (simp add: list_all_iff)
qed

lemma digits_value_app: "digits_value (ds @ [digit_char n]) = 10 * digits_value ds + n" if "n < 10"
  using ascii_digit_char [OF that] by (simp add: digits_value_def)

lemma str_nat_digits: "list_all ascii_digit (str_nat n) \<and> digits_value (str_nat n) = n"
proof (induction n rule: str_nat.induct)
  case (1 n)
  then show ?case
    using ascii_digit_char [of n] ascii_digit_char [of "n mod 10"] digits_value_app [of n "[]"]
      digits_value_app [of "n mod 10" "str_nat (n div 10)"]
    by (cases "n < 10") (auto simp: str_nat.simps [of n] digits_value_def)
qed

lemma str_nat_leading: "\<exists>m r. str_nat n = digit_char m # r \<and> m < 10 \<and> (m = 0 \<longrightarrow> r = [])"
proof (induction n rule: str_nat.induct)
  case (1 n)
  show ?case
  proof (cases "n < 10")
    case True
    then show ?thesis by (intro exI [of _ n]) (simp add: str_nat.simps [of n])
  next
    case False
    with 1 obtain m r where m: "str_nat (n div 10) = digit_char m # r" "m < 10" "m = 0 \<longrightarrow> r = []" by blast
    have "m \<noteq> 0"
    proof
      assume "m = 0"
      with m have "digits_value (str_nat (n div 10)) = 0" by (simp add: digits_value_def digit_char_def)
      with False str_nat_digits [of "n div 10"] show False by (simp add: div_eq_0_iff)
    qed
    with m False show ?thesis by (intro exI [of _ m]) (simp add: str_nat.simps [of n])
  qed
qed

section \<open>Reading integers and UUIDs back\<close>

lemma hex_digits_hex: "list_all (\<lambda>c. hex_value c \<noteq> None) (hex_digits k n)"
  by (induction k arbitrary: n) (simp_all add: hex_value_digit)

lemma hex_digits_not: "hex_value c = None \<Longrightarrow> c \<notin> set (hex_digits k n)"
  using hex_digits_hex [of k n] by (auto simp: list_all_iff)

lemma hex_not_special: "hex_value c \<noteq> None \<Longrightarrow> \<not> int_space c \<and> c \<notin> {CHR ''+'', CHR ''-'', CHR ''x'', CHR ''X'', CHR ''_''}"
  by (auto simp: int_space_def hex_value_def Let_def)

lemma scan_base_app:
  assumes "list_all (\<lambda>c. hex_value c \<noteq> None) s" and "v < 16"
  shows "scan_base 16 acc True (s @ [digit_char v]) =
    (case scan_base 16 acc True s of None \<Rightarrow> None | Some a \<Rightarrow> Some (16 * a + v))"
  using assms(1)
proof (induction s arbitrary: acc)
  case Nil
  then show ?case
    using hex_value_digit [OF assms(2)] hex_not_special [of "digit_char v"] assms(2) by simp
next
  case (Cons c s)
  then show ?case using hex_not_special [of c] by (auto split: option.splits)
qed

lemma scan_base_digits: "n < 16 ^ k \<Longrightarrow> scan_base 16 0 True (hex_digits k n) = Some n"
  by (induction k arbitrary: n) (simp_all add: scan_base_app hex_digits_hex del: not_None_eq)

lemma scan_base_start: "s \<noteq> [] \<Longrightarrow> hd s \<noteq> CHR ''_'' \<Longrightarrow> scan_base b acc ok s = scan_base b acc ok' s"
  by (cases s) simp_all

lemma remove_all_absent:
  assumes "c \<notin> set s"
  shows "remove_all (c # sub) s = s"
  using assms
proof (induction s)
  case (Cons x s)
  then have "\<not> starts_with (c # sub) (x # s)" by (auto simp: starts_with_def)
  with Cons show ?case by (simp add: remove_all.simps [of _ "x # s"])
qed (simp add: remove_all.simps)

lemma dropWhile_none: "list_all (\<lambda>c. \<not> P c) s \<Longrightarrow> dropWhile P s = s"
  by (cases s) simp_all

lemma strip_none: "list_all (\<lambda>c. \<not> P c) s \<Longrightarrow> rev (dropWhile P (rev (dropWhile P s))) = s"
  by (simp add: dropWhile_none list_all_iff)

lemma int_of_hex_text:
  assumes "list_all (\<lambda>c. hex_value c \<noteq> None) s" and "s \<noteq> []" and "scan_base 16 0 True s = Some n"
  shows "int_of_text 16 s = Inr (int n)"
proof -
  obtain c r where s: "s = c # r" using assms(2) by (cases s) auto
  have special: "list_all (\<lambda>c. \<not> int_space c \<and> c \<notin> {CHR ''+'', CHR ''-'', CHR ''x'', CHR ''X'', CHR ''_''}) s"
    using assms(1) hex_not_special by (simp only: list_all_iff) blast
  then have "strip_int s = s"
    unfolding strip_int_def by (intro strip_none) (simp add: list_all_iff)
  moreover have "drop_prefix 16 s = s"
    using special unfolding s by (cases r) (auto simp: drop_prefix_def starts_with_def)
  moreover have "scan_base 16 0 False s = Some n"
    using assms(3) scan_base_start [of s 16 0 False True] special s by auto
  ultimately show ?thesis using special unfolding s by (simp add: int_of_text_def)
qed

lemma filter_dashes:
  assumes "length h = 32" and "CHR ''-'' \<notin> set h"
  shows "filter (\<lambda>c. c \<noteq> CHR ''-'')
    (take 8 h @ ''-'' @ take 4 (drop 8 h) @ ''-'' @ take 4 (drop 12 h) @ ''-'' @ take 4 (drop 16 h) @ ''-'' @ drop 20 h) = h"
proof -
  have keep: "filter (\<lambda>c. c \<noteq> CHR ''-'') (take i (drop j h)) = take i (drop j h)" for i j
    using assms(2) by (intro filter_True) (auto dest: in_set_takeD in_set_dropD)
  have "take 8 h @ take 4 (drop 8 h) @ take 4 (drop 12 h) @ take 4 (drop 16 h) @ drop 20 h = h"
    using append_take_drop_id [of 8 h] append_take_drop_id [of 4 "drop 8 h"] append_take_drop_id [of 4 "drop 12 h"]
      append_take_drop_id [of 4 "drop 16 h"] by simp
  with keep [of 8 0] keep [of 4 8] keep [of 4 12] keep [of 4 16] keep [of 12 20] assms(1) show ?thesis by simp
qed

lemma uuid_round_trip:
  assumes "u < 2 ^ 128"
  shows "uuid_of_hex (str_uuid u) = Inr u"
proof -
  let ?h = "hex_digits 32 u"
  have dash: "hex_value (CHR ''-'') = None" "hex_value (CHR ''u'') = None" "hex_value (CHR ''{'') = None" "hex_value (CHR ''}'') = None"
    by (simp_all add: hex_value_def)
  have sub: "set (str_uuid u) \<subseteq> insert (CHR ''-'') (set ?h)"
    by (auto simp: str_uuid_def Let_def dest: in_set_takeD in_set_dropD)
  then have "CHR ''u'' \<notin> set (str_uuid u)" using hex_digits_not [OF dash(2)] by auto
  then have "remove_all ''uuid:'' (remove_all ''urn:'' (str_uuid u)) = str_uuid u"
    by (simp add: remove_all_absent)
  moreover have "strip_braces (str_uuid u) = str_uuid u"
    unfolding strip_braces_def Let_def
    using sub hex_digits_not [OF dash(3)] hex_digits_not [OF dash(4)]
    by (intro strip_none) (auto simp: list_all_iff)
  moreover have "filter (\<lambda>c. c \<noteq> CHR ''-'') (str_uuid u) = ?h"
    using filter_dashes [of ?h] hex_digits_not [OF dash(1)] by (simp add: str_uuid_def Let_def)
  moreover have "int_of_text 16 ?h = Inr (int u)"
    using int_of_hex_text [OF hex_digits_hex _ scan_base_digits [of u 32]] assms length_hex_digits [of 32 u] by fastforce
  ultimately show ?thesis using assms by (simp add: uuid_of_hex_def)
qed

section \<open>The texts are injective\<close>

lemma str_nat_inj: "str_nat m = str_nat n \<Longrightarrow> m = n"
  by (metis str_nat_digits)

lemma str_nat_no_minus: "CHR ''-'' \<notin> set (str_nat n)"
  using str_nat_digits [of n] by (auto simp: list_all_iff ascii_digit_def)

lemma str_nat_ne [simp]: "str_nat n \<noteq> []" "[] \<noteq> str_nat n"
  using str_nat_leading [of n] by auto

lemma str_uuid_inj: "str_uuid m = str_uuid n \<Longrightarrow> m < 2 ^ 128 \<Longrightarrow> n < 2 ^ 128 \<Longrightarrow> m = n"
  by (metis uuid_round_trip Inr_inject)

end
