(* ===== verification/Tick_Correct.thy ===== *)
theory Tick_Correct
  imports Scheduler_Facts Number_Text
begin

text \<open>
  The tick as a whole: it is one run of the phases' transactions, it never takes a campaign above
  its concurrency cap, and each dispatch carries a fresh idempotency key.
\<close>

section \<open>The phases of one tick\<close>

text \<open>The databases a tick goes through; every path ends in the last one reached.\<close>

lemma dispatch_one_cases:
  obtains (raised) e where "dispatch_claim (te_locked env) (te_claim_now env) c d = Inl e"
      and "dispatch_one env c d = (Inl e, d)"
  | (drained) d1 where "dispatch_claim (te_locked env) (te_claim_now env) c d = Inr (None, d1)"
      and "dispatch_one env c d = (Inr None, d1)"
  | (failed) cl d1 e where "dispatch_claim (te_locked env) (te_claim_now env) c d = Inr (Some cl, d1)"
      and "dispatch_one env c d = (Inl e, d1)"
  | (dispatched) cl d1 d2 where
      "dispatch_claim (te_locked env) (te_claim_now env) c d = Inr (Some cl, d1)"
      and "dispatch_apply (te_float_of_str env) (te_settings env) (te_apply_now env)
             (te_apply_utc env) (te_jitter env) (te_cursor_utc env) c cl
             (te_place_call env (idem_key cl) (cl_phone cl)) d1 = Inr d2"
      and "dispatch_one env c d = (Inr (Some (cp_id c)), d2)"
proof (cases "dispatch_claim (te_locked env) (te_claim_now env) c d")
  case (Inl e)
  then show thesis by (intro raised) (auto simp: dispatch_one_def)
next
  case (Inr p)
  obtain cl d1 where p: "p = (cl, d1)" by (cases p)
  show thesis
  proof (cases cl)
    case None
    with Inr p show thesis by (intro drained) (auto simp: dispatch_one_def)
  next
    case (Some x)
    let ?r = "dispatch_apply (te_float_of_str env) (te_settings env) (te_apply_now env)
             (te_apply_utc env) (te_jitter env) (te_cursor_utc env) c x
             (te_place_call env (idem_key x) (cl_phone x)) d1"
    show thesis
    proof (cases ?r)
      case (Inl e)
      with Inr p Some show thesis by (intro failed) (auto simp: dispatch_one_def)
    next
      case (Inr d2)
      with \<open>dispatch_claim _ _ c d = Inr p\<close> p Some show thesis
        by (intro dispatched) (auto simp: dispatch_one_def)
    qed
  qed
qed

lemma tick_cases:
  obtains (raised) e d1 where
      "tick_select (te_zones env) (te_now_utc env) (te_read_now env) d = (Inl e, d1)"
      and "tick env d = (Inl e, d1)"
  | (idle) d1 where "tick_select (te_zones env) (te_now_utc env) (te_read_now env) d = (Inr NoWork, d1)"
      and "tick env d = (Inr \<lparr>td_campaign_id = None, td_is_retry = False\<rparr>, d1)"
  | (blocked) c d1 e where
      "tick_select (te_zones env) (te_now_utc env) (te_read_now env) d = (Inr (Picked c True), d1)"
      and "requeue_oldest_retry_due (te_locked env) (te_requeue_now env) (cp_id c) d1 = Inl e"
      and "tick env d = (Inl e, d1)"
  | (picked) c is_retry d1 d2 where
      "tick_select (te_zones env) (te_now_utc env) (te_read_now env) d = (Inr (Picked c is_retry), d1)"
      and "(if is_retry then requeue_oldest_retry_due (te_locked env) (te_requeue_now env) (cp_id c) d1
            else Inr d1) = Inr d2"
      and "snd (tick env d) = snd (dispatch_one env c d2)"
      and "fst (tick env d) =
        bind_res (fst (dispatch_one env c d2))
          (\<lambda>i. Inr \<lparr>td_campaign_id = i, td_is_retry = is_retry\<rparr>)"
proof -
  obtain r d1 where sel: "tick_select (te_zones env) (te_now_utc env) (te_read_now env) d = (r, d1)"
    by fastforce
  show thesis
  proof (cases r)
    case (Inl e)
    with sel show thesis by (intro raised) (auto simp: tick_def)
  next
    case (Inr s)
    show thesis
    proof (cases s)
      case NoWork
      with sel Inr show thesis by (intro idle) (auto simp: tick_def)
    next
      case (Picked c is_retry)
      let ?q = "if is_retry then requeue_oldest_retry_due (te_locked env) (te_requeue_now env) (cp_id c) d1
            else Inr d1"
      show thesis
      proof (cases ?q)
        case (Inl e)
        then have retry: "is_retry" by (auto split: if_splits)
        from sel Inr Picked Inl show thesis
          by (intro blocked [of c d1 e]) (auto simp: tick_def retry split: if_splits)
      next
        case (Inr d2)
        obtain x d3 where one: "dispatch_one env c d2 = (x, d3)" by fastforce
        have run: "tick env d = (case (x, d3) of (Inl e, d3) \<Rightarrow> (Inl e, d3)
            | (Inr i, d3) \<Rightarrow> (Inr \<lparr>td_campaign_id = i, td_is_retry = is_retry\<rparr>, d3))"
          using sel \<open>r = Inr s\<close> Picked Inr one by (simp add: tick_def)
        from sel \<open>r = Inr s\<close> Picked Inr run one show thesis
          by (intro picked [of c is_retry d1 d2]) (auto split: sum.splits)
      qed
    qed
  qed
qed

lemma dispatch_one_inv:
  assumes "db_inv d" and "snapshot_ok c d"
  shows "db_inv (snd (dispatch_one env c d)) \<and> evolves d (snd (dispatch_one env c d))"
proof (cases rule: dispatch_one_cases [where env = env and c = c and d = d])
  case raised
  with assms show ?thesis by simp
next
  case (drained d1)
  with dispatch_claim_inv [OF drained(1) assms] show ?thesis by simp
next
  case (failed cl d1 e)
  with dispatch_claim_inv [OF failed(1) assms] show ?thesis by simp
next
  case (dispatched cl d1 d2)
  have "db_inv d1" "evolves d d1" using dispatch_claim_inv [OF dispatched(1) assms] by simp_all
  with dispatch_apply_inv [OF dispatched(2)] dispatched(3) show ?thesis by (auto intro: evolves_trans)
qed

lemma tick_inv:
  assumes inv: "db_inv d"
  shows "db_inv (snd (tick env d)) \<and> evolves d (snd (tick env d))"
proof (cases rule: tick_cases [where env = env and d = d])
  case (raised e d1)
  with tick_select_inv [OF inv] show ?thesis by (metis snd_conv)
next
  case (idle d1)
  with tick_select_inv [OF inv] show ?thesis by (metis snd_conv)
next
  case (blocked c d1 e)
  with tick_select_inv [OF inv] show ?thesis by (metis snd_conv)
next
  case (picked c is_retry d1 d2)
  from selected_campaign [OF picked(1) inv] have snap: "snapshot_ok c d" by blast
  have 1: "db_inv d1" "evolves d d1" using tick_select_inv [OF inv] picked(1) by (metis snd_conv)+
  have 2: "db_inv d2 \<and> evolves d1 d2"
    using picked(2) 1(1) by (auto split: if_splits dest: requeue_inv)
  have "evolves d d2" using 1(2) 2 evolves_trans by blast
  then have "snapshot_ok c d2" using snap 2 snapshot_ok_evolves by blast
  from dispatch_one_inv [OF _ this, of env] 2 \<open>evolves d d2\<close> show ?thesis
    unfolding picked(3) by (blast intro: evolves_trans)
qed

interpretation whole_tick: db_transaction "\<lambda>_ _. True" "\<lambda>env d d'. d' = snd (tick env d)"
  by unfold_locales (use tick_inv in blast)+

section \<open>The concurrency cap\<close>

lemma in_flight_cong: "db_calls d' = db_calls d \<Longrightarrow> in_flight_count d' i = in_flight_count d i"
  by (simp add: in_flight_count_def count_status_def)

lemma transition_in_flight_le:
  assumes run: "transition now j e n ep ne et reason extra cols d = Inr (res, d')"
    and keys: "keys_ok d"
    and "n \<in> {DIALING, IN_PROGRESS} \<longrightarrow> e \<in> {DIALING, IN_PROGRESS}"
  shows "in_flight_count d' i \<le> in_flight_count d i"
  using run keys
proof (cases rule: transition_outcome)
  case (applied r)
  let ?r = "transition_row now n ne cols r"
  have "in_flight_count (put_row ?r d) i \<le> in_flight_count d i"
    using applied(1,3) assms(3) keys by (intro in_flight_put_row_le [of d r]) (auto simp: keys_ok_def)
  then show ?thesis unfolding applied(8) by (simp add: in_flight_cong [of "move_call _ _ _ _" "put_row ?r d"])
qed simp_all

lemma requeue_in_flight:
  assumes "requeue_oldest_retry_due locked now cid d = Inr d'" and "keys_ok d"
  shows "in_flight_count d' i \<le> in_flight_count d i"
  using assms(1)
proof (cases rule: requeue_cases)
  case (requeued row res)
  from transition_in_flight_le [OF requeued(5) assms(2)] show ?thesis by simp
qed simp

lemma dispatch_claim_in_flight:
  assumes run: "dispatch_claim locked now campaign d = Inr (cl, d')" and inv: "db_inv d"
  shows "in_flight_count d' i \<le> in_flight_count d i + (if i = cp_id campaign then 1 else 0)"
  using inv
proof (cases rule: dispatch_claim_cases [where locked = locked and now = now and campaign = campaign])
  case none
  with run show ?thesis by simp
next
  case (claimed r ev)
  note c = claim_candidate_Some [OF claimed(1)]
  let ?r = "claim_row now r"
  have "db_calls d' = db_calls (put_row ?r d)" using run claimed(4) by auto
  then have "in_flight_count d' i = in_flight_count (put_row ?r d) i" by (rule in_flight_cong)
  also have "\<dots> \<le> in_flight_count d i + (if i = cp_id campaign then 1 else 0)"
    using put_row_count [OF db_invD(1) [OF inv] c(1), of ?r "\<lambda>s. s \<in> {DIALING, IN_PROGRESS}" i] c(2,3)
    unfolding in_flight_count_def by (auto split: if_splits)
  finally show ?thesis .
qed

lemma apply_outcome_in_flight:
  assumes "apply_outcome now py u base claimed outcome d = Inr (res, d')" and "keys_ok d"
  shows "in_flight_count d' i \<le> in_flight_count d i"
  using assms(1)
  by (auto simp: apply_outcome_def bind_res_Inr_iff split: place_outcome.splits if_splits
      dest!: transition_in_flight_le [OF _ assms(2), where i = i])

lemma update_cursor_calls:
  "update_last_dispatch_at cid ts d = Inr d' \<Longrightarrow> db_calls d' = db_calls d"
  by (auto simp: update_last_dispatch_at_def split: if_splits)

lemma dispatch_one_in_flight:
  assumes inv: "db_inv d" and snap: "snapshot_ok c d"
  shows "in_flight_count (snd (dispatch_one env c d)) i \<le>
         in_flight_count d i + (if i = cp_id c then 1 else 0)"
proof (cases rule: dispatch_one_cases [where env = env and c = c and d = d])
  case raised
  then show ?thesis by simp
next
  case (drained d1)
  with dispatch_claim_in_flight [OF drained(1) inv] show ?thesis by simp
next
  case (failed cl d1 e)
  with dispatch_claim_in_flight [OF failed(1) inv] show ?thesis by simp
next
  case (dispatched cl d1 d2)
  have "keys_ok d1" using dispatch_claim_inv [OF dispatched(1) inv snap] by (simp add: db_inv_def)
  from dispatched(2) have "in_flight_count d2 i \<le> in_flight_count d1 i"
  proof (cases rule: dispatch_apply_cases)
    case (1 base res d3)
    from apply_outcome_in_flight [OF 1(2) \<open>keys_ok d1\<close>] in_flight_cong [OF update_cursor_calls [OF 1(3)]]
    show ?thesis by simp
  qed
  with dispatch_claim_in_flight [OF dispatched(1) inv, of i] dispatched(3) show ?thesis by simp
qed

lemma tick_in_flight:
  assumes inv: "db_inv d" and x: "x \<in> set (db_campaigns d)"
  shows "in_flight_count (snd (tick env d)) (cp_id x) \<le> max (in_flight_count d (cp_id x)) (cp_max_concurrent x)"
proof -
  have quiet: "in_flight_count d1 i = in_flight_count d i"
    if "tick_select (te_zones env) (te_now_utc env) (te_read_now env) d = (r, d1)" for r d1 i
    using tick_select_quiet [of d "te_zones env" "te_now_utc env" "te_read_now env"] that
    by (intro in_flight_cong) (simp add: only_quiet_rows_added_def)
  show ?thesis
  proof (cases rule: tick_cases [where env = env and d = d])
    case (picked c is_retry d1 d2)
    obtain y where y: "y \<in> set (db_campaigns d)" "c = with_cursor d y" "snapshot_ok c d"
        "in_flight_count d (cp_id y) < cp_max_concurrent y"
      using selected_campaign [OF picked(1) inv] by blast
    have 1: "db_inv d1" "evolves d d1" using tick_select_inv [OF inv] picked(1) by (metis snd_conv)+
    have 2: "db_inv d2" "evolves d1 d2" "in_flight_count d2 i \<le> in_flight_count d1 i" for i
      using picked(2) 1(1) by (auto split: if_splits dest: requeue_inv requeue_in_flight db_invD)
    have "snapshot_ok c d2" using y(3) 1 2 snapshot_ok_evolves evolves_trans by blast
    from dispatch_one_in_flight [OF 2(1) this, of env "cp_id x"] 2(3) [of "cp_id x"] quiet [OF picked(1), of "cp_id x"]
    have "in_flight_count (snd (tick env d)) (cp_id x) \<le>
        in_flight_count d (cp_id x) + (if cp_id x = cp_id c then 1 else 0)"
      unfolding picked(3) by linarith
    moreover have "x = y" if "cp_id x = cp_id c"
      using that y(1,2) x by (intro campaign_key_eq [OF db_invD(2) [OF inv]]) auto
    ultimately show ?thesis using y(4) by (cases "cp_id x = cp_id c") auto
  qed (use quiet in \<open>auto simp: le_max_iff_disj\<close>)
qed

section \<open>Idempotency keys\<close>

lemma str_uuid_parts:
  "length (str_uuid u) = 36"
  by (simp add: str_uuid_def Let_def)

lemma str_int_inj: "str_int i = str_int j \<Longrightarrow> i = j"
proof -
  assume eq: "str_int i = str_int j"
  have minus: "str_int k \<noteq> CHR ''-'' # s" if "0 \<le> k" for k s
    using str_nat_no_minus [of "nat k"] that by (auto simp: str_int_def)
  show "i = j"
  proof (cases "i < 0"; cases "j < 0")
    assume "i < 0" "j < 0"
    with eq show ?thesis by (auto simp: str_int_def dest: str_nat_inj)
  next
    assume "\<not> i < 0" "\<not> j < 0"
    with eq show ?thesis by (auto simp: str_int_def dest!: str_nat_inj)
  next
    assume "i < 0" "\<not> j < 0"
    with eq [symmetric] minus [of j] show ?thesis by (auto simp: str_int_def)
  next
    assume "\<not> i < 0" "j < 0"
    with eq minus [of i] show ?thesis by (auto simp: str_int_def)
  qed
qed

lemma idem_key_inj:
  assumes "idem_key a = idem_key b" and "cl_id a < 2 ^ 128" and "cl_id b < 2 ^ 128"
  shows "cl_id a = cl_id b \<and> cl_attempt_epoch a = cl_attempt_epoch b"
proof -
  have "str_uuid (cl_id a) = str_uuid (cl_id b) \<and>
      '':'' @ str_int (cl_attempt_epoch a) = '':'' @ str_int (cl_attempt_epoch b)"
    using assms(1) unfolding idem_key_def by (subst (asm) append_eq_append_conv) (simp_all add: str_uuid_parts)
  with assms show ?thesis by (auto dest: str_uuid_inj str_int_inj)
qed

end
