(* ===== verification/Reclaim.thy ===== *)
theory Reclaim
  imports Transition_Contract
begin

text \<open>
  The stuck-call sweep (\<^verbatim>\<open>app/scheduler/reclaim.py\<close>): rows in \<open>DIALING\<close> for longer than the
  grace window are confirmed with the provider and either closed with the status it reports or
  requeued at a higher epoch. The sweep's read and each row's transaction are separate
  definitions; \<open>stuck_reclaim_sweep\<close> runs the rows in order.
\<close>

datatype reclaim_kind =
    TERMINAL_APPLIED
  | EXECUTED
  | SKIPPED_NO_OP
  | RECLAIM_FAILED

record reclaim_outcome =
  ro_call_id :: uuid
  ro_kind :: reclaim_kind
  ro_detail :: "string option"

text \<open>
  The ways \<open>wait_for(provider.get_status(...), timeout)\<close> ends. \<open>StatusRaised\<close> stands for any
  \<open>Exception\<close>; both it and the timeout read as unknown.
\<close>

datatype status_report =
    Reported call_status
  | StatusTimeout
  | StatusRaised py_error

definition best_effort_get_status :: "(string \<Rightarrow> status_report) \<Rightarrow> string \<Rightarrow> call_status option" where
  "best_effort_get_status get_status provider_call_id =
     (case get_status provider_call_id of
        Reported s \<Rightarrow> Some s
      | StatusTimeout \<Rightarrow> None
      | StatusRaised e \<Rightarrow> None)"

definition apply_terminal ::
  "timestamp \<Rightarrow> call_row \<Rightarrow> call_status \<Rightarrow> db \<Rightarrow> (reclaim_outcome \<times> db) result" where
  "apply_terminal now row terminal_status d =
     bind_res
       (transition now (cl_id row) DIALING terminal_status (cl_attempt_epoch row) None
          RECLAIM_SKIPPED_TERMINAL (''provider confirmed '' @ call_status_value terminal_status)
          [(''provider_call_id'', json_opt_str (cl_provider_call_id row))] [] d)
       (\<lambda>(res, d').
          Inr (\<lparr>ro_call_id = cl_id row,
                ro_kind = (if is_no_op res then SKIPPED_NO_OP else TERMINAL_APPLIED),
                ro_detail = Some (call_status_value terminal_status)\<rparr>, d'))"

definition apply_reclaim :: "timestamp \<Rightarrow> call_row \<Rightarrow> db \<Rightarrow> (reclaim_outcome \<times> db) result" where
  "apply_reclaim now row d =
     bind_res
       (transition now (cl_id row) DIALING QUEUED (cl_attempt_epoch row)
          (Some (cl_attempt_epoch row + 1)) RECLAIM_EXECUTED
          ''DIALING exceeded grace window; bumping epoch''
          [(''previous_epoch'', JInt (cl_attempt_epoch row)),
           (''provider_call_id'', json_opt_str (cl_provider_call_id row))]
          [(''provider_call_id'', ColNull)] d)
       (\<lambda>(res, d').
          Inr (\<lparr>ro_call_id = cl_id row,
                ro_kind = (if is_no_op res then SKIPPED_NO_OP else EXECUTED),
                ro_detail = None\<rparr>, d'))"

definition confirmed_terminal :: "(string \<Rightarrow> status_report) \<Rightarrow> call_row \<Rightarrow> call_status option" where
  "confirmed_terminal get_status row =
     (case cl_provider_call_id row of
        None \<Rightarrow> None
      | Some p \<Rightarrow>
          (case best_effort_get_status get_status p of
             None \<Rightarrow> None
           | Some reported \<Rightarrow>
               if reported \<in> set TERMINAL_CALL_STATUSES then Some reported else None))"

definition reclaim_one_inner ::
  "(string \<Rightarrow> status_report) \<Rightarrow> timestamp \<Rightarrow> call_row \<Rightarrow> db \<Rightarrow> (reclaim_outcome \<times> db) result" where
  "reclaim_one_inner get_status now row d =
     (case confirmed_terminal get_status row of
        Some terminal_status \<Rightarrow> apply_terminal now row terminal_status d
      | None \<Rightarrow> apply_reclaim now row d)"

text \<open>\<open>f"{type(exc).__name__}: {exc}"\<close>; \<open>describe\<close> renders an exception.\<close>

definition reclaim_one ::
  "(py_error \<Rightarrow> string) \<Rightarrow> (string \<Rightarrow> status_report) \<Rightarrow> timestamp \<Rightarrow> call_row \<Rightarrow> db \<Rightarrow>
   reclaim_outcome \<times> db" where
  "reclaim_one describe get_status now row d =
     (case reclaim_one_inner get_status now row d of
        Inl e \<Rightarrow> (\<lparr>ro_call_id = cl_id row, ro_kind = RECLAIM_FAILED, ro_detail = Some (describe e)\<rparr>, d)
      | Inr r \<Rightarrow> r)"

fun reclaim_rows ::
  "(py_error \<Rightarrow> string) \<Rightarrow> (string \<Rightarrow> status_report) \<Rightarrow> (uuid \<Rightarrow> timestamp) \<Rightarrow> call_row list \<Rightarrow> db \<Rightarrow>
   reclaim_outcome list \<times> db" where
  "reclaim_rows describe get_status clock [] d = ([], d)"
| "reclaim_rows describe get_status clock (row # rows) d =
     (let (o', d1) = reclaim_one describe get_status (clock (cl_id row)) row d;
          (os, d2) = reclaim_rows describe get_status clock rows d1
      in (o' # os, d2))"

text \<open>The outcomes, whether the scheduler was notified, and the database.\<close>

definition stuck_reclaim_sweep ::
  "(py_error \<Rightarrow> string) \<Rightarrow> (string \<Rightarrow> status_report) \<Rightarrow> settings \<Rightarrow> timestamp \<Rightarrow> (uuid \<Rightarrow> timestamp) \<Rightarrow>
   db \<Rightarrow> reclaim_outcome list \<times> bool \<times> db" where
  "stuck_reclaim_sweep describe get_status stg now clock d =
     (let rows = find_stuck_dialing now (stuck_reclaim_seconds stg) d in
        if rows = [] then ([], False, d)
        else
          let (outcomes, d') = reclaim_rows describe get_status clock rows d
          in (outcomes, \<exists>o' \<in> set outcomes. ro_kind o' \<in> {EXECUTED, TERMINAL_APPLIED}, d'))"

text \<open>The daemon, one round per sweep: the status answers, \<open>NOW()\<close> and the clocks of the row tasks.\<close>

definition stuck_reclaim_sweep_loop ::
  "(py_error \<Rightarrow> string) \<Rightarrow> settings \<Rightarrow>
   ((string \<Rightarrow> status_report) \<times> timestamp \<times> (uuid \<Rightarrow> timestamp)) list \<Rightarrow> db \<Rightarrow> db" where
  "stuck_reclaim_sweep_loop describe stg rounds d =
     fold (\<lambda>(gs, now, clock) d. snd (snd (stuck_reclaim_sweep describe gs stg now clock d))) rounds d"

end
