(* ===== verification/Reclaim_Facts.thy ===== *)
theory Reclaim_Facts
  imports Reclaim
begin

text \<open>
  The stuck-call sweep against the invariant: each row's transaction keeps it, one that raises
  changes nothing, and the outcome reported says what happened to the row.
\<close>

lemma find_stuck_dialing_mem:
  "r \<in> set (find_stuck_dialing now k d) \<longleftrightarrow>
   r \<in> set (db_calls d) \<and> cl_status r = DIALING \<and> cl_updated_at r < now - k * 1000000"
  by (auto simp: find_stuck_dialing_def)

lemma confirmed_terminal_terminal: "confirmed_terminal gs row = Some s \<Longrightarrow> terminal s"
  by (auto simp: confirmed_terminal_def split: option.splits if_splits)

lemma reclaim_one_inner_cases:
  assumes "reclaim_one_inner gs now row d = Inr (ro, d')"
  obtains (confirmed) s res where "confirmed_terminal gs row = Some s" and "terminal s"
      and "transition now (cl_id row) DIALING s (cl_attempt_epoch row) None
             RECLAIM_SKIPPED_TERMINAL (''provider confirmed '' @ call_status_value s)
             [(''provider_call_id'', json_opt_str (cl_provider_call_id row))] [] d = Inr (res, d')"
      and "ro = \<lparr>ro_call_id = cl_id row,
                 ro_kind = (if is_no_op res then SKIPPED_NO_OP else TERMINAL_APPLIED),
                 ro_detail = Some (call_status_value s)\<rparr>"
  | (unknown) res where "confirmed_terminal gs row = None"
      and "transition now (cl_id row) DIALING QUEUED (cl_attempt_epoch row)
             (Some (cl_attempt_epoch row + 1)) RECLAIM_EXECUTED
             ''DIALING exceeded grace window; bumping epoch''
             [(''previous_epoch'', JInt (cl_attempt_epoch row)),
              (''provider_call_id'', json_opt_str (cl_provider_call_id row))]
             [(''provider_call_id'', ColNull)] d = Inr (res, d')"
      and "ro = \<lparr>ro_call_id = cl_id row,
                 ro_kind = (if is_no_op res then SKIPPED_NO_OP else EXECUTED), ro_detail = None\<rparr>"
proof (cases "confirmed_terminal gs row")
  case None
  with assms unknown show thesis by (auto simp: reclaim_one_inner_def apply_reclaim_def bind_res_Inr_iff)
next
  case (Some s)
  with assms confirmed confirmed_terminal_terminal [OF Some] show thesis
    by (auto simp: reclaim_one_inner_def apply_terminal_def bind_res_Inr_iff)
qed

lemma reclaim_one_inner_inv:
  assumes "reclaim_one_inner gs now row d = Inr (ro, d')" and "db_inv d"
  shows "db_inv d' \<and> evolves d d'"
  using assms(1)
  by (cases rule: reclaim_one_inner_cases) (auto dest!: transition_inv [OF _ assms(2)])

interpretation reclaim_row: db_transaction "\<lambda>_ _. True"
  "\<lambda>a d d'. \<exists>ro. reclaim_one_inner (fst a) (fst (snd a)) (snd (snd a)) d = Inr (ro, d')"
  by unfold_locales (use reclaim_one_inner_inv in blast)+

lemma reclaim_one_cases:
  obtains (failed) e where "reclaim_one_inner gs now row d = Inl e"
      and "reclaim_one describe gs now row d =
        (\<lparr>ro_call_id = cl_id row, ro_kind = RECLAIM_FAILED, ro_detail = Some (describe e)\<rparr>, d)"
  | (ran) "reclaim_one_inner gs now row d = Inr (reclaim_one describe gs now row d)"
  by (cases "reclaim_one_inner gs now row d") (auto simp: reclaim_one_def)

lemma reclaim_one_inv:
  assumes "db_inv d"
  shows "db_inv (snd (reclaim_one describe gs now row d)) \<and> evolves d (snd (reclaim_one describe gs now row d))"
proof (cases rule: reclaim_one_cases [where gs = gs and now = now and row = row and d = d and describe = describe])
  case failed
  with assms show ?thesis by simp
next
  case ran
  with reclaim_one_inner_inv [of gs now row d] assms show ?thesis by (metis prod.collapse)
qed

lemma reclaim_rows_inv:
  assumes "db_inv d"
  shows "db_inv (snd (reclaim_rows describe gs clock rows d)) \<and>
         evolves d (snd (reclaim_rows describe gs clock rows d)) \<and>
         map ro_call_id (fst (reclaim_rows describe gs clock rows d)) = map cl_id rows"
  using assms
proof (induction rows arbitrary: d)
  case (Cons row rows)
  have id: "ro_call_id (fst (reclaim_one describe gs (clock (cl_id row)) row d)) = cl_id row"
  proof (cases rule: reclaim_one_cases [where gs = gs and now = "clock (cl_id row)" and row = row
        and d = d and describe = describe])
    case ran
    then show ?thesis
      by (cases "reclaim_one describe gs (clock (cl_id row)) row d") (auto elim!: reclaim_one_inner_cases)
  qed simp
  from reclaim_one_inv [OF Cons.prems, of describe gs "clock (cl_id row)" row] id Cons.IH show ?case
    by (auto simp: case_prod_unfold Let_def intro: evolves_trans)
qed simp

lemma stuck_reclaim_sweep_inv:
  assumes "db_inv d"
  shows "db_inv (snd (snd (stuck_reclaim_sweep describe gs stg now clock d))) \<and>
         evolves d (snd (snd (stuck_reclaim_sweep describe gs stg now clock d)))"
  using reclaim_rows_inv [OF assms] assms
  by (simp add: stuck_reclaim_sweep_def Let_def case_prod_unfold)

interpretation sweep: db_transaction "\<lambda>_ _. True"
  "\<lambda>a d d'. \<exists>describe gs now clock. d' = snd (snd (stuck_reclaim_sweep describe gs a now clock d))"
  by unfold_locales (use stuck_reclaim_sweep_inv in blast)+

lemma sweep_loop_inv:
  "db_inv d \<Longrightarrow> db_inv (stuck_reclaim_sweep_loop describe stg rounds d) \<and>
   evolves d (stuck_reclaim_sweep_loop describe stg rounds d)"
proof (induction rounds arbitrary: d)
  case (Cons r rounds)
  obtain gs now clock where r: "r = (gs, now, clock)" by (cases r)
  let ?d = "snd (snd (stuck_reclaim_sweep describe gs stg now clock d))"
  from Cons.prems have "db_inv ?d \<and> evolves d ?d"
    using sweep.keeps_inv [where a = stg] sweep.rows_evolve [where a = stg] by blast
  with Cons.IH [of ?d] r show ?case by (auto simp: stuck_reclaim_sweep_loop_def intro: evolves_trans)
qed (simp add: stuck_reclaim_sweep_loop_def)

interpretation sweep_loop: db_transaction "\<lambda>_ _. True"
  "\<lambda>a d d'. \<exists>describe rounds. d' = stuck_reclaim_sweep_loop describe a rounds d"
  by unfold_locales (use sweep_loop_inv in blast)+

text \<open>What the row looks like afterwards.\<close>

lemma transition_row_reclaimed:
  "transition_row now QUEUED (Some e) [(''provider_call_id'', ColNull)] r =
   r\<lparr>cl_status := QUEUED, cl_updated_at := now, cl_attempt_epoch := e, cl_provider_call_id := None\<rparr>"
  by (simp add: transition_row_def)

lemma transition_row_plain:
  "transition_row now s None [] r = r\<lparr>cl_status := s, cl_updated_at := now\<rparr>"
  by (simp add: transition_row_def)

lemma move_call_in_calls:
  assumes "r \<in> set (db_calls d)" and "cl_id r' = cl_id r"
  shows "r' \<in> set (db_calls (move_call now r' ev d))"
  using assms by (auto simp: in_put_row)

lemma reclaim_one_effect:
  assumes run: "reclaim_one_inner gs now row d = Inr (ro, d')" and inv: "db_inv d"
    and row: "row \<in> set (db_calls d)" and dialing: "cl_status row = DIALING"
  shows "case confirmed_terminal gs row of
      Some s \<Rightarrow> ro_kind ro = TERMINAL_APPLIED \<and>
        row\<lparr>cl_status := s, cl_updated_at := now\<rparr> \<in> set (db_calls d')
    | None \<Rightarrow> ro_kind ro = EXECUTED \<and>
        row\<lparr>cl_status := QUEUED, cl_updated_at := now, cl_attempt_epoch := cl_attempt_epoch row + 1,
            cl_provider_call_id := None\<rparr> \<in> set (db_calls d')"
proof -
  have eq: "r = row" if "r \<in> set (db_calls d)" "cl_id r = cl_id row" for r
    using that row by (intro call_key_eq [OF db_invD(1) [OF inv]])
  from run show ?thesis
  proof (cases rule: reclaim_one_inner_cases)
    case (confirmed s res)
    from confirmed(3) db_invD(4) [OF inv] show ?thesis
    proof (cases rule: transition_outcome)
      case (applied r)
      with eq have "r = row" by simp
      with confirmed applied move_call_in_calls [OF row, of "transition_row now s None [] row" now] show ?thesis
        by (simp add: is_no_op_def tr_applied_of_def transition_row_plain)
    qed (use row dialing in \<open>auto simp: terminal_iff\<close>)
  next
    case (unknown res)
    from unknown(2) db_invD(4) [OF inv] show ?thesis
    proof (cases rule: transition_outcome)
      case (applied r)
      with eq have "r = row" by simp
      with unknown applied
        move_call_in_calls [OF row, of "transition_row now QUEUED (Some (cl_attempt_epoch row + 1))
            [(''provider_call_id'', ColNull)] row" now]
      show ?thesis
        by (simp add: is_no_op_def tr_applied_of_def transition_row_reclaimed)
    qed (use row dialing in \<open>auto simp: terminal_iff\<close>)
  qed
qed

text \<open>A webhook or another sweep got there first: nothing happens.\<close>

lemma reclaim_one_stale:
  assumes run: "reclaim_one_inner gs now row d = Inr (ro, d')" and keys: "keys_ok d"
    and stale: "\<And>r. r \<in> set (db_calls d) \<Longrightarrow> cl_id r = cl_id row \<Longrightarrow>
                  cl_status r \<noteq> DIALING \<or> cl_attempt_epoch r \<noteq> cl_attempt_epoch row"
  shows "ro_kind ro = SKIPPED_NO_OP \<and> d' = d"
  using run
proof (cases rule: reclaim_one_inner_cases)
  case (confirmed s res)
  from confirmed(3) keys show ?thesis
    by (cases rule: transition_outcome)
      (use stale confirmed(4) in \<open>auto simp: is_no_op_def tr_no_op_def tr_terminal_regression_def\<close>)
next
  case (unknown res)
  from unknown(2) keys show ?thesis
    by (cases rule: transition_outcome)
      (use stale unknown(3) in \<open>auto simp: is_no_op_def tr_no_op_def tr_terminal_regression_def\<close>)
qed

end
