(* ===== verification/Campaign_Schema.thy ===== *)
theory Campaign_Schema
  imports Business_Hours
begin

text \<open>
  The request schema of \<^verbatim>\<open>app/api/schemas/campaigns.py\<close>: time zone canonicalisation, the
  ordering check on windows, the field bounds, and the normalisation of the phone list. The
  \<open>phonenumbers\<close> package and the zone database are parameters. The body arrives as pydantic
  parsed it: only the validators written in the source are modelled.
\<close>

section \<open>Time zones\<close>

definition DEPRECATED_TZ_ALIASES :: "(string \<times> string) list" where
  "DEPRECATED_TZ_ALIASES =
     [(''Asia/Calcutta'', ''Asia/Kolkata''),
      (''Asia/Saigon'', ''Asia/Ho_Chi_Minh''),
      (''Asia/Rangoon'', ''Asia/Yangon''),
      (''America/Buenos_Aires'', ''America/Argentina/Buenos_Aires''),
      (''America/Catamarca'', ''America/Argentina/Catamarca''),
      (''America/Cordoba'', ''America/Argentina/Cordoba''),
      (''America/Jujuy'', ''America/Argentina/Jujuy''),
      (''America/Mendoza'', ''America/Argentina/Mendoza''),
      (''America/Indianapolis'', ''America/Indiana/Indianapolis''),
      (''America/Louisville'', ''America/Kentucky/Louisville''),
      (''America/Virgin'', ''America/St_Thomas'')]"

definition canonical_tz :: "string \<Rightarrow> string" where
  "canonical_tz v = (case map_of DEPRECATED_TZ_ALIASES v of None \<Rightarrow> v | Some c \<Rightarrow> c)"

definition tz_valid :: "zone_db \<Rightarrow> string \<Rightarrow> string result" where
  "tz_valid zones v =
     (case zones (canonical_tz v) of
        None \<Rightarrow> Inl (ValueError (''unknown timezone: '' @ v))
      | Some _ \<Rightarrow> Inr (canonical_tz v))"

section \<open>Windows and retry configuration\<close>

text \<open>\<open>TimeWindow._start_before_end\<close>; comparing a naive with an aware time raises.\<close>

definition start_before_end :: "time_window \<Rightarrow> time_window result" where
  "start_before_end w =
     bind_res (time_less (tw_start w) (tw_end w)) (\<lambda>lt.
       if \<not> lt then Inl (ValueError ''TimeWindow.start must be strictly less than end'') else Inr w)"

lemma start_before_end_Inr:
  "start_before_end w = Inr w' \<longleftrightarrow> w' = w \<and> time_less (tw_start w) (tw_end w) = Inr True"
  by (auto simp: start_before_end_def bind_res_Inr_iff)

record retry_config =
  rc_max_attempts :: int
  rc_backoff_base_seconds :: int

definition retry_config_valid :: "retry_config \<Rightarrow> bool" where
  "retry_config_valid r \<longleftrightarrow>
     0 \<le> rc_max_attempts r \<and> rc_max_attempts r \<le> 10 \<and>
     1 \<le> rc_backoff_base_seconds r \<and> rc_backoff_base_seconds r \<le> 3600"

section \<open>Phones\<close>

text \<open>
  The functions of \<open>phonenumbers\<close> the validator calls: \<open>parse(s, None)\<close>, whose exception
  carries a message, \<open>is_valid_number\<close> and \<open>format_number(_, E164)\<close>.
\<close>

record 'p phone_lib =
  parse_phone :: "string \<Rightarrow> string + 'p"
  is_valid_number :: "'p \<Rightarrow> bool"
  format_e164 :: "'p \<Rightarrow> string"

record phone_error =
  ph_index :: nat
  ph_input :: string
  ph_reason :: string

datatype phones_error =
    InvalidPhones string "phone_error list"
  | ZeroValidPhones

text \<open>One entry: its canonical form, or why it is refused (duplicates apart).\<close>

definition canonical_phone :: "'p phone_lib \<Rightarrow> string \<Rightarrow> string + string" where
  "canonical_phone lib raw =
     (let stripped = str_strip raw in
        if take 1 stripped \<noteq> ''+'' then
          Inl ''missing country code; expected +cc... (e.g. +1... or +91...)''
        else case parse_phone lib stripped of
          Inl exc \<Rightarrow> Inl exc
        | Inr parsed \<Rightarrow>
            if \<not> is_valid_number lib parsed then Inl ''invalid'' else Inr (format_e164 lib parsed))"

definition duplicate_reason :: "nat \<Rightarrow> string \<Rightarrow> string" where
  "duplicate_reason first_seen e164 =
     ''duplicate of line '' @ str_nat (first_seen + 1) @ '' (same E.164: '' @ e164 @ '')''"

text \<open>The loop: errors and numbers found so far, and where each number was first seen.\<close>

fun phones_loop ::
  "'p phone_lib \<Rightarrow> nat \<Rightarrow> string list \<Rightarrow> phone_error list \<Rightarrow> string list \<Rightarrow> (string \<rightharpoonup> nat) \<Rightarrow>
   phone_error list \<times> string list" where
  "phones_loop lib idx [] errors normalized seen = (errors, normalized)"
| "phones_loop lib idx (raw # v) errors normalized seen =
     (case canonical_phone lib raw of
        Inl reason \<Rightarrow>
          phones_loop lib (Suc idx) v
            (errors @ [\<lparr>ph_index = idx, ph_input = raw, ph_reason = reason\<rparr>]) normalized seen
      | Inr e164 \<Rightarrow>
          (case seen e164 of
             Some first_seen \<Rightarrow>
               phones_loop lib (Suc idx) v
                 (errors @ [\<lparr>ph_index = idx, ph_input = raw,
                             ph_reason = duplicate_reason first_seen e164\<rparr>]) normalized seen
           | None \<Rightarrow>
               phones_loop lib (Suc idx) v errors (normalized @ [e164]) (seen(e164 \<mapsto> idx))))"

definition phones_summary :: "phone_error list \<Rightarrow> string" where
  "phones_summary errors =
     ''line '' @ str_nat (ph_index (hd errors) + 1) @ '': '' @ ph_reason (hd errors) @
     (if length errors > 1 then '' (+'' @ str_nat (length errors - 1) @ '' more)'' else '''')"

definition normalize_phones :: "'p phone_lib \<Rightarrow> string list \<Rightarrow> phones_error + string list" where
  "normalize_phones lib v =
     (let (errors, normalized) = phones_loop lib 0 v [] [] (\<lambda>_. None) in
        if errors \<noteq> [] then Inl (InvalidPhones (phones_summary errors) errors)
        else if normalized = [] then Inl ZeroValidPhones
        else Inr normalized)"

section \<open>The body of a create request\<close>

record campaign_create_body =
  cc_name :: string
  cc_timezone :: string
  cc_schedule :: "(string \<times> time_window list) list"
  cc_max_concurrent :: "int option"
  cc_retry_config :: retry_config
  cc_phones :: "string list"

datatype body_error =
    FieldBounds string
  | TimezoneError py_error
  | ScheduleError py_error
  | PhonesError phones_error

text \<open>
  The validated body: what the handler receives. The bounds on a field run before its validator;
  the first failing field is reported here, where pydantic collects them all.
\<close>

definition validate_body ::
  "zone_db \<Rightarrow> 'p phone_lib \<Rightarrow> campaign_create_body \<Rightarrow> body_error + campaign_create_body" where
  "validate_body zones lib b =
     (if \<not> (1 \<le> length (cc_name b) \<and> length (cc_name b) \<le> 200) then Inl (FieldBounds ''name'')
      else case tz_valid zones (cc_timezone b) of
        Inl e \<Rightarrow> Inl (TimezoneError e)
      | Inr tz \<Rightarrow>
      (if \<not> list_all (\<lambda>(k, ws). k \<in> set DAY_KEYS) (cc_schedule b) then Inl (FieldBounds ''schedule'')
       else case map_res (\<lambda>(k, ws). map_res start_before_end ws) (cc_schedule b) of
        Inl e \<Rightarrow> Inl (ScheduleError e)
      | Inr _ \<Rightarrow>
       (if (case cc_max_concurrent b of None \<Rightarrow> False | Some n \<Rightarrow> \<not> (1 \<le> n \<and> n \<le> 100))
        then Inl (FieldBounds ''max_concurrent'')
        else if \<not> retry_config_valid (cc_retry_config b) then Inl (FieldBounds ''retry_config'')
        else if \<not> (1 \<le> length (cc_phones b) \<and> length (cc_phones b) \<le> 10000)
        then Inl (FieldBounds ''phones'')
        else case normalize_phones lib (cc_phones b) of
          Inl e \<Rightarrow> Inl (PhonesError e)
        | Inr ps \<Rightarrow> Inr (b\<lparr>cc_timezone := tz, cc_phones := ps\<rparr>))))"

section \<open>What the phone loop computes\<close>

text \<open>The reference reading of the loop: a list is accepted when every entry has a canonical form
  and no two agree.\<close>

definition phones_acceptable :: "'p phone_lib \<Rightarrow> string list \<Rightarrow> string list \<Rightarrow> bool" where
  "phones_acceptable lib v out \<longleftrightarrow> map (canonical_phone lib) v = map Inr out \<and> distinct out"

lemma phones_loop_errors_grow:
  "length errors \<le> length (fst (phones_loop lib idx v errors normalized seen))"
proof (induction v arbitrary: idx errors normalized seen)
  case (Cons raw v)
  have grow: "length errors \<le> length (fst (phones_loop lib (Suc idx) v (errors @ [e]) n sn))" for e n sn
    using Cons.IH [of "errors @ [e]" "Suc idx" n sn] by simp
  show ?case by (auto simp: grow Cons.IH split: sum.split option.split)
qed simp

lemma phones_loop_clean:
  assumes "dom seen = set normalized" and "distinct normalized"
  shows "phones_loop lib idx v [] normalized seen = ([], out) \<longleftrightarrow>
    (\<exists>new. out = normalized @ new \<and> map (canonical_phone lib) v = map Inr new \<and> distinct out)"
  using assms
proof (induction v arbitrary: idx normalized seen)
  case Nil
  then show ?case by auto
next
  case (Cons raw v)
  have no_errors: "phones_loop lib i v [e] n s \<noteq> ([], out)" for i e n s
    using phones_loop_errors_grow [of "[e]" lib i v n s] by auto
  show ?case
  proof (cases "canonical_phone lib raw")
    case (Inl reason)
    then show ?thesis by (auto simp: Cons_eq_map_conv no_errors)
  next
    case (Inr e164)
    show ?thesis
    proof (cases "seen e164")
      case (Some i)
      then have "e164 \<in> set normalized" using Cons.prems(1) by auto
      with Some Inr show ?thesis by (auto simp: Cons_eq_map_conv no_errors)
    next
      case None
      then have "e164 \<notin> set normalized" using Cons.prems(1) by auto
      then have "dom (seen(e164 \<mapsto> idx)) = set (normalized @ [e164])" "distinct (normalized @ [e164])"
        using Cons.prems by auto
      from Cons.IH [OF this, of "Suc idx"] None Inr show ?thesis
        by (auto simp: Cons_eq_map_conv simp del: fun_upd_apply)
    qed
  qed
qed

lemma normalize_phones_acceptable:
  "normalize_phones lib v = Inr out \<longleftrightarrow> phones_acceptable lib v out \<and> out \<noteq> []"
proof -
  obtain errors normalized where loop: "phones_loop lib 0 v [] [] (\<lambda>_. None) = (errors, normalized)"
    by fastforce
  from phones_loop_clean [of "\<lambda>_. None" "[]" lib 0 v out] loop show ?thesis
    by (auto simp: normalize_phones_def phones_acceptable_def)
qed

lemma str_strip_no_space:
  "str_strip s = [] \<or> (\<not> py_space (hd (str_strip s)) \<and> \<not> py_space (last (str_strip s)))"
proof (cases "str_strip s = []")
  case False
  let ?t = "dropWhile py_space s"
  have ne: "dropWhile py_space (rev ?t) \<noteq> []" using False by (simp add: str_strip_def)
  have "last (str_strip s) = hd (dropWhile py_space (rev ?t))" by (simp add: str_strip_def last_rev)
  with hd_dropWhile [OF ne] have "\<not> py_space (last (str_strip s))" by simp
  moreover obtain zs where zs: "?t = str_strip s @ zs"
    by (metis rev_append rev_rev_ident str_strip_def takeWhile_dropWhile_id)
  then have "hd (str_strip s) = hd ?t" "?t \<noteq> []" using False by auto
  then have "\<not> py_space (hd (str_strip s))" using hd_dropWhile [of py_space s] by simp
  ultimately show ?thesis by simp
qed simp

lemma tz_valid_Inr: "tz_valid zones v = Inr tz \<longleftrightarrow> tz = canonical_tz v \<and> zones tz \<noteq> None"
  by (auto simp: tz_valid_def split: option.splits)

text \<open>No alias maps to another alias: canonicalising twice is canonicalising once.\<close>

lemma canonical_tz_idem: "canonical_tz (canonical_tz v) = canonical_tz v"
proof -
  have "list_all (\<lambda>(a, c). map_of DEPRECATED_TZ_ALIASES c = None) DEPRECATED_TZ_ALIASES" by code_simp
  then have "map_of DEPRECATED_TZ_ALIASES c = None" if "map_of DEPRECATED_TZ_ALIASES v = Some c" for c
    using map_of_SomeD [OF that] by (auto simp: list_all_iff)
  then show ?thesis by (simp add: canonical_tz_def split: option.splits)
qed

end
