(* ===== verification/Api.thy ===== *)
theory Api
  imports Campaign_Schema Transition_Contract Py_Datetime
begin

text \<open>
  The HTTP handlers that read or write the store: campaigns and calls
  (\<^verbatim>\<open>app/api/routers/campaigns.py\<close>, \<^verbatim>\<open>app/api/routers/calls.py\<close>), webhook ingestion
  (\<^verbatim>\<open>app/api/webhooks_ingest.py\<close>, \<^verbatim>\<open>app/api/routers/webhooks.py\<close>) and the debug shortcut
  (\<^verbatim>\<open>app/api/routers/debug.py\<close>). An \<open>Inl\<close> is the exception the handler raises; its transaction
  has rolled back.
\<close>

section \<open>External vocabulary\<close>

fun external_campaign_status :: "campaign_status \<Rightarrow> string" where
  "external_campaign_status PENDING = ''pending''"
| "external_campaign_status ACTIVE = ''in_progress''"
| "external_campaign_status CAMPAIGN_IS_COMPLETED = ''completed''"
| "external_campaign_status CAMPAIGN_IS_FAILED = ''failed''"

fun external_call_status :: "call_status \<Rightarrow> string" where
  "external_call_status QUEUED = ''in_progress''"
| "external_call_status DIALING = ''in_progress''"
| "external_call_status IN_PROGRESS = ''in_progress''"
| "external_call_status RETRY_PENDING = ''in_progress''"
| "external_call_status COMPLETED = ''completed''"
| "external_call_status FAILED = ''failed''"
| "external_call_status NO_ANSWER = ''failed''"
| "external_call_status BUSY = ''failed''"

section \<open>Campaigns\<close>

record campaign_response =
  cr_id :: uuid
  cr_name :: string
  cr_status :: string
  cr_timezone :: string
  cr_schedule :: "(string \<times> time_window list) list"
  cr_max_concurrent :: int
  cr_retry_config :: retry_config
  cr_created_at :: timestamp
  cr_updated_at :: timestamp

text \<open>
  What pydantic does with times and models, as parameters: how \<open>model_dump(mode="json")\<close> writes a
  time, and how \<open>TimeWindow(**w)\<close> and \<open>RetryConfig(**r)\<close> read JSON values back.
\<close>

record model_io =
  dump_time :: "py_time \<Rightarrow> string"
  load_window :: "json \<Rightarrow> time_window result"
  load_retry :: "json_dict \<Rightarrow> retry_config result"

definition dump_window :: "model_io \<Rightarrow> time_window \<Rightarrow> json" where
  "dump_window mio w =
     JObj [(''start'', JStr (dump_time mio (tw_start w))), (''end'', JStr (dump_time mio (tw_end w)))]"

definition dump_schedule :: "model_io \<Rightarrow> (string \<times> time_window list) list \<Rightarrow> json_dict" where
  "dump_schedule mio sched = map (\<lambda>(key, windows). (key, JList (map (dump_window mio) windows))) sched"

definition dump_retry :: "retry_config \<Rightarrow> json_dict" where
  "dump_retry r =
     [(''max_attempts'', JInt (rc_max_attempts r)),
      (''backoff_base_seconds'', JInt (rc_backoff_base_seconds r))]"

text \<open>\<open>[TimeWindow(**w) for w in (sched_raw.get(key) or [])]\<close>: a falsy value reads as no window.\<close>

definition load_day :: "model_io \<Rightarrow> json_dict \<Rightarrow> string \<Rightarrow> (string \<times> time_window list) result" where
  "load_day mio sched key =
     (case dict_get sched key JNull of
        JList ws \<Rightarrow> bind_res (map_res (load_window mio) ws) (\<lambda>tws. Inr (key, tws))
      | JNull \<Rightarrow> Inr (key, [])
      | JBool False \<Rightarrow> Inr (key, [])
      | JInt i \<Rightarrow> (if i = 0 then Inr (key, []) else Inl (TypeError ''not iterable''))
      | JFloat q \<Rightarrow> (if q = 0 then Inr (key, []) else Inl (TypeError ''not iterable''))
      | JStr s \<Rightarrow> (if s = [] then Inr (key, []) else Inl (TypeError ''argument after ** must be a mapping''))
      | JObj o' \<Rightarrow> (if o' = [] then Inr (key, []) else Inl (TypeError ''argument after ** must be a mapping''))
      | JBool True \<Rightarrow> Inl (TypeError ''not iterable''))"

definition row_to_response :: "model_io \<Rightarrow> campaign_row \<Rightarrow> campaign_response result" where
  "row_to_response mio row =
     bind_res (map_res (load_day mio (cp_schedule row)) DAY_KEYS) (\<lambda>schedule.
     bind_res (load_retry mio (cp_retry_config row)) (\<lambda>retry.
       Inr \<lparr>cr_id = cp_id row, cr_name = cp_name row,
            cr_status = external_campaign_status (cp_status row), cr_timezone = cp_timezone row,
            cr_schedule = schedule, cr_max_concurrent = cp_max_concurrent row,
            cr_retry_config = retry, cr_created_at = cp_created_at row,
            cr_updated_at = cp_updated_at row\<rparr>))"

definition body_max_concurrent :: "settings \<Rightarrow> campaign_create_body \<Rightarrow> int" where
  "body_max_concurrent stg body =
     (case cc_max_concurrent body of
        None \<Rightarrow> max_concurrent_default stg
      | Some n \<Rightarrow> if n = 0 then max_concurrent_default stg else n)"

text \<open>The transaction: the campaign, its calls, and the row read back.\<close>

definition create_campaign_txn ::
  "model_io \<Rightarrow> settings \<Rightarrow> uuid \<Rightarrow> uuid list \<Rightarrow> timestamp \<Rightarrow> campaign_create_body \<Rightarrow> db \<Rightarrow>
   (campaign_row option \<times> db) result" where
  "create_campaign_txn mio stg new_cid new_ids now body d =
     bind_res
       (campaign_create new_cid now (cc_name body) (cc_timezone body)
          (dump_schedule mio (cc_schedule body)) (body_max_concurrent stg body)
          (dump_retry (cc_retry_config body)) d) (\<lambda>(cid, d1).
     bind_res (create_batch new_ids now cid (cc_phones body) (rc_max_attempts (cc_retry_config body)) d1)
       (\<lambda>(ids, d2). Inr (campaign_get cid d2, d2)))"

text \<open>The handler: the answer, whether the scheduler was notified, and the database.\<close>

definition create_campaign ::
  "model_io \<Rightarrow> settings \<Rightarrow> uuid \<Rightarrow> uuid list \<Rightarrow> timestamp \<Rightarrow> campaign_create_body \<Rightarrow> db \<Rightarrow>
   campaign_response result \<times> bool \<times> db" where
  "create_campaign mio stg new_cid new_ids now body d =
     (case create_campaign_txn mio stg new_cid new_ids now body d of
        Inl e \<Rightarrow> (Inl e, False, d)
      | Inr (None, d') \<Rightarrow> (Inl (HTTPException 500 ''campaign disappeared after insert''), True, d')
      | Inr (Some row, d') \<Rightarrow> (row_to_response mio row, True, d'))"

definition get_campaign :: "model_io \<Rightarrow> uuid \<Rightarrow> db \<Rightarrow> campaign_response result" where
  "get_campaign mio cid d =
     (case campaign_get cid d of
        None \<Rightarrow> Inl (HTTPException 404 ''campaign not found'')
      | Some row \<Rightarrow> row_to_response mio row)"

text \<open>The invariant its documentation states, completed + failed + in_progress = total, is part of
  \<open>stats_partition_calls\<close>.\<close>

record campaign_stats_response =
  sr_total :: int
  sr_completed :: int
  sr_failed :: int
  sr_retries_attempted :: int
  sr_in_progress :: int

definition get_campaign_stats :: "uuid \<Rightarrow> db \<Rightarrow> campaign_stats_response result" where
  "get_campaign_stats cid d =
     (case campaign_get cid d of
        None \<Rightarrow> Inl (HTTPException 404 ''campaign not found'')
      | Some _ \<Rightarrow>
          let stats = campaign_stats d cid
          in Inr \<lparr>sr_total = st_total stats, sr_completed = st_completed stats, sr_failed = st_failed stats,
                  sr_retries_attempted = st_retries_attempted stats, sr_in_progress = st_in_progress stats\<rparr>)"

section \<open>Calls\<close>

record call_response =
  cs_id :: uuid
  cs_campaign_id :: uuid
  cs_phone :: string
  cs_status :: string

definition get_call :: "uuid \<Rightarrow> db \<Rightarrow> call_response result" where
  "get_call i d =
     (case call_get i d of
        None \<Rightarrow> Inl (HTTPException 404 ''call not found'')
      | Some row \<Rightarrow>
          Inr \<lparr>cs_id = cl_id row, cs_campaign_id = cl_campaign_id row, cs_phone = cl_phone row,
               cs_status = external_call_status (cl_status row)\<rparr>)"

section \<open>Webhook ingestion\<close>

text \<open>
  The insert and its transaction; after it the handler spawns \<open>process_pending_inbox\<close>, which the
  flag reports.
\<close>

definition handle_webhook_ingest ::
  "(json_dict \<Rightarrow> string \<Rightarrow> bool) \<Rightarrow> uuid \<Rightarrow> timestamp \<Rightarrow> string \<Rightarrow> json_dict \<Rightarrow> string \<Rightarrow> json_dict \<Rightarrow>
   db \<Rightarrow> (bool \<times> db) result" where
  "handle_webhook_ingest verify new_id now provider payload raw_body headers d =
     (if \<not> verify headers raw_body then Inl (HTTPException 401 ''bad signature'')
      else case dict_get payload ''provider_event_id'' JNull of
        JStr event_id \<Rightarrow>
          if event_id = [] then Inl (HTTPException 400 ''missing provider_event_id'')
          else bind_res (inbox_insert new_id now provider event_id payload headers d)
                 (\<lambda>(row_id, d'). Inr (True, d'))
      | _ \<Rightarrow> Inl (HTTPException 400 ''missing provider_event_id''))"

definition lower_headers :: "(string \<times> string) list \<Rightarrow> json_dict" where
  "lower_headers headers = fold (\<lambda>(k, v). dict_set (map ascii_lower k) (JStr v)) headers []"

text \<open>\<open>json.loads\<close> is a parameter; its \<open>Inl\<close> is the message of a \<open>JSONDecodeError\<close>.\<close>

definition receive_webhook ::
  "(string \<Rightarrow> string + json) \<Rightarrow> (json_dict \<Rightarrow> string \<Rightarrow> bool) \<Rightarrow> uuid \<Rightarrow> timestamp \<Rightarrow> string \<Rightarrow>
   (string \<times> string) list \<Rightarrow> db \<Rightarrow> (bool \<times> db) result" where
  "receive_webhook json_loads verify new_id now raw_body headers d =
     (case json_loads raw_body of
        Inl exc \<Rightarrow> Inl (HTTPException 400 (''invalid json: '' @ exc))
      | Inr (JObj payload) \<Rightarrow>
          handle_webhook_ingest verify new_id now ''mock'' payload raw_body
            (lower_headers headers) d
      | Inr _ \<Rightarrow> Inl (HTTPException 400 ''payload must be a JSON object''))"

section \<open>Debug\<close>

definition aged_event :: "int \<Rightarrow> call_row \<Rightarrow> audit_event" where
  "aged_event by_seconds row =
     (audit_event_of DEBUG_AGE_DIALING
        (''aged updated_at by '' @ str_int by_seconds @ ''s for reclaim demo''))
       \<lparr>ae_campaign_id := Some (cl_campaign_id row), ae_call_id := Some (cl_id row),
        ae_phone := Some (cl_phone row), ae_attempt_epoch := Some (cl_attempt_epoch row),
        ae_extra := [(''aged_by_seconds'', JInt by_seconds)]\<rparr>"

text \<open>\<open>Query(ge=1, le=86_400)\<close> answers 422 before the handler runs.\<close>

record age_dialing_response =
  ad_call_id :: uuid
  ad_aged_by_seconds :: int
  ad_new_updated_at :: string

definition age_dialing ::
  "settings \<Rightarrow> timestamp \<Rightarrow> uuid \<Rightarrow> int \<Rightarrow> db \<Rightarrow> (age_dialing_response \<times> db) result" where
  "age_dialing stg now call_id by_seconds d =
     (if \<not> (1 \<le> by_seconds \<and> by_seconds \<le> 86400) then Inl (HTTPException 422 ''by_seconds'')
      else if \<not> debug_endpoints_enabled stg then Inl (HTTPException 403 ''debug endpoints disabled'')
      else
        bind_res
          (update_call_where (\<lambda>r. cl_id r = call_id \<and> cl_status r = DIALING)
             (\<lambda>r. r\<lparr>cl_updated_at := now - by_seconds * 1000000\<rparr>) d)
          (\<lambda>(row, d1).
             case row of
               None \<Rightarrow> Inl (HTTPException 404 ''call not found or not in DIALING state'')
             | Some row \<Rightarrow>
                 Inr (\<lparr>ad_call_id = call_id, ad_aged_by_seconds = by_seconds,
                       ad_new_updated_at = datetime_isoformat (cl_updated_at row)\<rparr>,
                      emit_audit now (aged_event by_seconds row) d1)))"

end
