(* ===== verification/Webhook_Processor.thy ===== *)
theory Webhook_Processor
  imports Transition_Contract
begin

text \<open>
  The inbox drain (\<^verbatim>\<open>app/scheduler/webhook_processor.py\<close>). One row is one transaction in two
  parts: \<open>webhook_plan\<close> claims the inbox row and reads what the event is about, \<open>webhook_commit\<close>
  performs the transition and marks the row. Other transactions can commit between the two
  (READ COMMITTED); \<open>process_one_row\<close> runs them back to back.
\<close>

datatype row_outcome =
    RowApplied
  | RowStale
  | RowEmpty
  | RowError

datatype webhook_task =
    InboxEmpty
  | UnknownCall webhook_inbox_row provider_event
  | SameState webhook_inbox_row
  | TerminalEvent webhook_inbox_row provider_event call_row rat
  | IntermediateEvent webhook_inbox_row provider_event call_row

text \<open>\<open>WHERE provider_call_id = $1\<close> with a JSON value as its argument.\<close>

definition lookup_provider_call :: "json \<Rightarrow> db \<Rightarrow> call_row option result" where
  "lookup_provider_call v d =
     (case v of
        JStr p \<Rightarrow> Inr (get_by_provider_call_id p d)
      | JNull \<Rightarrow> Inr None
      | _ \<Rightarrow> Inl DataError)"

text \<open>
  \<open>isinstance(base_raw, int | float | str)\<close> holds of a bool too; anything else falls back to the
  settings, as a missing key does.
\<close>

definition webhook_base_seconds ::
  "(string \<Rightarrow> rat option) \<Rightarrow> settings \<Rightarrow> call_row \<Rightarrow> db \<Rightarrow> rat result" where
  "webhook_base_seconds float_of_str stg call d =
     (let retry_config = (case campaign_get (cl_campaign_id call) d of
                            None \<Rightarrow> [] | Some c \<Rightarrow> cp_retry_config c);
          dflt = JInt (retry_backoff_base_seconds stg);
          base_raw = dict_get retry_config ''backoff_base_seconds'' dflt
      in case base_raw of
           JNull \<Rightarrow> py_float float_of_str dflt
         | JList _ \<Rightarrow> py_float float_of_str dflt
         | JObj _ \<Rightarrow> py_float float_of_str dflt
         | v \<Rightarrow> py_float float_of_str v)"

definition webhook_plan ::
  "(json_dict \<Rightarrow> provider_event result) \<Rightarrow> (string \<Rightarrow> rat option) \<Rightarrow> settings \<Rightarrow>
   (uuid \<Rightarrow> bool) \<Rightarrow> db \<Rightarrow> webhook_task result" where
  "webhook_plan parse_event float_of_str stg locked d =
     (case claim_unprocessed_one locked d of
        None \<Rightarrow> Inr InboxEmpty
      | Some row \<Rightarrow>
          bind_res (parse_event (ib_payload row)) (\<lambda>event.
          bind_res (lookup_provider_call (pe_provider_call_id event) d) (\<lambda>call.
            case call of
              None \<Rightarrow> Inr (UnknownCall row event)
            | Some call \<Rightarrow>
                if pe_status_enum event = cl_status call then Inr (SameState row)
                else if pe_status_enum event \<in> set TERMINAL_CALL_STATUSES then
                  bind_res (webhook_base_seconds float_of_str stg call d) (\<lambda>base.
                    Inr (TerminalEvent row event call base))
                else Inr (IntermediateEvent row event call))))"

definition unknown_call_event :: "provider_event \<Rightarrow> audit_event" where
  "unknown_call_event event =
     (audit_event_of WEBHOOK_IGNORED_STALE ''unknown provider_call_id'')
       \<lparr>ae_extra := [(''provider_event_id'', pe_provider_event_id event),
                     (''provider_call_id'', pe_provider_call_id event)]\<rparr>"

text \<open>The arrow in the reason is U+2190, three bytes in UTF-8.\<close>

definition ignored_event :: "provider_event \<Rightarrow> call_row \<Rightarrow> transition_result \<Rightarrow> audit_event" where
  "ignored_event event call res =
     (let current = call_status_value (cl_status call);
          incoming = call_status_value (pe_status_enum event);
          arrow = [CHR 0xE2, CHR 0x86, CHR 0x90];
          (reason, extra) =
            (if is_terminal_regression res then
               (''terminal-wins: '' @ current @ '' '' @ arrow @ '' '' @ incoming,
                [(''current_status'', JStr current), (''event_status'', JStr incoming),
                 (''provider_event_id'', pe_provider_event_id event)])
             else
               (''CAS no-op: expected '' @ current @ ''/'' @ str_int (cl_attempt_epoch call),
                [(''expected_status'', JStr current),
                 (''expected_epoch'', JInt (cl_attempt_epoch call)),
                 (''event_status'', JStr incoming),
                 (''provider_event_id'', pe_provider_event_id event)]))
      in (audit_event_of WEBHOOK_IGNORED_STALE reason)
           \<lparr>ae_campaign_id := Some (cl_campaign_id call), ae_call_id := Some (cl_id call),
            ae_phone := Some (cl_phone call), ae_attempt_epoch := Some (cl_attempt_epoch call),
            ae_extra := extra\<rparr>)"

definition finish_event ::
  "timestamp \<Rightarrow> webhook_inbox_row \<Rightarrow> provider_event \<Rightarrow> call_row \<Rightarrow> transition_result \<times> db \<Rightarrow>
   row_outcome \<times> db" where
  "finish_event now row event call r =
     (case r of (res, d) \<Rightarrow>
        if is_no_op res
        then (RowStale, mark_processed now (ib_id row) (emit_audit now (ignored_event event call res) d))
        else (RowApplied, mark_processed now (ib_id row) d))"

definition webhook_commit ::
  "timestamp \<Rightarrow> timestamp \<Rightarrow> rat \<Rightarrow> webhook_task \<Rightarrow> db \<Rightarrow> (row_outcome \<times> db) result" where
  "webhook_commit now py_now u task d =
     (case task of
        InboxEmpty \<Rightarrow> Inr (RowEmpty, d)
      | UnknownCall row event \<Rightarrow>
          Inr (RowStale, mark_processed now (ib_id row) (emit_audit now (unknown_call_event event) d))
      | SameState row \<Rightarrow> Inr (RowStale, mark_processed now (ib_id row) d)
      | TerminalEvent row event call base \<Rightarrow>
          bind_res
            (apply_retryable_outcome now py_now u (cl_id call) (cl_status call)
               (cl_attempt_epoch call) (cl_retries_remaining call) (pe_status_enum event) base
               ''webhook'' d)
            (\<lambda>r. Inr (finish_event now row event call r))
      | IntermediateEvent row event call \<Rightarrow>
          bind_res
            (transition now (cl_id call) (cl_status call) (pe_status_enum event)
               (cl_attempt_epoch call) None TRANSITION
               (''webhook '' @ call_status_value (pe_status_enum event))
               [(''provider_event_id'', pe_provider_event_id event),
                (''provider_call_id'', pe_provider_call_id event)] [] d)
            (\<lambda>r. Inr (finish_event now row event call r)))"

record webhook_env =
  we_parse_event :: "json_dict \<Rightarrow> provider_event result"
  we_float_of_str :: "string \<Rightarrow> rat option"
  we_settings :: settings
  we_locked :: "uuid \<Rightarrow> bool"
  we_now :: "nat \<Rightarrow> timestamp"
  we_utc :: "nat \<Rightarrow> timestamp"
  we_jitter :: "nat \<Rightarrow> rat"

text \<open>\<open>k\<close> numbers the iterations of a drain: each reads its clocks and draws its jitter anew.\<close>

definition process_one_row :: "webhook_env \<Rightarrow> nat \<Rightarrow> db \<Rightarrow> row_outcome \<times> db" where
  "process_one_row env k d =
     (case bind_res
             (webhook_plan (we_parse_event env) (we_float_of_str env) (we_settings env)
                (we_locked env) d)
             (\<lambda>task. webhook_commit (we_now env k) (we_utc env k) (we_jitter env k) task d) of
        Inl e \<Rightarrow> (RowError, d)
      | Inr r \<Rightarrow> r)"

fun drain :: "webhook_env \<Rightarrow> nat \<Rightarrow> nat \<Rightarrow> nat \<Rightarrow> bool \<Rightarrow> db \<Rightarrow> nat \<times> bool \<times> db" where
  "drain env 0 k processed applied_any d = (processed, applied_any, d)"
| "drain env (Suc n) k processed applied_any d =
     (case process_one_row env k d of
        (RowEmpty, d') \<Rightarrow> (processed, applied_any, d')
      | (outcome, d') \<Rightarrow>
          drain env n (Suc k) (Suc processed) (applied_any \<or> outcome = RowApplied) d')"

text \<open>The number of rows processed, whether the scheduler was notified, and the database.\<close>

definition process_pending_inbox :: "webhook_env \<Rightarrow> db \<Rightarrow> nat \<times> bool \<times> db" where
  "process_pending_inbox env d =
     drain env (webhook_processor_batch_max (we_settings env)) 0 0 False d"

text \<open>
  The safety-net loop, one environment per round: each drain commits its rows, then the loop
  sleeps. It ends only when it is cancelled.
\<close>

definition webhook_inbox_safety_net_loop :: "webhook_env list \<Rightarrow> db \<Rightarrow> db" where
  "webhook_inbox_safety_net_loop rounds d = fold (\<lambda>env d. snd (snd (process_pending_inbox env d))) rounds d"

end
