(* ===== verification/Webhook_Facts.thy ===== *)
theory Webhook_Facts
  imports Webhook_Processor
begin

text \<open>
  The inbox drain against the invariant: a planned event stays safe to apply whatever commits
  between its two halves, every row processed leaves the inbox for good, a drain is bounded by its
  cap, and a row whose payload the adapter refuses stays where it is.
\<close>

section \<open>A call seen in a started campaign\<close>

text \<open>The row exists and its campaign has left \<open>PENDING\<close>; both survive every transaction.\<close>

definition call_started :: "db \<Rightarrow> uuid \<Rightarrow> bool" where
  "call_started d i \<longleftrightarrow>
     (\<exists>r \<in> set (db_calls d). cl_id r = i \<and> campaign_started d (cl_campaign_id r))"

lemma campaign_started_evolves:
  assumes "campaign_started d i" and "evolves d d'" and "campaign_exists i d" and "db_inv d'"
  shows "campaign_started d' i"
proof -
  obtain c where c: "c \<in> set (db_campaigns d)" "cp_id c = i" "cp_status c \<noteq> PENDING"
    using assms(1,3) by (auto simp: campaign_exists_def campaign_started_def)
  then obtain c' where c': "c' \<in> set (db_campaigns d')" "campaign_evolves c c'"
    using assms(2) by (auto simp: evolves_def)
  have "cp_status c' \<noteq> PENDING" using c(3) c'(2) by (auto simp: campaign_evolves_def)
  moreover have "x = c'" if "x \<in> set (db_campaigns d')" "cp_id x = i" for x
    using that c(2) campaign_evolves_id [OF c'(2)]
    by (intro campaign_key_eq [OF db_invD(2) [OF assms(4)] that(1) c'(1)]) simp
  ultimately show ?thesis by (auto simp: campaign_started_def)
qed

lemma call_started_evolves:
  assumes "call_started d i" and "evolves d d'" and "db_inv d" and "db_inv d'"
  shows "call_started d' i"
proof -
  obtain r where r: "r \<in> set (db_calls d)" "cl_id r = i" "campaign_started d (cl_campaign_id r)"
    using assms(1) by (auto simp: call_started_def)
  then obtain r' where r': "r' \<in> set (db_calls d')" "row_evolves r r'"
    using assms(2) by (auto simp: evolves_def)
  have "campaign_started d' (cl_campaign_id r)"
    using r(3) assms(2) db_invD(7) [OF assms(3) r(1)] assms(4) by (rule campaign_started_evolves)
  with r(2) r' show ?thesis by (auto simp: call_started_def row_evolves_def)
qed

lemma call_startedD:
  assumes "call_started d i" and "db_inv d" and "r \<in> set (db_calls d)" and "cl_id r = i"
  shows "campaign_started d (cl_campaign_id r)"
proof -
  obtain s where s: "s \<in> set (db_calls d)" "cl_id s = i" "campaign_started d (cl_campaign_id s)"
    using assms(1) by (auto simp: call_started_def)
  have "r = s" using assms(3,4) s by (intro call_key_eq [OF db_invD(1) [OF assms(2)]]) auto
  with s show ?thesis by simp
qed

section \<open>Planning\<close>

lemma claim_unprocessed_Some:
  assumes "claim_unprocessed_one locked d = Some row"
  shows "row \<in> set (db_inbox d)" and "ib_processed_at row = None" and "\<not> locked (ib_id row)"
    and "\<And>x. x \<in> set (db_inbox d) \<Longrightarrow> ib_processed_at x = None \<Longrightarrow> \<not> locked (ib_id x) \<Longrightarrow>
           ib_received_at row \<le> ib_received_at x"
  using first_min_in_set [OF assms [unfolded claim_unprocessed_one_def]]
    first_min_le [OF assms [unfolded claim_unprocessed_one_def]]
  by auto

lemma lookup_provider_call_Some:
  "lookup_provider_call v d = Inr (Some call) \<Longrightarrow>
   call \<in> set (db_calls d) \<and> (\<exists>p. v = JStr p \<and> cl_provider_call_id call = Some p)"
  by (auto simp: lookup_provider_call_def get_by_provider_call_id_def split: json.splits
      dest: find_Some_iff_set)

lemma lookup_started:
  assumes "lookup_provider_call v d = Inr (Some call)" and "db_inv d"
  shows "call_started d (cl_id call)"
  using lookup_provider_call_Some [OF assms(1)] assms(2)
  by (auto simp: call_started_def intro!: bexI [of _ call] campaign_startedI)

definition task_row :: "webhook_task \<Rightarrow> uuid option" where
  "task_row task =
     (case task of
        InboxEmpty \<Rightarrow> None
      | UnknownCall row event \<Rightarrow> Some (ib_id row)
      | SameState row \<Rightarrow> Some (ib_id row)
      | TerminalEvent row event call base \<Rightarrow> Some (ib_id row)
      | IntermediateEvent row event call \<Rightarrow> Some (ib_id row))"

definition task_ready :: "webhook_task \<Rightarrow> db \<Rightarrow> bool" where
  "task_ready task d =
     (case task of
        TerminalEvent row event call base \<Rightarrow> call_started d (cl_id call)
      | IntermediateEvent row event call \<Rightarrow> call_started d (cl_id call)
      | _ \<Rightarrow> True)"

lemma task_ready_evolves:
  "task_ready task d \<Longrightarrow> evolves d d' \<Longrightarrow> db_inv d \<Longrightarrow> db_inv d' \<Longrightarrow> task_ready task d'"
  by (auto simp: task_ready_def intro: call_started_evolves split: webhook_task.splits)

lemma webhook_plan_cases:
  assumes "webhook_plan pe fs stg locked d = Inr task"
  obtains (empty) "claim_unprocessed_one locked d = None" and "task = InboxEmpty"
  | (unknown) row event where "claim_unprocessed_one locked d = Some row"
      and "pe (ib_payload row) = Inr event"
      and "lookup_provider_call (pe_provider_call_id event) d = Inr None"
      and "task = UnknownCall row event"
  | (same) row event call where "claim_unprocessed_one locked d = Some row"
      and "pe (ib_payload row) = Inr event"
      and "lookup_provider_call (pe_provider_call_id event) d = Inr (Some call)"
      and "pe_status_enum event = cl_status call" and "task = SameState row"
  | (term_event) row event call base where "claim_unprocessed_one locked d = Some row"
      and "pe (ib_payload row) = Inr event"
      and "lookup_provider_call (pe_provider_call_id event) d = Inr (Some call)"
      and "pe_status_enum event \<noteq> cl_status call" and "terminal (pe_status_enum event)"
      and "webhook_base_seconds fs stg call d = Inr base"
      and "task = TerminalEvent row event call base"
  | (intermediate) row event call where "claim_unprocessed_one locked d = Some row"
      and "pe (ib_payload row) = Inr event"
      and "lookup_provider_call (pe_provider_call_id event) d = Inr (Some call)"
      and "pe_status_enum event \<noteq> cl_status call" and "\<not> terminal (pe_status_enum event)"
      and "task = IntermediateEvent row event call"
proof (cases "claim_unprocessed_one locked d")
  case None
  with assms empty show thesis by (simp add: webhook_plan_def)
next
  case (Some row)
  with assms obtain event call where
    e: "pe (ib_payload row) = Inr event" "lookup_provider_call (pe_provider_call_id event) d = Inr call"
    by (auto simp: webhook_plan_def bind_res_Inr_iff)
  show thesis
  proof (cases call)
    case None
    with assms Some e unknown show thesis by (simp add: webhook_plan_def)
  next
    case (Some c)
    with assms \<open>claim_unprocessed_one locked d = Some row\<close> e same term_event intermediate show thesis
      by (auto simp: webhook_plan_def bind_res_Inr_iff split: if_splits)
  qed
qed

lemma webhook_plan_ready:
  assumes "webhook_plan pe fs stg locked d = Inr task" and "db_inv d"
  shows "task_ready task d"
  using assms(1) by (cases rule: webhook_plan_cases) (simp_all add: task_ready_def lookup_started [OF _ assms(2)])

lemma webhook_plan_row:
  assumes "webhook_plan pe fs stg locked d = Inr task"
  shows "task_row task = map_option ib_id (claim_unprocessed_one locked d)"
  using assms by (cases rule: webhook_plan_cases) (simp_all add: task_row_def)

section \<open>Committing\<close>

lemma mark_processed_frame [simp, frame]:
  "db_campaigns (mark_processed now i d) = db_campaigns d"
  "db_calls (mark_processed now i d) = db_calls d"
  "db_cursors (mark_processed now i d) = db_cursors d"
  "db_audit (mark_processed now i d) = db_audit d"
  by (simp_all add: mark_processed_def)

lemma mark_processed_inv [simp]:
  "db_inv (mark_processed now i d) = db_inv d" "evolves d (mark_processed now i d)"
  by (rule db_inv_cong, simp_all, rule evolves_same_tables, simp_all)

lemma ignored_event_quiet [simp]:
  "quiet_event (ignored_event event call res)" "quiet_event (unknown_call_event event)"
  by (simp_all add: quiet_event_def ignored_event_def unknown_call_event_def Let_def)

lemma evolves_emit [simp]: "evolves d (emit_audit now ev d)"
  by (rule evolves_same_tables) simp_all

lemma finish_event_inv:
  assumes "db_inv d" and "finish_event now row event call (res, d) = (oc, d')"
  shows "db_inv d' \<and> evolves d d'"
  using assms by (auto simp: finish_event_def db_inv_quiet_emit split: if_splits
      intro: evolves_trans [OF evolves_emit mark_processed_inv(2)])

lemma webhook_commit_cases:
  assumes "webhook_commit now py u task d = Inr (oc, d')"
  obtains (empty) "task = InboxEmpty" and "oc = RowEmpty" and "d' = d"
  | (unknown) row event where "task = UnknownCall row event" and "oc = RowStale"
      and "d' = mark_processed now (ib_id row) (emit_audit now (unknown_call_event event) d)"
  | (same) row where "task = SameState row" and "oc = RowStale"
      and "d' = mark_processed now (ib_id row) d"
  | (term_event) row event call base res d1 where "task = TerminalEvent row event call base"
      and "apply_retryable_outcome now py u (cl_id call) (cl_status call) (cl_attempt_epoch call)
             (cl_retries_remaining call) (pe_status_enum event) base ''webhook'' d = Inr (res, d1)"
      and "finish_event now row event call (res, d1) = (oc, d')"
  | (intermediate) row event call res d1 where "task = IntermediateEvent row event call"
      and "transition now (cl_id call) (cl_status call) (pe_status_enum event)
             (cl_attempt_epoch call) None TRANSITION
             (''webhook '' @ call_status_value (pe_status_enum event))
             [(''provider_event_id'', pe_provider_event_id event),
              (''provider_call_id'', pe_provider_call_id event)] [] d = Inr (res, d1)"
      and "finish_event now row event call (res, d1) = (oc, d')"
  using assms by (cases task) (auto simp: webhook_commit_def bind_res_Inr_iff)

lemma webhook_commit_inv:
  assumes "webhook_commit now py u task d = Inr (oc, d')" and inv: "db_inv d"
    and ready: "task_ready task d"
  shows "db_inv d' \<and> evolves d d'"
  using assms(1)
proof (cases rule: webhook_commit_cases)
  case (unknown row event)
  then show ?thesis using inv evolves_trans [OF evolves_emit mark_processed_inv(2)]
    by (simp add: db_inv_quiet_emit)
next
  case (term_event row event call base res d1)
  have "call_started d (cl_id call)" using ready term_event(1) by (simp add: task_ready_def)
  then have "db_inv d1 \<and> evolves d d1"
    by (intro apply_retryable_outcome_inv [OF term_event(2) inv]) (rule call_startedD [OF _ inv])
  with finish_event_inv [OF _ term_event(3)] show ?thesis by (blast intro: evolves_trans)
next
  case (intermediate row event call res d1)
  have "call_started d (cl_id call)" using ready intermediate(1) by (simp add: task_ready_def)
  then have "db_inv d1 \<and> evolves d d1"
    by (intro transition_started_inv [OF intermediate(2) inv]) (auto intro: call_startedD [OF _ inv])
  with finish_event_inv [OF _ intermediate(3)] show ?thesis by (blast intro: evolves_trans)
qed (use inv in simp_all)

interpretation webhook: db_transaction "\<lambda>a d. task_ready (snd (snd (snd a))) d"
  "\<lambda>a d d'. \<exists>oc. webhook_commit (fst a) (fst (snd a)) (fst (snd (snd a))) (snd (snd (snd a))) d = Inr (oc, d')"
  by unfold_locales (use webhook_commit_inv in blast)+

lemma process_one_row_cases:
  obtains (failed) e where "process_one_row env k d = (RowError, d)"
      and "bind_res (webhook_plan (we_parse_event env) (we_float_of_str env) (we_settings env)
             (we_locked env) d)
             (\<lambda>task. webhook_commit (we_now env k) (we_utc env k) (we_jitter env k) task d) = Inl e"
  | (ran) task where
      "webhook_plan (we_parse_event env) (we_float_of_str env) (we_settings env) (we_locked env) d = Inr task"
      and "webhook_commit (we_now env k) (we_utc env k) (we_jitter env k) task d =
           Inr (process_one_row env k d)"
proof (cases "bind_res (webhook_plan (we_parse_event env) (we_float_of_str env) (we_settings env)
    (we_locked env) d) (\<lambda>task. webhook_commit (we_now env k) (we_utc env k) (we_jitter env k) task d)")
  case (Inl e)
  then show thesis by (intro failed [of e]) (simp_all add: process_one_row_def)
next
  case (Inr p)
  then show thesis by (auto simp: process_one_row_def bind_res_Inr_iff intro: ran)
qed

lemma process_one_row_inv:
  assumes "db_inv d"
  shows "db_inv (snd (process_one_row env k d)) \<and> evolves d (snd (process_one_row env k d))"
proof (cases rule: process_one_row_cases [where env = env and k = k and d = d])
  case failed
  with assms show ?thesis by simp
next
  case (ran task)
  with webhook_commit_inv [of _ _ _ task d] webhook_plan_ready [OF ran(1) assms] assms show ?thesis
    by (metis prod.collapse)
qed

section \<open>The inbox\<close>

definition inbox_ok :: "db \<Rightarrow> bool" where
  "inbox_ok d \<longleftrightarrow>
     distinct (map ib_id (db_inbox d)) \<and>
     distinct (map (\<lambda>r. (ib_provider r, ib_provider_event_id r)) (db_inbox d))"

definition unprocessed :: "db \<Rightarrow> nat" where
  "unprocessed d = count_where (\<lambda>r. ib_processed_at r = None) (db_inbox d)"

lemma inbox_ok_cong: "db_inbox d' = db_inbox d \<Longrightarrow> inbox_ok d' \<longleftrightarrow> inbox_ok d"
  by (simp add: inbox_ok_def)

lemma inbox_ok_mark [simp]: "inbox_ok (mark_processed now i d) = inbox_ok d"
  by (simp add: inbox_ok_def mark_processed_def map_update_where)

lemma in_mark_processed:
  "x \<in> set (db_inbox (mark_processed now i d)) \<longleftrightarrow>
   (\<exists>y \<in> set (db_inbox d). x = (if ib_id y = i then y\<lparr>ib_processed_at := Some now\<rparr> else y))"
  by (auto simp: mark_processed_def in_set_update_where)

lemma unprocessed_mark:
  assumes "inbox_ok d" and "row \<in> set (db_inbox d)" and "ib_processed_at row = None"
  shows "Suc (unprocessed (mark_processed now (ib_id row) d)) = unprocessed d"
  using count_where_update_key [of ib_id "db_inbox d" row "\<lambda>r. ib_id r = ib_id row"
      "\<lambda>r. ib_processed_at r = None" "\<lambda>r. r\<lparr>ib_processed_at := Some now\<rparr>"] assms
  by (simp add: inbox_ok_def unprocessed_def mark_processed_def)

lemma finish_event_inbox:
  "db_inbox (snd (finish_event now row event call (res, d))) = db_inbox (mark_processed now (ib_id row) d)"
  "fst (finish_event now row event call (res, d)) \<in> {RowApplied, RowStale}"
  by (simp_all add: finish_event_def mark_processed_def)

lemma mark_processed_inbox_cong:
  "db_inbox d1 = db_inbox d \<Longrightarrow> db_inbox (mark_processed now i d1) = db_inbox (mark_processed now i d)"
  by (simp add: mark_processed_def)

lemma webhook_commit_inbox:
  assumes "webhook_commit now py u task d = Inr (oc, d')" and "keys_ok d"
  shows "db_inbox d' = (case task_row task of None \<Rightarrow> db_inbox d
           | Some i \<Rightarrow> db_inbox (mark_processed now i d))"
    and "oc \<noteq> RowError" and "oc = RowEmpty \<longleftrightarrow> task = InboxEmpty"
proof -
  have "db_inbox d' = (case task_row task of None \<Rightarrow> db_inbox d
           | Some i \<Rightarrow> db_inbox (mark_processed now i d)) \<and> oc \<noteq> RowError \<and> (oc = RowEmpty \<longleftrightarrow> task = InboxEmpty)"
    using assms(1)
  proof (cases rule: webhook_commit_cases)
    case (term_event row event call base res d1)
    have "db_inbox d1 = db_inbox d" by (rule apply_retryable_outcome_frame(2) [OF term_event(2) assms(2)])
    then show ?thesis
      using term_event(1,3) finish_event_inbox [of now row event call res d1]
        mark_processed_inbox_cong [of d1 d now "ib_id row"]
      by (auto simp: task_row_def)
  next
    case (intermediate row event call res d1)
    have "db_inbox d1 = db_inbox d" by (rule transition_frame(2) [OF intermediate(2) assms(2)])
    then show ?thesis
      using intermediate(1,3) finish_event_inbox [of now row event call res d1]
        mark_processed_inbox_cong [of d1 d now "ib_id row"]
      by (auto simp: task_row_def)
  qed (simp_all add: task_row_def mark_processed_def)
  then show "db_inbox d' = (case task_row task of None \<Rightarrow> db_inbox d
           | Some i \<Rightarrow> db_inbox (mark_processed now i d))"
    and "oc \<noteq> RowError" and "oc = RowEmpty \<longleftrightarrow> task = InboxEmpty" by blast+
qed

text \<open>One row: refused and left alone, nothing to do, or taken out of the inbox.\<close>

lemma process_one_row_inbox:
  assumes "keys_ok d"
  obtains (error) "process_one_row env k d = (RowError, d)"
  | (empty) "process_one_row env k d = (RowEmpty, d)" and "claim_unprocessed_one (we_locked env) d = None"
  | (took) row where "claim_unprocessed_one (we_locked env) d = Some row"
      and "fst (process_one_row env k d) \<in> {RowApplied, RowStale}"
      and "db_inbox (snd (process_one_row env k d)) = db_inbox (mark_processed (we_now env k) (ib_id row) d)"
proof (cases rule: process_one_row_cases [where env = env and k = k and d = d])
  case failed
  then show thesis by (intro error)
next
  case (ran task)
  obtain oc d' where p: "process_one_row env k d = (oc, d')" by fastforce
  note c = webhook_commit_inbox [OF ran(2) [unfolded p] assms] and row = webhook_plan_row [OF ran(1)]
  show thesis
  proof (cases "claim_unprocessed_one (we_locked env) d")
    case None
    then have "task = InboxEmpty" using row by (cases task) (auto simp: task_row_def)
    with ran(2) p None show thesis by (intro empty) (auto simp: webhook_commit_def)
  next
    case (Some x)
    then have "task \<noteq> InboxEmpty" using row by (auto simp: task_row_def)
    with c row Some p show thesis by (intro took [of x]) (cases oc; auto)+
  qed
qed

lemma process_one_row_unprocessed:
  assumes "keys_ok d" and "inbox_ok d"
  shows "inbox_ok (snd (process_one_row env k d))"
    and "unprocessed d = unprocessed (snd (process_one_row env k d)) +
           (if fst (process_one_row env k d) \<in> {RowApplied, RowStale} then 1 else 0)"
proof -
  have "inbox_ok (snd (process_one_row env k d)) \<and>
    unprocessed d = unprocessed (snd (process_one_row env k d)) +
           (if fst (process_one_row env k d) \<in> {RowApplied, RowStale} then 1 else 0)"
    using assms(1)
  proof (cases rule: process_one_row_inbox [where env = env and k = k])
    case (took row)
    note row = claim_unprocessed_Some [OF took(1)]
    have "inbox_ok (snd (process_one_row env k d))"
      using inbox_ok_cong [OF took(3)] assms(2) by simp
    moreover have "unprocessed (snd (process_one_row env k d)) =
        unprocessed (mark_processed (we_now env k) (ib_id row) d)"
      using took(3) by (simp add: unprocessed_def)
    ultimately show ?thesis
      using unprocessed_mark [OF assms(2) row(1,2), of "we_now env k"] took(2) by simp
  qed (use assms in simp_all)
  then show "inbox_ok (snd (process_one_row env k d))"
    and "unprocessed d = unprocessed (snd (process_one_row env k d)) +
           (if fst (process_one_row env k d) \<in> {RowApplied, RowStale} then 1 else 0)" by blast+
qed

section \<open>The drain\<close>

lemma drain_step:
  assumes "process_one_row env k d = (oc, d')" and "oc \<noteq> RowEmpty"
  shows "drain env (Suc n) k p a d = drain env n (Suc k) (Suc p) (a \<or> oc = RowApplied) d'"
  using assms by (cases oc) auto

lemma drain_Suc_cases:
  assumes "db_inv d"
  obtains (stop) "process_one_row env k d = (RowEmpty, d)" and "drain env (Suc n) k p a d = (p, a, d)"
      and "claim_unprocessed_one (we_locked env) d = None"
  | (step) oc d' where "process_one_row env k d = (oc, d')" and "oc \<noteq> RowEmpty"
      and "db_inv d'" and "evolves d d'"
      and "drain env (Suc n) k p a d = drain env n (Suc k) (Suc p) (a \<or> oc = RowApplied) d'"
proof -
  obtain oc d' where run: "process_one_row env k d = (oc, d')" by fastforce
  note inv = process_one_row_inv [OF assms, of env k, unfolded run snd_conv]
  show thesis
  proof (cases "oc = RowEmpty")
    case True
    have "claim_unprocessed_one (we_locked env) d = None \<and> d' = d"
      using db_invD(4) [OF assms]
      by (cases rule: process_one_row_inbox [where env = env and k = k]) (use run True in auto)
    with run True show thesis by (intro stop) simp_all
  next
    case False
    with run inv show thesis by (intro step) (simp_all add: drain_step del: drain.simps)
  qed
qed

lemma drain_inv:
  assumes "db_inv d"
  shows "db_inv (snd (snd (drain env n k p a d))) \<and> evolves d (snd (snd (drain env n k p a d)))"
  using assms
proof (induction n arbitrary: k p a d)
  case (Suc n)
  from Suc.prems show ?case
  proof (cases rule: drain_Suc_cases [where env = env and k = k and n = n and p = p and a = a])
    case (step oc d')
    with Suc.IH [OF step(3)] show ?thesis by (auto intro: evolves_trans simp del: drain.simps)
  qed (use Suc.prems in simp)
qed simp

interpretation drained: db_transaction "\<lambda>_ _. True"
  "\<lambda>env d d'. d' = snd (snd (process_pending_inbox env d))"
  unfolding process_pending_inbox_def by unfold_locales (use drain_inv in blast)+

lemma drain_bounded:
  assumes "db_inv d"
  shows "p \<le> fst (drain env n k p a d) \<and> fst (drain env n k p a d) \<le> p + n"
  using assms
proof (induction n arbitrary: k p a d)
  case (Suc n)
  from Suc.prems show ?case
  proof (cases rule: drain_Suc_cases [where env = env and k = k and n = n and p = p and a = a])
    case (step oc d')
    with Suc.IH [OF step(3), of "Suc p" "Suc k" "a \<or> oc = RowApplied"] show ?thesis
      by (simp del: drain.simps)
  qed simp
qed simp

text \<open>Fewer rows than the cap: the last read found nothing left to claim.\<close>

lemma drain_complete:
  assumes "db_inv d" and "fst (drain env n k p a d) < p + n"
  shows "claim_unprocessed_one (we_locked env) (snd (snd (drain env n k p a d))) = None"
  using assms
proof (induction n arbitrary: k p a d)
  case (Suc n)
  from Suc.prems(1) show ?case
  proof (cases rule: drain_Suc_cases [where env = env and k = k and n = n and p = p and a = a])
    case (step oc d')
    with Suc.IH [OF step(3), of "Suc k" "Suc p" "a \<or> oc = RowApplied"] Suc.prems(2) show ?thesis
      by (simp del: drain.simps)
  qed simp
qed simp

lemma drain_accounts:
  assumes "db_inv d" and "inbox_ok d"
  shows "inbox_ok (snd (snd (drain env n k p a d))) \<and>
    unprocessed (snd (snd (drain env n k p a d))) \<le> unprocessed d \<and>
    unprocessed d \<le> unprocessed (snd (snd (drain env n k p a d))) + (fst (drain env n k p a d) - p)"
  using assms
proof (induction n arbitrary: k p a d)
  case (Suc n)
  from Suc.prems(1) show ?case
  proof (cases rule: drain_Suc_cases [where env = env and k = k and n = n and p = p and a = a])
    case (step oc d')
    note one = process_one_row_unprocessed [OF db_invD(4) [OF Suc.prems(1)] Suc.prems(2), of env k,
        unfolded step(1) fst_conv snd_conv]
    from Suc.IH [OF step(3) one(1), of "Suc k" "Suc p" "a \<or> oc = RowApplied"] one(2)
      drain_bounded [OF step(3), of "Suc p" env n "Suc k" "a \<or> oc = RowApplied"]
    show ?thesis unfolding step(5) by (auto split: if_splits simp del: drain.simps)
  qed (use Suc.prems in simp)
qed simp

text \<open>A row the adapter refuses is claimed again on every iteration, and nothing else is.\<close>

lemma drain_refused:
  assumes "claim_unprocessed_one (we_locked env) d = Some row"
    and "we_parse_event env (ib_payload row) = Inl e"
  shows "drain env n k p a d = (p + n, a, d)"
proof (induction n arbitrary: k p a)
  case (Suc n)
  have "process_one_row env k d = (RowError, d)" for k
    using assms by (simp add: process_one_row_def webhook_plan_def)
  from drain_step [OF this] Suc show ?case by simp
qed simp

lemma safety_net_inv:
  "db_inv d \<Longrightarrow> db_inv (webhook_inbox_safety_net_loop rounds d) \<and>
   evolves d (webhook_inbox_safety_net_loop rounds d)"
proof (induction rounds arbitrary: d)
  case (Cons env rounds)
  let ?d = "snd (snd (process_pending_inbox env d))"
  from Cons.prems have "db_inv ?d" "evolves d ?d"
    using drained.keeps_inv [where a = env] drained.rows_evolve [where a = env] by simp_all
  with Cons.IH [of ?d] show ?case by (auto simp: webhook_inbox_safety_net_loop_def intro: evolves_trans)
qed (simp add: webhook_inbox_safety_net_loop_def)

interpretation safety_net: db_transaction "\<lambda>_ _. True"
  "\<lambda>rounds d d'. d' = webhook_inbox_safety_net_loop rounds d"
  by unfold_locales (use safety_net_inv in blast)+

end
