(* ===== verification/Api_Facts.thy ===== *)
theory Api_Facts
  imports Api Webhook_Facts
begin

text \<open>
  The handlers against the invariant: a created campaign enters the store with all its calls
  queued, a rejected request leaves no trace, ingestion is idempotent on the provider's event id,
  and ageing a row only moves its clock.
\<close>

section \<open>Creating a campaign\<close>

lemma campaign_create_Inr:
  "campaign_create cid now name tz sched mc rc d = Inr (i, d') \<longleftrightarrow>
   i = cid \<and> 0 < mc \<and> \<not> campaign_exists cid d \<and>
   d' = d\<lparr>db_campaigns := db_campaigns d @
      [\<lparr>cp_id = cid, cp_name = name, cp_status = PENDING, cp_timezone = tz, cp_schedule = sched,
        cp_max_concurrent = mc, cp_retry_config = rc, cp_created_at = now, cp_updated_at = now\<rparr>]\<rparr>"
  by (auto simp: campaign_create_def)

lemma create_batch_Inr:
  assumes "phones \<noteq> []"
  shows "create_batch ids now cid phones rr d = Inr (i, d') \<longleftrightarrow>
    (let rows = map2 (new_call_row now cid rr) ids phones in
       i = map cl_id rows \<and> campaign_exists cid d \<and>
       distinct (map cl_id (db_calls d @ rows)) \<and> phone_index_ok (db_calls d @ rows) \<and>
       d' = d\<lparr>db_calls := db_calls d @ rows\<rparr>)"
  using assms by (auto simp: create_batch_def Let_def simp del: map_append distinct_append)

lemma new_call_row_simps [simp]:
  "cl_id (new_call_row now cid rr i p) = i" "cl_campaign_id (new_call_row now cid rr i p) = cid"
  "cl_phone (new_call_row now cid rr i p) = p" "cl_status (new_call_row now cid rr i p) = QUEUED"
  "cl_provider_call_id (new_call_row now cid rr i p) = None"
  "cl_attempt_epoch (new_call_row now cid rr i p) = 0"
  "cl_retries_remaining (new_call_row now cid rr i p) = rr"
  by (simp_all add: new_call_row_def)

lemma map2_new_rows:
  "map cl_id (map2 (new_call_row now cid rr) ids ps) = take (length ps) ids"
  "map cl_phone (map2 (new_call_row now cid rr) ids ps) = take (length ids) ps"
  by (induction ids ps rule: list_induct2') simp_all

lemma in_map2_new_rows:
  "r \<in> set (map2 (new_call_row now cid rr) ids ps) \<Longrightarrow>
   \<exists>i p. r = new_call_row now cid rr i p \<and> i \<in> set ids \<and> p \<in> set ps"
  by (auto dest: set_zip_leftD set_zip_rightD)

text \<open>
  A request is ready when its body passed validation (at least one phone) and the database has an id
  for every phone.
\<close>

definition create_ready :: "campaign_create_body \<Rightarrow> uuid list \<Rightarrow> bool" where
  "create_ready body new_ids \<longleftrightarrow> cc_phones body \<noteq> [] \<and> length new_ids = length (cc_phones body)"

definition created_campaign :: "model_io \<Rightarrow> settings \<Rightarrow> uuid \<Rightarrow> timestamp \<Rightarrow> campaign_create_body \<Rightarrow> campaign_row" where
  "created_campaign mio stg cid now body =
     \<lparr>cp_id = cid, cp_name = cc_name body, cp_status = PENDING, cp_timezone = cc_timezone body,
      cp_schedule = dump_schedule mio (cc_schedule body),
      cp_max_concurrent = body_max_concurrent stg body,
      cp_retry_config = dump_retry (cc_retry_config body), cp_created_at = now, cp_updated_at = now\<rparr>"

definition created_calls :: "uuid \<Rightarrow> uuid list \<Rightarrow> timestamp \<Rightarrow> campaign_create_body \<Rightarrow> call_row list" where
  "created_calls cid new_ids now body =
     map2 (new_call_row now cid (rc_max_attempts (cc_retry_config body))) new_ids (cc_phones body)"

lemma created_campaign_simps [simp]:
  "cp_id (created_campaign mio stg cid now body) = cid"
  "cp_status (created_campaign mio stg cid now body) = PENDING"
  by (simp_all add: created_campaign_def)

lemma create_campaign_txn_cases:
  assumes "create_campaign_txn mio stg cid ids now body d = Inr (row, d')" and "create_ready body ids"
  shows "\<not> campaign_exists cid d" and "0 < body_max_concurrent stg body"
    and "row = Some (created_campaign mio stg cid now body)"
    and "distinct (map cl_id (db_calls d @ created_calls cid ids now body))"
    and "phone_index_ok (db_calls d @ created_calls cid ids now body)"
    and "d' = d\<lparr>db_campaigns := db_campaigns d @ [created_campaign mio stg cid now body],
                db_calls := db_calls d @ created_calls cid ids now body\<rparr>"
proof -
  have ne: "cc_phones body \<noteq> []" using assms(2) by (simp add: create_ready_def)
  have new: "\<not> campaign_exists cid d"
    and eqs: "0 < body_max_concurrent stg body \<and>
      distinct (map cl_id (db_calls d @ created_calls cid ids now body)) \<and>
      phone_index_ok (db_calls d @ created_calls cid ids now body) \<and>
      d' = d\<lparr>db_campaigns := db_campaigns d @ [created_campaign mio stg cid now body],
             db_calls := db_calls d @ created_calls cid ids now body\<rparr> \<and> row = campaign_get cid d'"
    using assms(1)
    by (auto simp: create_campaign_txn_def bind_res_Inr_iff campaign_create_Inr create_batch_Inr [OF ne]
        Let_def created_campaign_def created_calls_def)
  have "find (\<lambda>c. cp_id c = cid) (db_campaigns d) = None"
    using new by (auto simp: find_None_set campaign_exists_def)
  then have "find (\<lambda>c. cp_id c = cid) (db_campaigns d @ [created_campaign mio stg cid now body]) =
      Some (created_campaign mio stg cid now body)"
    by (simp add: find_append)
  with new eqs show "\<not> campaign_exists cid d" and "0 < body_max_concurrent stg body"
    and "row = Some (created_campaign mio stg cid now body)"
    and "distinct (map cl_id (db_calls d @ created_calls cid ids now body))"
    and "phone_index_ok (db_calls d @ created_calls cid ids now body)"
    and "d' = d\<lparr>db_campaigns := db_campaigns d @ [created_campaign mio stg cid now body],
                db_calls := db_calls d @ created_calls cid ids now body\<rparr>"
    by (auto simp: campaign_get_def)
qed

lemma created_calls_mem:
  assumes "r \<in> set (created_calls cid ids now body)"
  shows "cl_campaign_id r = cid" and "cl_status r = QUEUED" and "cl_provider_call_id r = None"
    and "cl_attempt_epoch r = 0" and "cl_id r \<in> set ids" and "cl_phone r \<in> set (cc_phones body)"
    and "cl_retries_remaining r = rc_max_attempts (cc_retry_config body)"
  using in_map2_new_rows [OF assms [unfolded created_calls_def]] by auto

lemma created_calls_ne: "create_ready body ids \<Longrightarrow> created_calls cid ids now body \<noteq> []"
  by (cases ids; cases "cc_phones body") (auto simp: create_ready_def created_calls_def)

lemma calls_of_append_other:
  assumes "\<And>r. r \<in> set rs \<Longrightarrow> cl_campaign_id r = cid" and "i \<noteq> cid"
  shows "calls_of (d\<lparr>db_campaigns := cs, db_calls := db_calls d @ rs\<rparr>) i = calls_of d i"
  using assms by (auto simp: calls_of_def filter_empty_conv)

lemma create_campaign_txn_inv:
  assumes run: "create_campaign_txn mio stg cid ids now body d = Inr (row, d')"
    and ready: "create_ready body ids" and inv: "db_inv d"
  shows "db_inv d' \<and> evolves d d'"
proof -
  note c = create_campaign_txn_cases [OF run ready]
  let ?c = "created_campaign mio stg cid now body" and ?rs = "created_calls cid ids now body"
  note new = created_calls_mem [of _ cid ids now body]
  have fresh: "cid \<notin> cp_id ` set (db_campaigns d)" using c(1) by (auto simp: campaign_exists_def)
  have no_calls: "cl_campaign_id r \<noteq> cid" if "r \<in> set (db_calls d)" for r
    using db_invD(7) [OF inv that] c(1) by metis
  have keys: "keys_ok d'"
    using db_invD(2,7) [OF inv] fresh c(4,5) new(1)
    unfolding c(6) keys_ok_def by (auto simp: campaign_exists_def)
  have silent: "\<not> moves_call (cl_id r) (ar_event a)" if "r \<in> set ?rs" "a \<in> set (db_audit d)" for r a
  proof
    assume "moves_call (cl_id r) (ar_event a)"
    with that(2) db_invD(5) [OF inv] have "cl_id r \<in> cl_id ` set (db_calls d)" by (auto simp: audit_ok_def)
    with that(1) c(4) show False by auto
  qed
  have silent_c: "\<not> moves_campaign cid (ar_event a)" if "a \<in> set (db_audit d)" for a
    using that db_invD(5) [OF inv] fresh by (auto simp: audit_ok_def)
  have "replay_call (cl_id r) (db_audit d) = ''QUEUED''" if "r \<in> set ?rs" for r
    unfolding replay_call_def by (rule replay_no_move) (use silent that in blast)
  moreover have "replay_campaign cid (db_audit d) = ''PENDING''"
    unfolding replay_campaign_def by (rule replay_no_move) (use silent_c in blast)
  ultimately have audit: "audit_ok d'"
    using db_invD(5) [OF inv] new(2) unfolding c(6) by (auto simp: audit_ok_def image_Un)
  have "campaign_ok d' x" if "x \<in> set (db_campaigns d')" for x
  proof (cases "cp_id x = cid")
    case True
    with that fresh have "x = ?c" by (auto simp: c(6))
    moreover have "calls_of d' cid = ?rs"
      using no_calls new(1) by (auto simp: c(6) calls_of_def filter_empty_conv filter_id_conv)
    ultimately show ?thesis
      using new(2,3) created_calls_ne [OF ready] by (auto simp: campaign_ok_def)
  next
    case False
    with that have "x \<in> set (db_campaigns d)" by (auto simp: c(6))
    with db_invD(6) [OF inv] calls_of_append_other [OF new(1) False] show ?thesis
      by (simp add: campaign_ok_def c(6))
  qed
  with keys audit have "db_inv d'" by (simp add: db_inv_def)
  moreover have "evolves d d'" by (auto simp: evolves_def c(6) intro!: bexI)
  ultimately show ?thesis by blast
qed

lemma create_campaign_cases:
  obtains (refused) e where "create_campaign mio stg cid ids now body d = (Inl e, False, d)"
  | (created) row d' where "create_campaign_txn mio stg cid ids now body d = Inr (row, d')"
      and "snd (create_campaign mio stg cid ids now body d) = (True, d')"
proof (cases "create_campaign_txn mio stg cid ids now body d")
  case (Inl e)
  then show thesis by (intro refused) (simp add: create_campaign_def)
next
  case (Inr p)
  obtain row d' where "p = (row, d')" by (cases p)
  with Inr show thesis
    by (intro created [of row d']) (auto simp: create_campaign_def split: option.splits)
qed

interpretation create: db_transaction "\<lambda>a d. create_ready (fst a) (snd a)"
  "\<lambda>a d d'. \<exists>mio stg cid now. d' = snd (snd (create_campaign mio stg cid (snd a) now (fst a) d))"
proof -
  have "db_inv (snd (snd (create_campaign mio stg cid ids now body d))) \<and>
      evolves d (snd (snd (create_campaign mio stg cid ids now body d)))"
    if "db_inv d" "create_ready body ids" for mio stg cid ids now body d
    using that
    by (cases rule: create_campaign_cases [where mio = mio and stg = stg and cid = cid and ids = ids
          and now = now and body = body and d = d]) (auto dest: create_campaign_txn_inv)
  then show "db_transaction (\<lambda>a d. create_ready (fst a) (snd a))
      (\<lambda>a d d'. \<exists>mio stg cid now. d' = snd (snd (create_campaign mio stg cid (snd a) now (fst a) d)))"
    by unfold_locales blast+
qed

section \<open>Ageing a row\<close>

text \<open>\<open>campaign_ok\<close> reads only the statuses and handles of a campaign's calls.\<close>

lemma campaign_ok_view:
  assumes "(\<lambda>x. (cl_status x, cl_provider_call_id x)) ` set (calls_of d' (cp_id c)) =
           (\<lambda>x. (cl_status x, cl_provider_call_id x)) ` set (calls_of d (cp_id c))" (is "?V ` ?A = ?V ` ?B")
  shows "campaign_ok d' c \<longleftrightarrow> campaign_ok d c"
proof -
  have all: "(\<forall>x \<in> ?A. P (?V x)) \<longleftrightarrow> (\<forall>x \<in> ?B. P (?V x))" for P
  proof -
    have "(\<forall>x \<in> ?A. P (?V x)) \<longleftrightarrow> (\<forall>v \<in> ?V ` ?A. P v)" by simp
    also have "\<dots> \<longleftrightarrow> (\<forall>x \<in> ?B. P (?V x))" unfolding assms by simp
    finally show ?thesis .
  qed
  have ne: "?A = {} \<longleftrightarrow> ?B = {}" using arg_cong [OF assms, of "\<lambda>X. X = {}"] by simp
  have ex: "(\<exists>x \<in> ?A. P (?V x)) \<longleftrightarrow> (\<exists>x \<in> ?B. P (?V x))" for P
  proof -
    have "(\<exists>x \<in> ?A. P (?V x)) \<longleftrightarrow> (\<exists>v \<in> ?V ` ?A. P v)" by simp
    also have "\<dots> \<longleftrightarrow> (\<exists>x \<in> ?B. P (?V x))" unfolding assms by simp
    finally show ?thesis .
  qed
  note views = ne all [of "\<lambda>v. fst v = QUEUED \<and> snd v = None"] all [of "\<lambda>v. terminal (fst v)"]
    all [of "\<lambda>v. fst v \<noteq> COMPLETED"] ex [of "\<lambda>v. \<not> terminal (fst v)"] ex [of "\<lambda>v. fst v = COMPLETED"]
  show ?thesis
    by (cases "cp_status c"; insert views; simp only: campaign_ok_def Let_def campaign_status.case fst_conv snd_conv)
qed

lemma db_inv_touch:
  assumes inv: "db_inv d" and r: "r \<in> set (db_calls d)" and ev: "row_evolves r r'"
    and same: "cl_status r' = cl_status r" "cl_provider_call_id r' = cl_provider_call_id r"
  shows "db_inv (put_row r' d)"
proof -
  have id: "cl_id r' = cl_id r" "cl_campaign_id r' = cl_campaign_id r" "cl_phone r' = cl_phone r"
    using ev by (simp_all add: row_evolves_def)
  have "phone_index_ok (db_calls (put_row r' d))"
    using id same db_invD(3,1) [OF inv] r by (intro phone_index_put_row [of d r]) (auto simp: in_phone_index_def)
  then have "keys_ok (put_row r' d)" using db_invD(4) [OF inv] r ev by (simp add: keys_ok_put_row)
  moreover have "audit_ok (put_row r' d)"
  proof -
    have ids: "cl_id ` set (db_calls (put_row r' d)) = cl_id ` set (db_calls d)"
      by (metis list.set_map put_row_ids)
    from db_invD(5) [OF inv] r id same show ?thesis
      unfolding audit_ok_def ids by (auto simp: in_put_row)
  qed
  moreover have "campaign_ok (put_row r' d) c" if "c \<in> set (db_campaigns d)" for c
  proof (cases "cp_id c = cl_campaign_id r")
    case True
    have rc: "r \<in> set (calls_of d (cl_campaign_id r))" using r by (simp add: in_calls_of)
    have key: "x \<in> set (calls_of d (cl_campaign_id r)) \<Longrightarrow> cl_id x = cl_id r \<Longrightarrow> x = r" for x
      using r call_key_eq [OF db_invD(1) [OF inv]] by (auto simp: in_calls_of)
    let ?V = "\<lambda>x. (cl_status x, cl_provider_call_id x)"
    have "?V ` set (calls_of (put_row r' d) (cp_id c)) = ?V ` set (calls_of d (cp_id c))" (is "?V ` ?A = ?V ` ?B")
    proof (intro set_eqI iffI)
      fix v assume "v \<in> ?V ` ?A"
      then obtain x where "x \<in> ?A" "v = ?V x" by blast
      then show "v \<in> ?V ` ?B" using True in_calls_of_put_row [OF r ev, of x] rc same by auto
    next
      fix v assume "v \<in> ?V ` ?B"
      then obtain x where x: "x \<in> ?B" "v = ?V x" by blast
      show "v \<in> ?V ` ?A"
      proof (cases "cl_id x = cl_id r")
        case True
        have "x = r" using x(1) True key \<open>cp_id c = cl_campaign_id r\<close> by simp
        then have "v = ?V r'" using x(2) same by simp
        moreover have "r' \<in> ?A" using \<open>cp_id c = _\<close> in_calls_of_put_row [OF r ev, of r'] by simp
        ultimately show ?thesis by blast
      next
        case False
        with x True in_calls_of_put_row [OF r ev, of x] show ?thesis by auto
      qed
    qed
    with campaign_ok_view db_invD(6) [OF inv that] show ?thesis by blast
  next
    case False
    with db_invD(6) [OF inv that] calls_of_put_row_other [OF db_invD(1) [OF inv] r ev False]
    show ?thesis by (simp add: campaign_ok_def)
  qed
  ultimately show ?thesis by (simp add: db_inv_def)
qed

lemma age_dialing_cases:
  assumes "age_dialing stg now i secs d = Inr (txt, d')" and "keys_ok d"
  obtains r where "r \<in> set (db_calls d)" and "cl_id r = i" and "cl_status r = DIALING"
    and "d' = emit_audit now (aged_event secs (r\<lparr>cl_updated_at := now - secs * 1000000\<rparr>))
              (put_row (r\<lparr>cl_updated_at := now - secs * 1000000\<rparr>) d)"
proof -
  let ?P = "\<lambda>r. cl_id r = i \<and> cl_status r = DIALING"
  let ?f = "\<lambda>r. r\<lparr>cl_updated_at := now - secs * 1000000\<rparr>"
  obtain r d1 where r: "update_call_where ?P ?f d = Inr (Some r, d1)" "d' = emit_audit now (aged_event secs r) d1"
    using assms(1) by (auto simp: age_dialing_def bind_res_Inr_iff split: if_splits option.splits)
  obtain s where s: "find ?P (db_calls d) = Some s"
    using r(1) by (auto simp: update_call_where_def Let_def split: if_splits)
  then have m: "s \<in> set (db_calls d)" "cl_id s = i" "cl_status s = DIALING" by (auto dest: find_Some_iff_set)
  have "update_call_where ?P ?f d =
      (if phone_index_ok (db_calls (put_row (?f s) d)) then Inr (Some (?f s), put_row (?f s) d)
       else Inl UniqueViolationError)"
    using s assms(2) m(2) by (intro update_call_where_Some) (auto simp: keys_ok_def)
  with r have "d' = emit_audit now (aged_event secs (?f s)) (put_row (?f s) d)" by (auto split: if_splits)
  with m show thesis by (intro that)
qed

lemma age_dialing_inv:
  assumes "age_dialing stg now i secs d = Inr (txt, d')" and inv: "db_inv d"
  shows "db_inv d' \<and> evolves d d'"
proof -
  from assms(1) db_invD(4) [OF inv] show ?thesis
  proof (cases rule: age_dialing_cases)
    case (1 r)
    let ?r = "r\<lparr>cl_updated_at := now - secs * 1000000\<rparr>"
    have ev: "row_evolves r ?r" by (simp add: row_evolves_def)
    have "db_inv (put_row ?r d)" by (rule db_inv_touch [OF inv 1(1) ev]) simp_all
    moreover have "evolves d (put_row ?r d)" by (rule evolves_put_row [OF db_invD(1) [OF inv] 1(1) ev])
    ultimately show ?thesis
      by (auto simp: 1(4) aged_event_def quiet_event_def intro: db_inv_quiet_emit evolves_trans [OF _ evolves_emit])
  qed
qed

interpretation ageing: db_transaction "\<lambda>_ _. True"
  "\<lambda>a d d'. \<exists>txt. age_dialing (fst a) (fst (snd a)) (fst (snd (snd a))) (snd (snd (snd a))) d = Inr (txt, d')"
  by unfold_locales (use age_dialing_inv in blast)+

section \<open>Ingestion\<close>

text \<open>The row is there already: nothing changes. Otherwise one unprocessed row is appended.\<close>

lemma inbox_insert_cases:
  assumes "inbox_insert new_id now p e payload headers d = Inr (i, d')"
  obtains (replayed) r where "r \<in> set (db_inbox d)" and "ib_provider r = p" and "ib_provider_event_id r = e"
      and "i = ib_id r" and "d' = d"
  | (appended) "\<And>r. r \<in> set (db_inbox d) \<Longrightarrow> (ib_provider r, ib_provider_event_id r) \<noteq> (p, e)"
      and "new_id \<notin> ib_id ` set (db_inbox d)" and "i = new_id"
      and "d' = d\<lparr>db_inbox := db_inbox d @
               [\<lparr>ib_id = new_id, ib_provider = p, ib_provider_event_id = e, ib_payload = payload,
                 ib_headers = headers, ib_received_at = now, ib_processed_at = None\<rparr>]\<rparr>"
proof (cases "find (\<lambda>r. ib_provider r = p \<and> ib_provider_event_id r = e) (db_inbox d)")
  case None
  then have none: "(ib_provider r, ib_provider_event_id r) \<noteq> (p, e)" if "r \<in> set (db_inbox d)" for r
    using that by (auto simp: find_None_set)
  from None assms have "new_id \<notin> ib_id ` set (db_inbox d)" "i = new_id"
    "d' = d\<lparr>db_inbox := db_inbox d @
       [\<lparr>ib_id = new_id, ib_provider = p, ib_provider_event_id = e, ib_payload = payload,
         ib_headers = headers, ib_received_at = now, ib_processed_at = None\<rparr>]\<rparr>"
    by (auto simp: inbox_insert_def split: if_splits)
  with none show thesis by (rule appended)
next
  case (Some r)
  then have r: "r \<in> set (db_inbox d)" "ib_provider r = p" "ib_provider_event_id r = e"
    by (auto dest: find_Some_iff_set)
  let ?P = "\<lambda>r. ib_provider r = p \<and> ib_provider_event_id r = e"
  have "update_where ?P (\<lambda>r. r\<lparr>ib_provider := p\<rparr>) (db_inbox d) = db_inbox d"
    by (auto simp: update_where_def intro!: map_idI)
  then have "i = ib_id r \<and> d' = d" using assms Some by (auto simp: inbox_insert_def)
  with r show thesis by (intro replayed [of r]) simp_all
qed

lemma inbox_insert_again:
  assumes "\<exists>r \<in> set (db_inbox d). ib_provider r = p \<and> ib_provider_event_id r = e"
  shows "\<exists>j. inbox_insert new_id now p e payload headers d = Inr (j, d)"
proof -
  let ?P = "\<lambda>r. ib_provider r = p \<and> ib_provider_event_id r = e"
  obtain r where "find ?P (db_inbox d) = Some r"
    using assms by (cases "find ?P (db_inbox d)") (auto simp: find_None_set)
  moreover have "update_where ?P (\<lambda>r. r\<lparr>ib_provider := p\<rparr>) (db_inbox d) = db_inbox d"
    by (auto simp: update_where_def intro!: map_idI)
  ultimately show ?thesis by (simp add: inbox_insert_def)
qed

lemma inbox_insert_ok:
  assumes "inbox_insert new_id now p e payload headers d = Inr (i, d')" and "inbox_ok d"
  shows "inbox_ok d'"
  using assms(1)
proof (cases rule: inbox_insert_cases)
  case appended
  then show ?thesis using assms(2) by (auto simp: inbox_ok_def image_iff)
qed (use assms in simp)

lemma ingest_Inr:
  assumes "handle_webhook_ingest verify new_id now p payload raw headers d = Inr (b, d')"
  obtains e i where "verify headers raw" and "dict_get payload ''provider_event_id'' JNull = JStr e"
    and "e \<noteq> []" and "inbox_insert new_id now p e payload headers d = Inr (i, d')" and "b"
  using assms
  by (auto simp: handle_webhook_ingest_def bind_res_Inr_iff split: if_splits json.splits)

lemma ingest_inv:
  assumes "handle_webhook_ingest verify new_id now p payload raw headers d = Inr (b, d')" and inv: "db_inv d"
  shows "db_inv d' \<and> evolves d d'"
proof -
  obtain e i where ins: "inbox_insert new_id now p e payload headers d = Inr (i, d')"
    using assms(1) by (auto elim: ingest_Inr)
  then have eq: "db_calls d' = db_calls d \<and> db_campaigns d' = db_campaigns d \<and> db_audit d' = db_audit d"
    by (cases rule: inbox_insert_cases) simp_all
  then have "db_inv d' \<longleftrightarrow> db_inv d" by (intro db_inv_cong) simp_all
  with inv eq show ?thesis by (auto intro: evolves_same_tables)
qed

interpretation ingest: db_transaction "\<lambda>_ _. True"
  "\<lambda>a d d'. \<exists>verify new_id now b.
     handle_webhook_ingest verify new_id now (fst a) (fst (snd a)) (fst (snd (snd a))) (snd (snd (snd a))) d =
     Inr (b, d')"
  by unfold_locales (use ingest_inv in blast)+

end
