(* ===== verification/System.thy ===== *)
theory System
  imports Tick_Correct Reclaim_Facts Api_Facts "HOL-Library.Multiset"
begin

text \<open>
  The running service: one scheduler loop, any number of inbox drains and reclaim tasks, and the
  HTTP handlers, interleaved transaction by transaction over one database. A transaction commits
  atomically; between the statements of the tick that are separate transactions, and between the
  two halves of an inbox row (READ COMMITTED), any other actor may commit.
\<close>

section \<open>States and steps\<close>

text \<open>Where the scheduler's coroutine stands: in \<open>wake.wait\<close>, or between two of its transactions.\<close>

datatype sched_pc =
    SchedWaiting
  | SchedSelected campaign_row_with_cursor bool
  | SchedReady campaign_row_with_cursor
  | SchedPlacing campaign_row_with_cursor call_row

record system =
  sy_db :: db
  sy_sched :: sched_pc
  sy_hooks :: "nat \<rightharpoonup> webhook_task"
  sy_stuck :: "call_row list"

definition sys_init :: system where
  "sys_init = \<lparr>sy_db = empty_db, sy_sched = SchedWaiting, sy_hooks = (\<lambda>_. None), sy_stuck = []\<rparr>"

datatype actor =
    Scheduler
  | Hook nat
  | Sweeper
  | Operator
  | Storage

text \<open>The inbox rows that open drain transactions hold (\<open>FOR UPDATE SKIP LOCKED\<close>).\<close>

definition held_rows :: "(nat \<rightharpoonup> webhook_task) \<Rightarrow> uuid \<Rightarrow> bool" where
  "held_rows hooks i \<longleftrightarrow> (\<exists>k task. hooks k = Some task \<and> task_row task = Some i)"

text \<open>The order in which a scan meets the rows of a table may change at any time.\<close>

definition same_rows :: "db \<Rightarrow> db \<Rightarrow> bool" where
  "same_rows d d' \<longleftrightarrow>
     mset (db_calls d') = mset (db_calls d) \<and> mset (db_campaigns d') = mset (db_campaigns d) \<and>
     mset (db_inbox d') = mset (db_inbox d) \<and> db_cursors d' = db_cursors d \<and>
     db_audit d' = db_audit d \<and> db_audit_seq d' = db_audit_seq d"

text \<open>
  The clocks, the jitter, the rows other transactions hold, the provider's answers and the ids drawn
  are free in every step; a transaction that raises rolls back, which is \<open>sched_fails\<close>,
  \<open>hook_fails\<close> or \<open>sweep_fails\<close>.
\<close>

inductive sys_step :: "system \<Rightarrow> actor \<Rightarrow> system \<Rightarrow> bool" where
  select: "sy_sched s = SchedWaiting \<Longrightarrow>
    tick_select zones t now (sy_db s) = (Inr (Picked c b), d') \<Longrightarrow>
    sys_step s Scheduler (s\<lparr>sy_db := d', sy_sched := SchedSelected c b\<rparr>)"
| select_none: "sy_sched s = SchedWaiting \<Longrightarrow> tick_select zones t now (sy_db s) = (r, d') \<Longrightarrow>
    (\<And>c b. r \<noteq> Inr (Picked c b)) \<Longrightarrow> sys_step s Scheduler (s\<lparr>sy_db := d'\<rparr>)"
| requeue: "sy_sched s = SchedSelected c True \<Longrightarrow>
    requeue_oldest_retry_due locked now (cp_id c) (sy_db s) = Inr d' \<Longrightarrow>
    sys_step s Scheduler (s\<lparr>sy_db := d', sy_sched := SchedReady c\<rparr>)"
| no_requeue: "sy_sched s = SchedSelected c False \<Longrightarrow> sys_step s Scheduler (s\<lparr>sy_sched := SchedReady c\<rparr>)"
| claim: "sy_sched s = SchedReady c \<Longrightarrow> dispatch_claim locked now c (sy_db s) = Inr (Some cl, d') \<Longrightarrow>
    sys_step s Scheduler (s\<lparr>sy_db := d', sy_sched := SchedPlacing c cl\<rparr>)"
| claim_none: "sy_sched s = SchedReady c \<Longrightarrow> dispatch_claim locked now c (sy_db s) = Inr (None, d') \<Longrightarrow>
    sys_step s Scheduler (s\<lparr>sy_db := d', sy_sched := SchedWaiting\<rparr>)"
| apply_answer: "sy_sched s = SchedPlacing c cl \<Longrightarrow>
    dispatch_apply fs stg now py u ts c cl answer (sy_db s) = Inr d' \<Longrightarrow>
    sys_step s Scheduler (s\<lparr>sy_db := d', sy_sched := SchedWaiting\<rparr>)"
| sched_fails: "sys_step s Scheduler (s\<lparr>sy_sched := SchedWaiting\<rparr>)"
| hook_plans: "sy_hooks s k = None \<Longrightarrow>
    webhook_plan pe fs stg (held_rows (sy_hooks s)) (sy_db s) = Inr task \<Longrightarrow>
    sys_step s (Hook k) (s\<lparr>sy_hooks := (sy_hooks s)(k \<mapsto> task)\<rparr>)"
| hook_commits: "sy_hooks s k = Some task \<Longrightarrow>
    webhook_commit now py u task (sy_db s) = Inr (oc, d') \<Longrightarrow>
    sys_step s (Hook k) (s\<lparr>sy_db := d', sy_hooks := (sy_hooks s)(k := None)\<rparr>)"
| hook_fails: "sys_step s (Hook k) (s\<lparr>sy_hooks := (sy_hooks s)(k := None)\<rparr>)"
| sweep_reads: "sys_step s Sweeper
    (s\<lparr>sy_stuck := sy_stuck s @ find_stuck_dialing now secs (sy_db s)\<rparr>)"
| sweep_row: "row \<in> set (sy_stuck s) \<Longrightarrow>
    reclaim_one_inner gs now row (sy_db s) = Inr (ro, d') \<Longrightarrow>
    sys_step s Sweeper (s\<lparr>sy_db := d', sy_stuck := remove1 row (sy_stuck s)\<rparr>)"
| sweep_fails: "row \<in> set (sy_stuck s) \<Longrightarrow>
    sys_step s Sweeper (s\<lparr>sy_stuck := remove1 row (sy_stuck s)\<rparr>)"
| create: "create_ready body ids \<Longrightarrow>
    create_campaign_txn mio stg cid ids now body (sy_db s) = Inr (row, d') \<Longrightarrow>
    sys_step s Operator (s\<lparr>sy_db := d'\<rparr>)"
| ingest: "handle_webhook_ingest verify i now p payload raw headers (sy_db s) = Inr (b, d') \<Longrightarrow>
    sys_step s Operator (s\<lparr>sy_db := d'\<rparr>)"
| age: "age_dialing stg now i secs (sy_db s) = Inr (ts, d') \<Longrightarrow>
    sys_step s Operator (s\<lparr>sy_db := d'\<rparr>)"
| reorder: "same_rows (sy_db s) d' \<Longrightarrow> sys_step s Storage (s\<lparr>sy_db := d'\<rparr>)"

inductive_cases hook_stepE: "sys_step s (Hook k) s'"
inductive_cases sweeper_stepE: "sys_step s Sweeper s'"

inductive sys_steps :: "system \<Rightarrow> system \<Rightarrow> bool" where
  steps_refl: "sys_steps s s"
| steps_step: "sys_steps s t \<Longrightarrow> sys_step t a u \<Longrightarrow> sys_steps s u"

definition reachable :: "system \<Rightarrow> bool" where
  "reachable s \<longleftrightarrow> sys_steps sys_init s"

section \<open>Reordered tables\<close>

lemma same_rows_sets:
  assumes "same_rows d d'"
  shows "set (db_calls d') = set (db_calls d)" "set (db_campaigns d') = set (db_campaigns d)"
    "set (db_inbox d') = set (db_inbox d)"
  using assms unfolding same_rows_def by (metis mset_eq_setD)+

lemma distinct_map_mset: "mset xs = mset ys \<Longrightarrow> distinct (map f xs) \<longleftrightarrow> distinct (map f ys)"
  by (metis mset_eq_imp_distinct_iff mset_map)

lemma same_rows_inv:
  assumes "same_rows d d'" and "db_inv d"
  shows "db_inv d' \<and> evolves d d'"
proof -
  note sets = same_rows_sets [OF assms(1)]
  have m: "mset (db_calls d') = mset (db_calls d)" "mset (db_campaigns d') = mset (db_campaigns d)"
    "db_audit d' = db_audit d" using assms(1) by (simp_all add: same_rows_def)
  have "mset (filter in_phone_index (db_calls d')) = mset (filter in_phone_index (db_calls d))"
    using m(1) by simp
  then have "keys_ok d'"
    using db_invD(4) [OF assms(2)] distinct_map_mset [OF m(1), of cl_id]
      distinct_map_mset [OF m(2), of cp_id]
      distinct_map_mset [of "filter in_phone_index (db_calls d')" "filter in_phone_index (db_calls d)" cl_phone]
    by (simp add: keys_ok_def phone_index_ok_def campaign_exists_def sets)
  moreover have "audit_ok d'" using db_invD(5) [OF assms(2)] by (simp add: audit_ok_def sets m(3))
  moreover have "set (calls_of d' i) = set (calls_of d i)" for i by (simp add: calls_of_def sets)
  then have "campaign_ok d' c \<longleftrightarrow> campaign_ok d c" for c by (simp add: campaign_ok_def)
  ultimately have "db_inv d'" using assms(2) by (simp add: db_inv_def sets)
  moreover have "evolves d d'"
    unfolding evolves_def sets by (metis row_evolves_refl campaign_evolves_refl)
  ultimately show ?thesis by blast
qed

section \<open>The invariant\<close>

definition sched_ok :: "sched_pc \<Rightarrow> db \<Rightarrow> bool" where
  "sched_ok pc d =
     (case pc of
        SchedWaiting \<Rightarrow> True
      | SchedSelected c b \<Rightarrow> snapshot_ok c d
      | SchedReady c \<Rightarrow> snapshot_ok c d
      | SchedPlacing c cl \<Rightarrow> snapshot_ok c d)"

definition sys_inv :: "system \<Rightarrow> bool" where
  "sys_inv s \<longleftrightarrow>
     db_inv (sy_db s) \<and> sched_ok (sy_sched s) (sy_db s) \<and>
     (\<forall>k task. sy_hooks s k = Some task \<longrightarrow> task_ready task (sy_db s))"

lemma sched_ok_evolves: "sched_ok pc d \<Longrightarrow> evolves d d' \<Longrightarrow> db_inv d' \<Longrightarrow> sched_ok pc d'"
  by (auto simp: sched_ok_def intro: snapshot_ok_evolves split: sched_pc.splits)

text \<open>A step that only moves the database keeps what every actor knows.\<close>

lemma sys_inv_db:
  assumes "sys_inv s" and "db_inv d' \<and> evolves (sy_db s) d'" and "sched_ok pc d'"
    and "\<And>k task. hooks k = Some task \<Longrightarrow> sy_hooks s k = Some task"
  shows "sys_inv (s\<lparr>sy_db := d', sy_sched := pc, sy_hooks := hooks\<rparr>)"
proof -
  have "task_ready task d'" if "hooks k = Some task" for k task
    using assms(1,2) assms(4) [OF that] by (auto simp: sys_inv_def dest: task_ready_evolves)
  with assms(2,3) show ?thesis by (simp add: sys_inv_def)
qed

text \<open>Every step is a transaction of the database or none.\<close>

lemma sys_step_db:
  assumes "sys_step s a s'" and "sys_inv s"
  shows "db_inv (sy_db s') \<and> evolves (sy_db s) (sy_db s')"
  using assms
proof (cases rule: sys_step.cases)
  case (select zones t now c b d')
  with assms(2) tick_select_inv [of "sy_db s" zones t now] show ?thesis by (simp add: sys_inv_def)
next
  case (select_none zones t now r d')
  with assms(2) tick_select_inv [of "sy_db s" zones t now] show ?thesis by (simp add: sys_inv_def)
next
  case (requeue c locked now d')
  with assms(2) show ?thesis by (auto simp: sys_inv_def dest: requeue_inv)
next
  case (claim c locked now cl d')
  with assms(2) show ?thesis by (auto simp: sys_inv_def sched_ok_def dest!: dispatch_claim_inv)
next
  case (claim_none c locked now d')
  with assms(2) show ?thesis by (auto simp: sys_inv_def sched_ok_def dest!: dispatch_claim_inv)
next
  case (apply_answer c cl fs stg now py u ts answer d')
  with assms(2) show ?thesis by (auto simp: sys_inv_def dest: dispatch_apply_inv)
next
  case (hook_commits k task now py u oc d')
  with assms(2) show ?thesis by (auto simp: sys_inv_def dest!: webhook_commit_inv)
next
  case (sweep_row row gs now ro d')
  with assms(2) show ?thesis by (auto simp: sys_inv_def dest: reclaim_one_inner_inv)
next
  case (create body ids mio stg cid now row d')
  with assms(2) show ?thesis by (auto simp: sys_inv_def dest: create_campaign_txn_inv)
next
  case (ingest verify i now p payload raw headers b d')
  with assms(2) show ?thesis by (auto simp: sys_inv_def dest: ingest_inv)
next
  case (age stg now i secs ts d')
  with assms(2) show ?thesis by (auto simp: sys_inv_def dest: age_dialing_inv)
next
  case (reorder d')
  with assms(2) show ?thesis by (auto simp: sys_inv_def dest: same_rows_inv)
qed (use assms(2) in \<open>simp_all add: sys_inv_def\<close>)

text \<open>What the scheduler knows after its own steps.\<close>

lemma sched_step_ok:
  assumes "sys_step s a s'" and "sys_inv s"
  shows "sched_ok (sy_sched s') (sy_db s')"
proof -
  have evo: "sched_ok (sy_sched s) (sy_db s')"
    using sys_step_db [OF assms] assms(2) by (auto simp: sys_inv_def intro: sched_ok_evolves)
  from assms(1) show ?thesis
  proof (cases rule: sys_step.cases)
    case (select zones t now c b d')
    obtain x where "snapshot_ok c (sy_db s)"
      using selected_campaign [OF select(4)] assms(2) by (auto simp: sys_inv_def)
    with select sys_step_db [OF assms] show ?thesis
      by (auto simp: sched_ok_def intro: snapshot_ok_evolves)
  next
    case (claim c locked now cl d')
    with evo show ?thesis by (simp add: sched_ok_def)
  qed (use evo in \<open>simp_all add: sched_ok_def\<close>)
qed

lemma hook_step_ok:
  assumes "sys_step s a s'" and "sys_inv s" and "sy_hooks s' k = Some task"
  shows "task_ready task (sy_db s')"
proof -
  note db = sys_step_db [OF assms(1,2)]
  have old: "task_ready task (sy_db s')" if "sy_hooks s k = Some task"
    using that assms(2) db by (auto simp: sys_inv_def dest: task_ready_evolves)
  from assms(1) show ?thesis
  proof (cases rule: sys_step.cases)
    case (hook_plans j pe fs stg new_task)
    with assms(2,3) old webhook_plan_ready [OF hook_plans(4)] show ?thesis
      by (auto simp: sys_inv_def split: if_splits)
  qed (use old assms(3) in \<open>auto split: if_splits\<close>)
qed

lemma sys_inv_step:
  assumes "sys_step s a s'" and "sys_inv s"
  shows "sys_inv s'"
  using sys_step_db [OF assms] sched_step_ok [OF assms] hook_step_ok [OF assms]
  by (simp add: sys_inv_def)

lemma sys_inv_init: "sys_inv sys_init"
  by (simp add: sys_inv_def sys_init_def db_inv_empty sched_ok_def)

lemma sys_steps_inv: "sys_steps s t \<Longrightarrow> sys_inv s \<Longrightarrow> sys_inv t \<and> evolves (sy_db s) (sy_db t)"
proof (induction rule: sys_steps.induct)
  case (steps_step s t a u)
  with sys_inv_step sys_step_db show ?case by (blast intro: evolves_trans)
qed simp

lemma reachable_inv: "reachable s \<Longrightarrow> sys_inv s"
  using sys_steps_inv sys_inv_init by (auto simp: reachable_def)

lemma reachable_db_inv: "reachable s \<Longrightarrow> db_inv (sy_db s)"
  using reachable_inv by (auto simp: sys_inv_def)

text \<open>A run of the service from any good state is itself one evolution of the rows.\<close>

interpretation service: db_transaction "\<lambda>s d. sys_inv s \<and> sy_db s = d"
  "\<lambda>s d d'. \<exists>t. sys_steps s t \<and> d' = sy_db t"
proof unfold_locales
  fix d :: db and s :: system and d' :: db
  assume "sys_inv s \<and> sy_db s = d" and "\<exists>t. sys_steps s t \<and> d' = sy_db t"
  then obtain t where t: "sys_inv s" "sy_db s = d" "sys_steps s t" "d' = sy_db t" by blast
  from sys_steps_inv [OF t(3,1)] t show "db_inv d'" and "evolves d d'" by (auto simp: sys_inv_def)
qed

section \<open>The inbox under interleaving\<close>

definition held_ok :: "system \<Rightarrow> bool" where
  "held_ok s \<longleftrightarrow>
     inbox_ok (sy_db s) \<and>
     (\<forall>k task i. sy_hooks s k = Some task \<longrightarrow> task_row task = Some i \<longrightarrow>
        (\<exists>r \<in> set (db_inbox (sy_db s)). ib_id r = i \<and> ib_processed_at r = None)) \<and>
     (\<forall>j k t t' i. sy_hooks s j = Some t \<longrightarrow> sy_hooks s k = Some t' \<longrightarrow>
        task_row t = Some i \<longrightarrow> task_row t' = Some i \<longrightarrow> j = k)"

lemma same_inbox:
  assumes "sys_step s a s'" and "sys_inv s" and "a = Scheduler \<or> a = Sweeper"
  shows "db_inbox (sy_db s') = db_inbox (sy_db s)" and "sy_hooks s' = sy_hooks s"
proof -
  have keys: "keys_ok (sy_db s)" and inv: "db_inv (sy_db s)"
    using assms(2) by (auto simp: sys_inv_def db_inv_def)
  have quiet: "db_inbox d' = db_inbox (sy_db s)"
    if "tick_select zones t now (sy_db s) = (r, d')" for zones t now r d'
    using tick_select_quiet [of "sy_db s" zones t now] that by (simp add: only_quiet_rows_added_def)
  have "db_inbox (sy_db s') = db_inbox (sy_db s) \<and> sy_hooks s' = sy_hooks s"
    using assms(1)
  proof (cases rule: sys_step.cases)
    case (requeue c locked now d')
    from requeue(4) show ?thesis
      by (cases rule: requeue_cases) (use requeue(2) in \<open>auto dest: transition_frame [OF _ keys]\<close>)
  next
    case (claim c locked now cl d')
    with inv show ?thesis
      by (cases rule: dispatch_claim_cases [where locked = locked and now = now and campaign = c])
        (auto split: if_splits)
  next
    case (claim_none c locked now d')
    with inv show ?thesis
      by (cases rule: dispatch_claim_cases [where locked = locked and now = now and campaign = c])
        (auto split: if_splits)
  next
    case (apply_answer c cl fs stg now py u ts answer d')
    from apply_answer(4) show ?thesis
    proof (cases rule: dispatch_apply_cases)
      case (1 base res d1)
      then have "db_inbox d1 = db_inbox (sy_db s)"
        by (auto simp: apply_outcome_def bind_res_Inr_iff split: place_outcome.splits if_splits
            dest!: transition_frame [OF _ keys])
      with 1(3) apply_answer(2) show ?thesis by (auto simp: update_last_dispatch_at_def split: if_splits)
    qed
  next
    case (sweep_row row gs now ro d')
    from sweep_row(4) show ?thesis
      by (cases rule: reclaim_one_inner_cases)
        (use sweep_row(2) in \<open>auto dest: transition_frame [OF _ keys]\<close>)
  qed (use assms(3) quiet in auto)
  then show "db_inbox (sy_db s') = db_inbox (sy_db s)" and "sy_hooks s' = sy_hooks s" by simp_all
qed

text \<open>A step that only adds rows to the inbox, or none, keeps every held row unprocessed.\<close>

lemma held_ok_grow:
  assumes "held_ok s" and "inbox_ok d'" and "set (db_inbox (sy_db s)) \<subseteq> set (db_inbox d')"
    and "sy_db s' = d'" and "sy_hooks s' = sy_hooks s"
  shows "held_ok s'"
  using assms by (simp add: held_ok_def) (meson subsetD)

lemma held_ok_plan:
  assumes held: "held_ok s" and plan: "webhook_plan pe fs stg (held_rows (sy_hooks s)) (sy_db s) = Inr task"
    and free: "sy_hooks s k = None"
  shows "held_ok (s\<lparr>sy_hooks := (sy_hooks s)(k \<mapsto> task)\<rparr>)"
proof -
  have row: "(\<exists>r \<in> set (db_inbox (sy_db s)). ib_id r = i \<and> ib_processed_at r = None) \<and>
      \<not> held_rows (sy_hooks s) i" if here: "task_row task = Some i" for i
  proof -
    obtain r where "claim_unprocessed_one (held_rows (sy_hooks s)) (sy_db s) = Some r" "ib_id r = i"
      using webhook_plan_row [OF plan] here
      by (cases "claim_unprocessed_one (held_rows (sy_hooks s)) (sy_db s)") auto
    with claim_unprocessed_Some show ?thesis by blast
  qed
  have "sy_hooks s j = Some t \<Longrightarrow> task_row t = Some i \<Longrightarrow> task_row task \<noteq> Some i" for j t i
    using row by (auto simp: held_rows_def)
  with held row show ?thesis
    unfolding held_ok_def by (auto split: if_splits)
qed

lemma held_ok_commit:
  assumes held: "held_ok s" and inv: "sys_inv s" and hook: "sy_hooks s k = Some task"
    and run: "webhook_commit now py u task (sy_db s) = Inr (oc, d')"
  shows "held_ok (s\<lparr>sy_db := d', sy_hooks := (sy_hooks s)(k := None)\<rparr>)"
proof (cases "task_row task")
  case None
  have "keys_ok (sy_db s)" using inv by (auto simp: sys_inv_def db_inv_def)
  from webhook_commit_inbox(1) [OF run this] None have "db_inbox d' = db_inbox (sy_db s)" by simp
  with held inbox_ok_cong [OF this] show ?thesis unfolding held_ok_def by auto
next
  case (Some i)
  have "keys_ok (sy_db s)" using inv by (auto simp: sys_inv_def db_inv_def)
  from webhook_commit_inbox(1) [OF run this] Some
  have inbox: "db_inbox d' = db_inbox (mark_processed now i (sy_db s))" by simp
  have "inbox_ok d'" using held inbox_ok_cong [OF inbox] by (simp add: held_ok_def)
  moreover have "\<exists>r \<in> set (db_inbox d'). ib_id r = m \<and> ib_processed_at r = None"
    if other: "sy_hooks s j = Some t" "j \<noteq> k" "task_row t = Some m" for j t m
  proof -
    have "m \<noteq> i" using held hook Some other unfolding held_ok_def by blast
    moreover obtain r where "r \<in> set (db_inbox (sy_db s))" "ib_id r = m" "ib_processed_at r = None"
      using held other unfolding held_ok_def by blast
    ultimately show ?thesis
      unfolding inbox by (auto simp: in_mark_processed intro!: exI [of _ r] bexI [of _ r])
  qed
  ultimately show ?thesis using held unfolding held_ok_def by (auto split: if_splits)
qed

lemma held_ok_step:
  assumes "sys_step s a s'" and inv: "sys_inv s" and held: "held_ok s"
  shows "held_ok s'"
proof (cases "a = Scheduler \<or> a = Sweeper")
  case True
  note same = same_inbox [OF assms(1) inv True]
  from inbox_ok_cong [OF same(1)] held have "inbox_ok (sy_db s')" by (simp add: held_ok_def)
  from held_ok_grow [OF held this _ refl same(2)] same(1) show ?thesis by simp
next
  case False
  from assms(1) show ?thesis
  proof (cases rule: sys_step.cases)
    case (hook_plans k pe fs stg task)
    with held_ok_plan [OF held] show ?thesis by simp
  next
    case (hook_commits k task now py u oc d')
    with held_ok_commit [OF held inv] show ?thesis by simp
  next
    case (hook_fails k)
    with held show ?thesis unfolding held_ok_def by auto
  next
    case (create body ids mio stg cid now row d')
    have "db_inbox d' = db_inbox (sy_db s)" using create_campaign_txn_cases(6) [OF create(4,3)] by simp
    from inbox_ok_cong [OF this] held_ok_grow [OF held, of d' s'] this create(2) held show ?thesis
      by (simp add: held_ok_def)
  next
    case (ingest verify i now p payload raw headers b d')
    then obtain e j where ins: "inbox_insert i now p e payload headers (sy_db s) = Inr (j, d')"
      by (auto elim: ingest_Inr)
    have "inbox_ok d'" using inbox_insert_ok [OF ins] held by (simp add: held_ok_def)
    moreover from ins have "set (db_inbox (sy_db s)) \<subseteq> set (db_inbox d')"
      by (cases rule: inbox_insert_cases) auto
    ultimately show ?thesis using held_ok_grow [OF held, of d' s'] ingest(2) by simp
  next
    case (age stg now i secs ts d')
    have "db_inbox d' = db_inbox (sy_db s)"
    proof -
      have "keys_ok (sy_db s)" using inv by (auto simp: sys_inv_def db_inv_def)
      with age(3) show ?thesis by (cases rule: age_dialing_cases) simp_all
    qed
    from inbox_ok_cong [OF this] held_ok_grow [OF held, of d' s'] this age(2) held show ?thesis
      by (simp add: held_ok_def)
  next
    case (reorder d')
    have "inbox_ok d'"
      using held reorder(3) distinct_map_mset [of "db_inbox d'" "db_inbox (sy_db s)" ib_id]
        distinct_map_mset [of "db_inbox d'" "db_inbox (sy_db s)" "\<lambda>r. (ib_provider r, ib_provider_event_id r)"]
      by (simp add: held_ok_def inbox_ok_def same_rows_def)
    then show ?thesis using held_ok_grow [OF held, of d' s'] same_rows_sets(3) [OF reorder(3)] reorder(2) by simp
  qed (use False in simp_all)
qed

lemma reachable_held: "reachable s \<Longrightarrow> held_ok s"
proof -
  have "sys_steps s t \<Longrightarrow> sys_inv s \<Longrightarrow> held_ok s \<Longrightarrow> held_ok t" for s t
  proof (induction rule: sys_steps.induct)
    case (steps_step s t a u)
    with sys_steps_inv held_ok_step show ?case by blast
  qed simp
  moreover have "held_ok sys_init"
    by (simp add: held_ok_def sys_init_def inbox_ok_def empty_db_def)
  ultimately show "reachable s \<Longrightarrow> held_ok s" using sys_inv_init by (auto simp: reachable_def)
qed

end
