(* ===== verification/System_Cap.thy ===== *)
theory System_Cap
  imports System
begin

text \<open>
  The concurrency cap of the running service. The scheduler's gate reads the number of calls in
  flight several transactions before it claims, so a selected campaign carries one reserved slot;
  no step of any actor takes a campaign above its cap, with one exception: a webhook that moves a
  call which is not in flight into \<open>DIALING\<close> or \<open>IN_PROGRESS\<close>.
\<close>

section \<open>Campaign ids\<close>

lemma rollup_ids [simp]:
  "map cp_id (db_campaigns (maybe_transition_campaign_terminal now cid d)) = map cp_id (db_campaigns d)"
  by (simp add: maybe_transition_campaign_terminal_def campaign_transition_if_def Let_def map_update_where)

lemma promote_ids [simp]:
  "map cp_id (db_campaigns (maybe_promote_to_active now cid d)) = map cp_id (db_campaigns d)"
  by (simp add: maybe_promote_to_active_def campaign_transition_if_def Let_def map_update_where)

lemma move_call_ids [simp]:
  "map cp_id (db_campaigns (move_call now r ev d)) = map cp_id (db_campaigns d)"
  by (simp add: move_call_def Let_def)

lemma transition_ids:
  assumes "transition now i e n ep ne et reason extra cols d = Inr (res, d')" and "keys_ok d"
  shows "map cp_id (db_campaigns d') = map cp_id (db_campaigns d)"
  using assms by (cases rule: transition_outcome) simp_all

lemma apply_retryable_ids:
  assumes "apply_retryable_outcome now py u i e ep rr oc base pre d = Inr (res, d')" and "keys_ok d"
  shows "map cp_id (db_campaigns d') = map cp_id (db_campaigns d)"
  using assms(1) by (cases rule: apply_retryable_outcome_cases) (auto dest: transition_ids [OF _ assms(2)])

lemma apply_outcome_ids:
  assumes "apply_outcome now py u base cl oc d = Inr (res, d')" and "keys_ok d"
  shows "map cp_id (db_campaigns d') = map cp_id (db_campaigns d)"
  using assms(1)
  by (auto simp: apply_outcome_def bind_res_Inr_iff split: place_outcome.splits if_splits
      dest!: transition_ids [OF _ assms(2)])

lemma finish_event_tables:
  assumes "finish_event now row event call (res, d) = (oc, d')"
  shows "db_calls d' = db_calls d" and "db_campaigns d' = db_campaigns d"
  using assms by (auto simp: finish_event_def split: if_splits)

lemma webhook_commit_ids:
  assumes "webhook_commit now py u task d = Inr (oc, d')" and "keys_ok d"
  shows "map cp_id (db_campaigns d') = map cp_id (db_campaigns d)"
  using assms(1)
proof (cases rule: webhook_commit_cases)
  case (term_event row event call base res d1)
  with apply_retryable_ids [OF term_event(2) assms(2)] finish_event_tables [OF term_event(3)] show ?thesis by simp
next
  case (intermediate row event call res d1)
  with transition_ids [OF intermediate(2) assms(2)] finish_event_tables [OF intermediate(3)] show ?thesis by simp
qed simp_all

section \<open>Calls in flight\<close>

definition late_event :: "webhook_task \<Rightarrow> bool" where
  "late_event task =
     (case task of
        IntermediateEvent row event call \<Rightarrow>
          pe_status_enum event \<in> {DIALING, IN_PROGRESS} \<and> cl_status call \<notin> {DIALING, IN_PROGRESS}
      | _ \<Rightarrow> False)"

lemma apply_retryable_in_flight:
  assumes "apply_retryable_outcome now py u i e ep rr oc base pre d = Inr (res, d')" and "keys_ok d"
  shows "in_flight_count d' j \<le> in_flight_count d j"
  using assms(1)
  by (cases rule: apply_retryable_outcome_cases) (auto dest!: transition_in_flight_le [OF _ assms(2), where i = j])

lemma webhook_commit_in_flight:
  assumes "webhook_commit now py u task d = Inr (oc, d')" and "keys_ok d" and "\<not> late_event task"
  shows "in_flight_count d' j \<le> in_flight_count d j"
  using assms(1)
proof (cases rule: webhook_commit_cases)
  case (unknown row event)
  then have "db_calls d' = db_calls d" by simp
  from in_flight_cong [OF this] show ?thesis by simp
next
  case (same row)
  then have "db_calls d' = db_calls d" by simp
  from in_flight_cong [OF this] show ?thesis by simp
next
  case (term_event row event call base res d1)
  from apply_retryable_in_flight [OF term_event(2) assms(2), of j]
    in_flight_cong [OF finish_event_tables(1) [OF term_event(3)]] show ?thesis by simp
next
  case (intermediate row event call res d1)
  have "in_flight_count d1 j \<le> in_flight_count d j"
    using assms(3) intermediate(1)
    by (intro transition_in_flight_le [OF intermediate(2) assms(2)]) (auto simp: late_event_def)
  with in_flight_cong [OF finish_event_tables(1) [OF intermediate(3)]] show ?thesis by simp
qed simp

lemma reclaim_in_flight:
  assumes "reclaim_one_inner gs now row d = Inr (ro, d')" and "keys_ok d"
  shows "in_flight_count d' j \<le> in_flight_count d j"
    and "map cp_id (db_campaigns d') = map cp_id (db_campaigns d)"
proof -
  have "in_flight_count d' j \<le> in_flight_count d j \<and>
        map cp_id (db_campaigns d') = map cp_id (db_campaigns d)"
    using assms(1)
  proof (cases rule: reclaim_one_inner_cases)
    case (confirmed s res)
    from transition_in_flight_le [OF confirmed(3) assms(2)] transition_ids [OF confirmed(3) assms(2)]
    show ?thesis by simp
  next
    case (unknown res)
    from transition_in_flight_le [OF unknown(2) assms(2)] transition_ids [OF unknown(2) assms(2)]
    show ?thesis by simp
  qed
  then show "in_flight_count d' j \<le> in_flight_count d j"
    and "map cp_id (db_campaigns d') = map cp_id (db_campaigns d)" by simp_all
qed

lemma count_status_mset:
  "mset (db_calls d') = mset (db_calls d) \<Longrightarrow> count_status S d' i = count_status S d i"
  unfolding count_status_def count_where_def by (metis mset_filter size_mset)

lemma create_in_flight:
  assumes "create_campaign_txn mio stg cid ids now body d = Inr (row, d')" and "create_ready body ids"
  shows "in_flight_count d' j = in_flight_count d j"
proof -
  note c = create_campaign_txn_cases [OF assms]
  have "count_where (\<lambda>r. cl_campaign_id r = j \<and> cl_status r \<in> {DIALING, IN_PROGRESS})
      (created_calls cid ids now body) = 0"
    using created_calls_mem(2) [of _ cid ids now body] by (auto simp: count_where_0_iff)
  then show ?thesis by (simp add: c(6) in_flight_count_def count_status_def)
qed

lemma age_in_flight:
  assumes "age_dialing stg now i secs d = Inr (ts, d')" and inv: "db_inv d"
  shows "in_flight_count d' j = in_flight_count d j"
  using assms(1) db_invD(4) [OF inv]
proof (cases rule: age_dialing_cases)
  case (1 r)
  let ?r = "r\<lparr>cl_updated_at := now - secs * 1000000\<rparr>"
  have "in_flight_count d' j = in_flight_count (put_row ?r d) j" by (rule in_flight_cong) (simp add: 1(4))
  with put_row_count [OF db_invD(1) [OF inv] 1(1), of ?r "\<lambda>s. s \<in> {DIALING, IN_PROGRESS}" j]
  show ?thesis by (simp add: in_flight_count_def)
qed

section \<open>The cap\<close>

definition reserved :: "sched_pc \<Rightarrow> uuid \<Rightarrow> int" where
  "reserved pc i =
     (case pc of
        SchedSelected c b \<Rightarrow> (if cp_id c = i then 1 else 0)
      | SchedReady c \<Rightarrow> (if cp_id c = i then 1 else 0)
      | _ \<Rightarrow> 0)"

definition cap_ok :: "system \<Rightarrow> bool" where
  "cap_ok s \<longleftrightarrow>
     (\<forall>x \<in> set (db_campaigns (sy_db s)).
        in_flight_count (sy_db s) (cp_id x) + reserved (sy_sched s) (cp_id x) \<le> cp_max_concurrent x)"

text \<open>A step that changes no campaign's cap and takes no more slots than it gives back.\<close>

lemma cap_ok_mono:
  assumes cap: "cap_ok s" and inv: "db_inv (sy_db s)" and evo: "evolves (sy_db s) (sy_db s')"
    and inv': "db_inv (sy_db s')"
    and ids: "set (map cp_id (db_campaigns (sy_db s'))) \<subseteq> set (map cp_id (db_campaigns (sy_db s)))"
    and slots: "\<And>i. in_flight_count (sy_db s') i + reserved (sy_sched s') i \<le>
                     in_flight_count (sy_db s) i + reserved (sy_sched s) i"
  shows "cap_ok s'"
  unfolding cap_ok_def
proof
  fix x' assume x': "x' \<in> set (db_campaigns (sy_db s'))"
  then obtain x where x: "x \<in> set (db_campaigns (sy_db s))" "cp_id x = cp_id x'" using ids by auto
  then obtain y where y: "y \<in> set (db_campaigns (sy_db s'))" "campaign_evolves x y"
    using evo by (auto simp: evolves_def)
  have "cp_id y = cp_id x'" using campaign_evolves_id [OF y(2)] x(2) by simp
  then have "y = x'" using campaign_key_eq [OF db_invD(2) [OF inv'] y(1) x'] by simp
  then have "cp_max_concurrent x' = cp_max_concurrent x"
    using y(2) unfolding campaign_evolves_def
    by (metis campaign_row.select_convs(6) campaign_row.surjective campaign_row.update_convs(3,9))
  with slots [of "cp_id x'"] cap x show
    "in_flight_count (sy_db s') (cp_id x') + reserved (sy_sched s') (cp_id x') \<le> cp_max_concurrent x'"
    by (fastforce simp: cap_ok_def)
qed

lemma quiet_slots:
  assumes "tick_select zones t now d = (r, d')"
  shows "in_flight_count d' i = in_flight_count d i" and "db_campaigns d' = db_campaigns d"
  using tick_select_quiet [of d zones t now] assms
  by (simp_all add: only_quiet_rows_added_def in_flight_count_def count_status_def)

lemma cap_ok_select:
  assumes cap: "cap_ok s" and inv: "sys_inv s" and pc: "sy_sched s = SchedWaiting"
    and run: "tick_select zones t now (sy_db s) = (Inr (Picked c b), d')"
  shows "cap_ok (s\<lparr>sy_db := d', sy_sched := SchedSelected c b\<rparr>)"
proof -
  have db: "db_inv (sy_db s)" using inv by (simp add: sys_inv_def)
  obtain x where x: "x \<in> set (db_campaigns (sy_db s))" "c = with_cursor (sy_db s) x"
      "in_flight_count (sy_db s) (cp_id x) < cp_max_concurrent x"
    using selected_campaign [OF run db] by blast
  note counts = quiet_slots [OF run]
  have "in_flight_count (sy_db s) (cp_id y) + reserved (SchedSelected c b) (cp_id y) \<le> cp_max_concurrent y"
    if y: "y \<in> set (db_campaigns (sy_db s))" for y
  proof (cases "cp_id y = cp_id x")
    case True
    then have "y = x" by (rule campaign_key_eq [OF db_invD(2) [OF db] y x(1)])
    with x show ?thesis by (simp add: reserved_def)
  next
    case False
    with y x(2) cap pc show ?thesis by (auto simp: cap_ok_def reserved_def)
  qed
  then show ?thesis by (simp add: cap_ok_def counts)
qed

lemma create_row_positive:
  "create_campaign_txn mio stg cid ids now body d = Inr (row, d') \<Longrightarrow> create_ready body ids \<Longrightarrow>
   0 < cp_max_concurrent (created_campaign mio stg cid now body)"
  using create_campaign_txn_cases(2) by (simp add: created_campaign_def)

lemma cap_ok_create:
  assumes cap: "cap_ok s" and inv: "sys_inv s" and ready: "create_ready body ids"
    and run: "create_campaign_txn mio stg cid ids now body (sy_db s) = Inr (row, d')"
  shows "cap_ok (s\<lparr>sy_db := d'\<rparr>)"
proof -
  note c = create_campaign_txn_cases [OF run ready]
  have db: "db_inv (sy_db s)" using inv by (simp add: sys_inv_def)
  have "in_flight_count (sy_db s) cid = 0"
    using db_invD(7) [OF db] c(1) by (auto simp: in_flight_count_def count_status_def count_where_0_iff)
  moreover have "reserved (sy_sched s) cid = 0"
    using inv c(1) by (auto simp: sys_inv_def sched_ok_def reserved_def snapshot_ok_def split: sched_pc.splits)
  ultimately show ?thesis
    using cap create_row_positive [OF run ready] create_in_flight [OF run ready]
    by (auto simp: cap_ok_def c(6))
qed

text \<open>The steps that hold to the rule: no drain is about to apply a late event.\<close>

definition orderly :: "system \<Rightarrow> bool" where
  "orderly s \<longleftrightarrow> (\<forall>k task. sy_hooks s k = Some task \<longrightarrow> \<not> late_event task)"

lemma cap_ok_step:
  assumes step: "sys_step s a s'" and inv: "sys_inv s" and cap: "cap_ok s" and ord: "orderly s"
  shows "cap_ok s'"
proof -
  have db: "db_inv (sy_db s)" and keys: "keys_ok (sy_db s)"
    and snap: "sched_ok (sy_sched s) (sy_db s)" using inv by (auto simp: sys_inv_def db_inv_def)
  note mono = cap_ok_mono [OF cap db _ _ _ _, of s'] and db' = sys_step_db [OF step inv]
  have mono: "cap_ok s'"
    if "set (map cp_id (db_campaigns (sy_db s'))) \<subseteq> set (map cp_id (db_campaigns (sy_db s)))"
      and "\<And>i. in_flight_count (sy_db s') i + reserved (sy_sched s') i \<le>
                in_flight_count (sy_db s) i + reserved (sy_sched s) i"
    using cap_ok_mono [OF cap db _ _ that] db' by blast
  from step show ?thesis
  proof (cases rule: sys_step.cases)
    case (select zones t now c b d')
    with cap_ok_select [OF cap inv] show ?thesis by simp
  next
    case (select_none zones t now r d')
    from quiet_slots [OF select_none(4)] select_none(2) show ?thesis by (intro mono) simp_all
  next
    case (requeue c locked now d')
    have "map cp_id (db_campaigns d') = map cp_id (db_campaigns (sy_db s))"
      using requeue(4) by (cases rule: requeue_cases) (auto dest: transition_ids [OF _ keys])
    then show ?thesis
      using requeue requeue_in_flight [OF requeue(4) keys] by (intro mono) (simp_all add: reserved_def)
  next
    case (claim c locked now cl d')
    have ids: "map cp_id (db_campaigns d') = map cp_id (db_campaigns (sy_db s))"
      using db by (cases rule: dispatch_claim_cases [where locked = locked and now = now and campaign = c])
        (use claim(4) in \<open>auto split: if_splits\<close>)
    show ?thesis
    proof (rule mono)
      show "set (map cp_id (db_campaigns (sy_db s'))) \<subseteq> set (map cp_id (db_campaigns (sy_db s)))"
        using claim(2) ids by simp
      show "in_flight_count (sy_db s') i + reserved (sy_sched s') i \<le>
            in_flight_count (sy_db s) i + reserved (sy_sched s) i" for i
        using dispatch_claim_in_flight [OF claim(4) db, of i] claim(2,3)
        by (simp add: reserved_def split: if_splits)
    qed
  next
    case (claim_none c locked now d')
    have "d' = sy_db s"
      using db by (cases rule: dispatch_claim_cases [where locked = locked and now = now and campaign = c])
        (use claim_none(4) in auto)
    with claim_none show ?thesis by (intro mono) (simp_all add: reserved_def)
  next
    case (apply_answer c cl fs stg now py u ts answer d')
    from apply_answer(4) show ?thesis
    proof (cases rule: dispatch_apply_cases)
      case (1 base res d1)
      have "db_calls d' = db_calls d1 \<and> db_campaigns d' = db_campaigns d1"
        using 1(3) by (auto simp: update_last_dispatch_at_def split: if_splits)
      with apply_outcome_in_flight [OF 1(2) keys] in_flight_cong [of d' d1]
        apply_outcome_ids [OF 1(2) keys] apply_answer show ?thesis
        by (intro mono) (simp_all add: reserved_def)
    qed
  next
    case (hook_commits k task now py u oc d')
    then have "\<not> late_event task" using ord by (simp add: orderly_def)
    with hook_commits webhook_commit_in_flight [OF hook_commits(4) keys]
      webhook_commit_ids [OF hook_commits(4) keys] show ?thesis
      by (intro mono) simp_all
  next
    case (sweep_row row gs now ro d')
    with reclaim_in_flight [OF sweep_row(4) keys] show ?thesis by (intro mono) simp_all
  next
    case (create body ids mio stg cid now row d')
    with cap_ok_create [OF cap inv create(3,4)] show ?thesis by simp
  next
    case (ingest verify i now p payload raw headers b d')
    obtain e j where ins: "inbox_insert i now p e payload headers (sy_db s) = Inr (j, d')"
      using ingest(3) by (auto elim: ingest_Inr)
    then have "db_calls d' = db_calls (sy_db s) \<and> db_campaigns d' = db_campaigns (sy_db s)"
      by (cases rule: inbox_insert_cases) simp_all
    with in_flight_cong [of d' "sy_db s"] ingest(2) show ?thesis by (intro mono) simp_all
  next
    case (age stg now i secs ts d')
    have "db_campaigns d' = db_campaigns (sy_db s)"
      using age(3) keys by (cases rule: age_dialing_cases) simp_all
    with age_in_flight [OF age(3) db] age(2) show ?thesis by (intro mono) simp_all
  next
    case (reorder d')
    have "in_flight_count d' i = in_flight_count (sy_db s) i" for i
      using reorder(3) unfolding in_flight_count_def by (intro count_status_mset) (simp add: same_rows_def)
    with same_rows_sets [OF reorder(3)] reorder(2) show ?thesis by (intro mono) simp_all
  next
    case sched_fails
    then show ?thesis by (intro mono) (simp_all add: reserved_def split: sched_pc.splits)
  next
    case (no_requeue c)
    then show ?thesis by (intro mono) (simp_all add: reserved_def)
  qed (rule mono; simp)+
qed

text \<open>Runs in which every state is orderly.\<close>

inductive orderly_run :: "system \<Rightarrow> bool" where
  run_init: "orderly_run sys_init"
| run_step: "orderly_run s \<Longrightarrow> orderly s \<Longrightarrow> sys_step s a t \<Longrightarrow> orderly_run t"

lemma orderly_run_reachable: "orderly_run s \<Longrightarrow> reachable s"
  unfolding reachable_def
  by (induction rule: orderly_run.induct) (auto intro: steps_refl steps_step)

lemma orderly_run_cap: "orderly_run s \<Longrightarrow> cap_ok s"
proof (induction rule: orderly_run.induct)
  case run_init
  then show ?case by (simp add: cap_ok_def sys_init_def empty_db_def)
next
  case (run_step s a t)
  with cap_ok_step reachable_inv orderly_run_reachable show ?case by blast
qed

end
