(* ===== verification/Mock_Provider.thy ===== *)
theory Mock_Provider
  imports Schema
begin

text \<open>
  The provider port (\<^verbatim>\<open>app/provider/base.py\<close>) as a locale, and the in-process mock adapter
  (\<^verbatim>\<open>app/provider/mock.py\<close>) that implements it: idempotent placement, the simulated call as a
  small state machine that emits webhook payloads, and the payload parser. The calls that draw
  randomness or read the clock take what they draw as arguments.
\<close>

section \<open>The mock's state\<close>

record mock_call_state =
  mc_provider_call_id :: string
  mc_phone :: string
  mc_idempotency_key :: string
  mc_status :: call_status

text \<open>Where the coroutine \<open>_simulate\<close> of a call stands: before its first step, or in a sleep.\<close>

datatype sim_pc =
    SimStart
  | SimDialing call_status
  | SimTalking call_status

record mock_provider =
  mp_by_idem :: "string \<rightharpoonup> call_handle"
  mp_states :: "string \<rightharpoonup> mock_call_state"
  mp_tasks :: "string \<rightharpoonup> sim_pc"
  mp_event_seq :: nat

definition mock_init :: mock_provider where
  "mock_init = \<lparr>mp_by_idem = (\<lambda>_. None), mp_states = (\<lambda>_. None), mp_tasks = (\<lambda>_. None),
                mp_event_seq = 0\<rparr>"

section \<open>Placing a call\<close>

text \<open>\<open>token\<close> is the integer behind \<open>secrets.token_hex(8)\<close>.\<close>

definition mock_call_id :: "nat \<Rightarrow> string" where
  "mock_call_id token = ''mock-'' @ hex_digits 16 token"

definition place_call ::
  "nat \<times> timestamp \<Rightarrow> string \<Rightarrow> string \<Rightarrow> mock_provider \<Rightarrow> call_handle \<times> mock_provider" where
  "place_call draw idempotency_key phone m =
     (case mp_by_idem m idempotency_key of
        Some existing \<Rightarrow> (existing, m)
      | None \<Rightarrow>
          let call_id = mock_call_id (fst draw);
              handle = \<lparr>h_provider_call_id = call_id, h_accepted_at = snd draw\<rparr>
          in (handle,
              m\<lparr>mp_by_idem := (mp_by_idem m)(idempotency_key \<mapsto> handle),
                mp_states := (mp_states m)(call_id \<mapsto>
                  \<lparr>mc_provider_call_id = call_id, mc_phone = phone,
                   mc_idempotency_key = idempotency_key, mc_status = DIALING\<rparr>),
                mp_tasks := (mp_tasks m)(call_id \<mapsto> SimStart)\<rparr>))"

definition get_status :: "string \<Rightarrow> mock_provider \<Rightarrow> call_status result" where
  "get_status call_id m =
     (case mp_states m call_id of None \<Rightarrow> Inl (KeyError call_id) | Some s \<Rightarrow> Inr (mc_status s))"

definition aclose :: "mock_provider \<Rightarrow> mock_provider" where
  "aclose m = m\<lparr>mp_tasks := (\<lambda>_. None)\<rparr>"

section \<open>The simulated call\<close>

definition draw_terminal :: "settings \<Rightarrow> rat \<Rightarrow> call_status" where
  "draw_terminal stg roll =
     (let failure_rate = mock_failure_rate_effective stg; no_answer_rate = mock_no_answer_rate stg in
        if roll < failure_rate then FAILED
        else if roll < failure_rate + no_answer_rate then NO_ANSWER
        else COMPLETED)"

definition set_mock_status :: "string \<Rightarrow> call_status \<Rightarrow> mock_provider \<Rightarrow> mock_provider" where
  "set_mock_status call_id s m =
     m\<lparr>mp_states := (mp_states m)(call_id := map_option (\<lambda>c. c\<lparr>mc_status := s\<rparr>) (mp_states m call_id))\<rparr>"

definition emit_payload :: "string \<Rightarrow> call_status \<Rightarrow> mock_provider \<Rightarrow> json_dict \<times> mock_provider" where
  "emit_payload call_id s m =
     (let seq = Suc (mp_event_seq m) in
        ([(''provider_event_id'', JStr (call_id @ '':'' @ str_nat seq)),
          (''provider_call_id'', JStr call_id),
          (''status'', JStr (call_status_value s))],
         m\<lparr>mp_event_seq := seq\<rparr>))"

text \<open>
  One step of the coroutine, up to its next sleep: set the status, deliver the payload, go on.
  \<open>sink_ok\<close> says whether the event sink returned; when it raises, the simulation ends there.
\<close>

definition sim_emit ::
  "bool \<Rightarrow> string \<Rightarrow> call_status \<Rightarrow> sim_pc option \<Rightarrow> mock_provider \<Rightarrow> json_dict option \<times> mock_provider" where
  "sim_emit sink_ok call_id s next_pc m =
     (let (payload, m') = emit_payload call_id s (set_mock_status call_id s m)
      in (Some payload, m'\<lparr>mp_tasks := (mp_tasks m')(call_id := (if sink_ok then next_pc else None))\<rparr>))"

definition simulate_step ::
  "settings \<Rightarrow> rat \<Rightarrow> bool \<Rightarrow> string \<Rightarrow> mock_provider \<Rightarrow> json_dict option \<times> mock_provider" where
  "simulate_step stg roll sink_ok call_id m =
     (case mp_tasks m call_id of
        None \<Rightarrow> (None, m)
      | Some SimStart \<Rightarrow>
          sim_emit sink_ok call_id DIALING (Some (SimDialing (draw_terminal stg roll))) m
      | Some (SimDialing terminal_status) \<Rightarrow>
          if terminal_status = COMPLETED
          then sim_emit sink_ok call_id IN_PROGRESS (Some (SimTalking terminal_status)) m
          else sim_emit sink_ok call_id terminal_status None m
      | Some (SimTalking terminal_status) \<Rightarrow> sim_emit sink_ok call_id terminal_status None m)"

section \<open>The adapter's module functions\<close>

text \<open>\<open>CallStatus(v)\<close> of a JSON value: only a string can be a member's value.\<close>

definition call_status_of_json :: "json \<Rightarrow> call_status result" where
  "call_status_of_json v =
     (case v of
        JStr s \<Rightarrow> call_status_of_value s
      | _ \<Rightarrow> Inl (ValueError ''not a valid CallStatus''))"

definition parse_event :: "json_dict \<Rightarrow> provider_event result" where
  "parse_event payload =
     bind_res (dict_index payload ''provider_event_id'') (\<lambda>event_id.
     bind_res (dict_index payload ''provider_call_id'') (\<lambda>call_id.
     bind_res (dict_index payload ''status'') (\<lambda>raw.
     bind_res (call_status_of_json raw) (\<lambda>s.
       Inr \<lparr>pe_provider_event_id = event_id, pe_provider_call_id = call_id, pe_status_enum = s\<rparr>))))"

definition verify_signature :: "json_dict \<Rightarrow> string \<Rightarrow> bool" where
  "verify_signature headers raw_body = True"

section \<open>The port\<close>

text \<open>
  What the scheduler relies on: a key that has been placed answers with its handle from then on
  and changes nothing, whatever else is placed; a placed call has a status.
\<close>

locale telephony_provider =
  fixes ok :: "'s \<Rightarrow> bool"
    and place :: "'a \<Rightarrow> string \<Rightarrow> string \<Rightarrow> 's \<Rightarrow> call_handle \<times> 's"
    and status_of :: "string \<Rightarrow> 's \<Rightarrow> call_status result"
    and placed :: "string \<Rightarrow> call_handle \<Rightarrow> 's \<Rightarrow> bool"
  assumes place_ok: "ok s \<Longrightarrow> ok (snd (place a k p s))"
    and place_places: "placed k (fst (place a k p s)) (snd (place a k p s))"
    and placed_stays: "placed k h s \<Longrightarrow> placed k h (snd (place a k' p s))"
    and placed_again: "placed k h s \<Longrightarrow> place a k p s = (h, s)"
    and placed_known: "ok s \<Longrightarrow> placed k h s \<Longrightarrow> \<exists>x. status_of (h_provider_call_id h) s = Inr x"
begin

fun place_all :: "('a \<times> string \<times> string) list \<Rightarrow> 's \<Rightarrow> 's" where
  "place_all [] s = s"
| "place_all ((a, k, p) # rs) s = place_all rs (snd (place a k p s))"

lemma place_all_ok: "ok s \<Longrightarrow> ok (place_all rs s)"
  by (induction rs s rule: place_all.induct) (simp_all add: place_ok)

lemma place_all_placed: "placed k h s \<Longrightarrow> placed k h (place_all rs s)"
  by (induction rs s rule: place_all.induct) (simp_all add: placed_stays)

text \<open>A retried placement, however late, returns the first handle and dials nobody.\<close>

lemma retry_same_handle:
  "place a' k p' (place_all rs (snd (place a k p s))) =
   (fst (place a k p s), place_all rs (snd (place a k p s)))"
  by (intro placed_again place_all_placed place_places)

lemma retry_known:
  "ok s \<Longrightarrow> \<exists>x. status_of (h_provider_call_id (fst (place a k p s))) (place_all rs (snd (place a k p s))) = Inr x"
  using placed_known [OF place_all_ok [OF place_ok] place_all_placed [OF place_places]] .

end

section \<open>The mock implements the port\<close>

text \<open>Every handle given out has a state entry, and a task only runs for a call that has one.\<close>

definition mock_ok :: "mock_provider \<Rightarrow> bool" where
  "mock_ok m \<longleftrightarrow>
     (\<forall>k h. mp_by_idem m k = Some h \<longrightarrow> mp_states m (h_provider_call_id h) \<noteq> None) \<and>
     (\<forall>i. mp_tasks m i \<noteq> None \<longrightarrow> mp_states m i \<noteq> None)"

definition mock_placed :: "string \<Rightarrow> call_handle \<Rightarrow> mock_provider \<Rightarrow> bool" where
  "mock_placed k h m \<longleftrightarrow> mp_by_idem m k = Some h"

lemma mock_ok_init: "mock_ok mock_init"
  by (simp add: mock_ok_def mock_init_def)

lemma place_call_placed [simp]: "mp_by_idem m k = Some h \<Longrightarrow> place_call a k p m = (h, m)"
  by (simp add: place_call_def)

lemma place_call_fresh:
  "mp_by_idem m k = None \<Longrightarrow>
   place_call a k p m =
     (\<lparr>h_provider_call_id = mock_call_id (fst a), h_accepted_at = snd a\<rparr>,
      m\<lparr>mp_by_idem := (mp_by_idem m)(k \<mapsto> \<lparr>h_provider_call_id = mock_call_id (fst a), h_accepted_at = snd a\<rparr>),
        mp_states := (mp_states m)(mock_call_id (fst a) \<mapsto>
          \<lparr>mc_provider_call_id = mock_call_id (fst a), mc_phone = p, mc_idempotency_key = k,
           mc_status = DIALING\<rparr>),
        mp_tasks := (mp_tasks m)(mock_call_id (fst a) \<mapsto> SimStart)\<rparr>)"
  by (simp add: place_call_def Let_def)

lemma place_call_mock_ok: "mock_ok m \<Longrightarrow> mock_ok (snd (place_call a k p m))"
  by (cases "mp_by_idem m k") (auto simp: place_call_fresh mock_ok_def)

interpretation mock: telephony_provider mock_ok place_call get_status mock_placed
proof unfold_locales
  fix m :: mock_provider and a k p k' h
  show "mock_ok m \<Longrightarrow> mock_ok (snd (place_call a k p m))" by (rule place_call_mock_ok)
  show "mock_placed k (fst (place_call a k p m)) (snd (place_call a k p m))"
    by (cases "mp_by_idem m k") (simp_all add: place_call_fresh mock_placed_def)
  show "mock_placed k h m \<Longrightarrow> mock_placed k h (snd (place_call a k' p m))"
    by (cases "mp_by_idem m k'") (auto simp: place_call_fresh mock_placed_def)
  show "mock_placed k h m \<Longrightarrow> place_call a k p m = (h, m)" by (simp add: mock_placed_def)
  show "mock_ok m \<Longrightarrow> mock_placed k h m \<Longrightarrow> \<exists>x. get_status (h_provider_call_id h) m = Inr x"
    by (auto simp: mock_placed_def mock_ok_def get_status_def split: option.splits)
qed

section \<open>Facts about simulations and payloads\<close>

lemma set_mock_status_frame [simp]:
  "mp_by_idem (set_mock_status i s m) = mp_by_idem m" "mp_tasks (set_mock_status i s m) = mp_tasks m"
  "mp_event_seq (set_mock_status i s m) = mp_event_seq m"
  "mp_states (set_mock_status i s m) j = None \<longleftrightarrow> mp_states m j = None"
  by (simp_all add: set_mock_status_def)

lemma sim_emit_ok: "mock_ok m \<Longrightarrow> mp_tasks m i \<noteq> None \<Longrightarrow> mock_ok (snd (sim_emit b i s pc m))"
  by (auto simp: sim_emit_def emit_payload_def mock_ok_def Let_def split: if_splits)

lemma simulate_step_ok: "mock_ok m \<Longrightarrow> mock_ok (snd (simulate_step stg roll b i m))"
  using sim_emit_ok [of m i] by (auto simp: simulate_step_def split: option.splits sim_pc.splits)

lemma parse_emit_payload:
  "parse_event (fst (emit_payload i s m)) =
   Inr \<lparr>pe_provider_event_id = JStr (i @ '':'' @ str_nat (Suc (mp_event_seq m))),
        pe_provider_call_id = JStr i, pe_status_enum = s\<rparr>"
  by (simp add: emit_payload_def parse_event_def dict_index_def call_status_of_json_def Let_def)

text \<open>All steps of one simulation in a row: at most three.\<close>

fun simulate :: "nat \<Rightarrow> settings \<Rightarrow> rat \<Rightarrow> string \<Rightarrow> mock_provider \<Rightarrow> json_dict list \<times> mock_provider" where
  "simulate 0 stg roll i m = ([], m)"
| "simulate (Suc n) stg roll i m =
     (case simulate_step stg roll True i m of
        (None, m') \<Rightarrow> ([], m')
      | (Some payload, m') \<Rightarrow> (let (ps, m'') = simulate n stg roll i m' in (payload # ps, m'')))"

definition payload_status :: "json_dict \<Rightarrow> call_status result" where
  "payload_status p = bind_res (parse_event p) (\<lambda>e. Inr (pe_status_enum e))"

lemma sim_emit_payload:
  "\<exists>payload. fst (sim_emit b i s pc m) = Some payload \<and> payload_status payload = Inr s"
  using parse_emit_payload [of i s "set_mock_status i s m"]
  by (auto simp: sim_emit_def case_prod_unfold payload_status_def Let_def)

lemma sim_emit_tasks: "mp_tasks (snd (sim_emit b i s pc m)) i = (if b then pc else None)"
  by (simp add: sim_emit_def case_prod_unfold Let_def)

lemma sim_emit_states:
  "mp_states m i \<noteq> None \<Longrightarrow> get_status i (snd (sim_emit b i s pc m)) = Inr s"
  "mp_states (snd (sim_emit b i s pc m)) j = None \<longleftrightarrow> mp_states m j = None"
  by (auto simp: sim_emit_def emit_payload_def set_mock_status_def get_status_def Let_def)

lemmas sim_emit_simps = sim_emit_tasks sim_emit_states

text \<open>The statuses the mock reports for one call, in order.\<close>

definition trajectory :: "call_status \<Rightarrow> call_status list" where
  "trajectory terminal_status =
     (if terminal_status = COMPLETED then [DIALING, IN_PROGRESS, COMPLETED] else [DIALING, terminal_status])"

lemma simulate_step_pc:
  "mp_tasks m i = None \<Longrightarrow> simulate_step stg roll b i m = (None, m)"
  "mp_tasks m i = Some SimStart \<Longrightarrow>
   simulate_step stg roll b i m = sim_emit b i DIALING (Some (SimDialing (draw_terminal stg roll))) m"
  "mp_tasks m i = Some (SimDialing t) \<Longrightarrow>
   simulate_step stg roll b i m =
     (if t = COMPLETED then sim_emit b i IN_PROGRESS (Some (SimTalking t)) m else sim_emit b i t None m)"
  "mp_tasks m i = Some (SimTalking t) \<Longrightarrow> simulate_step stg roll b i m = sim_emit b i t None m"
  by (simp_all add: simulate_step_def)

lemma simulate_Suc:
  assumes "fst (simulate_step stg roll True i m) = Some payload"
  shows "simulate (Suc n) stg roll i m =
    (payload # fst (simulate n stg roll i (snd (simulate_step stg roll True i m))),
     snd (simulate n stg roll i (snd (simulate_step stg roll True i m))))"
  using assms by (cases "simulate_step stg roll True i m") (simp add: case_prod_unfold Let_def)

lemma simulate_last:
  assumes "fst (simulate_step stg roll True i m) = Some payload"
    and "payload_status payload = Inr s" and "mp_tasks (snd (simulate_step stg roll True i m)) i = None"
  shows "map payload_status (fst (simulate (Suc (Suc n)) stg roll i m)) = [Inr s] \<and>
         snd (simulate (Suc (Suc n)) stg roll i m) = snd (simulate_step stg roll True i m)"
  unfolding simulate_Suc [OF assms(1)]
  using assms(2) simulate_step_pc(1) [OF assms(3), of stg roll True] by simp

lemma simulate_from_talking:
  assumes "mp_tasks m i = Some (SimTalking t)" and "mp_states m i \<noteq> None"
  shows "map payload_status (fst (simulate (Suc (Suc n)) stg roll i m)) = [Inr t] \<and>
         get_status i (snd (simulate (Suc (Suc n)) stg roll i m)) = Inr t"
  using simulate_last [of stg roll i m _ t n] sim_emit_payload [of True i t None m] assms
  by (auto simp: simulate_step_pc sim_emit_simps simp del: simulate.simps)

lemma simulate_from_dialing:
  assumes "mp_tasks m i = Some (SimDialing t)" and "mp_states m i \<noteq> None"
  shows "map payload_status (fst (simulate (Suc (Suc (Suc n))) stg roll i m)) = map Inr (tl (trajectory t)) \<and>
         get_status i (snd (simulate (Suc (Suc (Suc n))) stg roll i m)) = Inr t"
proof (cases "t = COMPLETED")
  case True
  obtain p where p: "fst (sim_emit True i IN_PROGRESS (Some (SimTalking t)) m) = Some p"
      "payload_status p = Inr IN_PROGRESS" using sim_emit_payload by blast
  have "simulate_step stg roll True i m = sim_emit True i IN_PROGRESS (Some (SimTalking t)) m"
    using simulate_step_pc(3) [OF assms(1)] True by simp
  with simulate_Suc [of stg roll i m p "Suc (Suc n)"] p True assms
    simulate_from_talking [of "snd (sim_emit True i IN_PROGRESS (Some (SimTalking t)) m)" i t n stg roll]
  show ?thesis by (simp add: sim_emit_simps trajectory_def del: simulate.simps)
next
  case False
  with simulate_last [of stg roll i m _ t "Suc n"] sim_emit_payload [of True i t None m] assms show ?thesis
    by (auto simp: simulate_step_pc sim_emit_simps trajectory_def simp del: simulate.simps)
qed

lemma simulate_from_start:
  assumes "mp_tasks m i = Some SimStart" and "mp_states m i \<noteq> None"
  shows "map payload_status (fst (simulate (Suc (Suc (Suc (Suc n)))) stg roll i m)) =
           map Inr (trajectory (draw_terminal stg roll)) \<and>
         get_status i (snd (simulate (Suc (Suc (Suc (Suc n)))) stg roll i m)) = Inr (draw_terminal stg roll)"
proof -
  let ?t = "draw_terminal stg roll"
  let ?e = "sim_emit True i DIALING (Some (SimDialing ?t)) m"
  obtain p where p: "fst ?e = Some p" "payload_status p = Inr DIALING" using sim_emit_payload by blast
  have step: "simulate_step stg roll True i m = ?e"
    by (rule simulate_step_pc(2) [OF assms(1)])
  with simulate_Suc [of stg roll i m p "Suc (Suc (Suc n))"] p assms(2)
    simulate_from_dialing [of "snd ?e" i ?t n stg roll]
  show ?thesis
    by (cases "?t = COMPLETED") (simp_all add: sim_emit_simps trajectory_def del: simulate.simps)
qed

end
