(* ===== verification/Examples.thy ===== *)
theory Examples
  imports System_Cap Mock_Provider
begin

text \<open>
  Small concrete databases and environments, with their invariants evaluated: the witnesses of the
  properties apply the theorems to them.
\<close>

section \<open>Databases\<close>

definition ex_schedule :: json_dict where
  "ex_schedule = [(''thu'', JList [JObj [(''start'', JStr ''00:00''), (''end'', JStr ''23:59'')]])]"

definition ex_campaign :: "campaign_status \<Rightarrow> campaign_row" where
  "ex_campaign s =
     \<lparr>cp_id = 7, cp_name = ''demo'', cp_status = s, cp_timezone = ''UTC'', cp_schedule = ex_schedule,
      cp_max_concurrent = 2, cp_retry_config = [(''backoff_base_seconds'', JInt 30)],
      cp_created_at = 0, cp_updated_at = 0\<rparr>"

definition ex_call :: "uuid \<Rightarrow> string \<Rightarrow> call_status \<Rightarrow> int \<Rightarrow> int \<Rightarrow> string option \<Rightarrow> call_row" where
  "ex_call i phone s epoch retries handle =
     \<lparr>cl_id = i, cl_campaign_id = 7, cl_phone = phone, cl_status = s, cl_attempt_epoch = epoch,
      cl_retries_remaining = retries, cl_next_attempt_at = None, cl_provider_call_id = handle,
      cl_created_at = int i, cl_updated_at = 0\<rparr>"

definition ex_move :: "nat \<Rightarrow> uuid option \<Rightarrow> string \<Rightarrow> audit_row" where
  "ex_move n call after =
     \<lparr>ar_id = n, ar_ts = 0,
      ar_event = (audit_event_of TRANSITION ''seed'')
        \<lparr>ae_campaign_id := Some 7, ae_call_id := call, ae_state_after := Some after\<rparr>\<rparr>"

lemmas ex_defs = ex_campaign_def ex_call_def ex_move_def

text \<open>Nothing dialled yet; one call in flight and one waiting; one call closed and one
  in flight; both in flight.\<close>

definition ex_pending :: db where
  "ex_pending = empty_db
     \<lparr>db_campaigns := [ex_campaign PENDING],
      db_calls := [ex_call 11 ''+15550000001'' QUEUED 0 1 None, ex_call 12 ''+15550000002'' QUEUED 0 1 None]\<rparr>"

definition ex_dialing :: db where
  "ex_dialing = empty_db
     \<lparr>db_campaigns := [ex_campaign ACTIVE],
      db_calls := [ex_call 11 ''+15550000001'' DIALING 1 1 (Some ''mock-1''),
                   ex_call 12 ''+15550000002'' QUEUED 0 1 None],
      db_audit := [ex_move 1 (Some 11) ''DIALING'', ex_move 2 None ''ACTIVE''], db_audit_seq := 3\<rparr>"

definition ex_last :: db where
  "ex_last = empty_db
     \<lparr>db_campaigns := [ex_campaign ACTIVE],
      db_calls := [ex_call 11 ''+15550000001'' DIALING 1 1 (Some ''mock-1''),
                   ex_call 12 ''+15550000002'' COMPLETED 1 1 (Some ''mock-2'')],
      db_audit := [ex_move 1 (Some 11) ''DIALING'', ex_move 2 None ''ACTIVE'',
                   ex_move 3 (Some 12) ''COMPLETED''], db_audit_seq := 4\<rparr>"

definition ex_two :: db where
  "ex_two = empty_db
     \<lparr>db_campaigns := [ex_campaign ACTIVE],
      db_calls := [ex_call 11 ''+15550000001'' DIALING 1 1 (Some ''mock-1''),
                   ex_call 12 ''+15550000002'' DIALING 1 1 (Some ''mock-2'')],
      db_audit := [ex_move 1 (Some 11) ''DIALING'', ex_move 2 None ''ACTIVE'',
                   ex_move 3 (Some 12) ''DIALING''], db_audit_seq := 4\<rparr>"

lemmas ex_db_defs = ex_two_def ex_pending_def ex_dialing_def ex_last_def empty_db_def

lemmas inv_defs = db_inv_def keys_ok_def audit_ok_def campaign_ok_def campaign_exists_def
  phone_index_ok_def in_phone_index_def calls_of_def moves_call_def moves_campaign_def
  replay_call_def replay_campaign_def

lemma ex_pending_inv: "db_inv ex_pending"
  by (simp add: inv_defs ex_db_defs ex_defs)

lemma ex_dialing_inv: "db_inv ex_dialing"
  by (auto simp add: inv_defs ex_db_defs ex_defs terminal_iff)

lemma ex_last_inv: "db_inv ex_last"
  by (auto simp add: inv_defs ex_db_defs ex_defs terminal_iff)

lemma ex_two_inv: "db_inv ex_two"
  by (auto simp add: inv_defs ex_db_defs ex_defs terminal_iff)

lemmas ex_inv = ex_two_inv ex_pending_inv ex_dialing_inv ex_last_inv

section \<open>A tick's environment\<close>

definition ex_env :: tick_env where
  "ex_env =
     \<lparr>te_zones = (\<lambda>z. Some (\<lambda>_. 0)), te_settings = default_settings, te_float_of_str = (\<lambda>_. None),
      te_place_call = (\<lambda>_ _. ProviderUnavailable), te_jitter = 0, te_locked = (\<lambda>_. False),
      te_now_utc = 0, te_read_now = 0, te_requeue_now = 0, te_claim_now = 0, te_apply_now = 0,
      te_apply_utc = 0, te_cursor_utc = 0\<rparr>"

section \<open>A reachable state\<close>

definition ex_io :: model_io where
  "ex_io = \<lparr>dump_time = (\<lambda>t. if tm_us t = 0 then ''00:00:00'' else ''23:59:00''), load_window = (\<lambda>_. Inl (ValueError [])),
            load_retry = (\<lambda>_. Inl (ValueError []))\<rparr>"

definition ex_body :: campaign_create_body where
  "ex_body =
     \<lparr>cc_name = ''demo'', cc_timezone = ''UTC'',
      cc_schedule = [(''thu'', [\<lparr>tw_start = naive_time 0, tw_end = naive_time 86340000000\<rparr>])],
      cc_max_concurrent = Some 2,
      cc_retry_config = \<lparr>rc_max_attempts = 1, rc_backoff_base_seconds = 30\<rparr>,
      cc_phones = [''+15550000001'', ''+15550000002'']\<rparr>"

definition ex_created :: db where
  "ex_created = empty_db
     \<lparr>db_campaigns := [created_campaign ex_io default_settings 7 0 ex_body],
      db_calls := created_calls 7 [11, 12] 0 ex_body\<rparr>"

definition ex_sys :: system where
  "ex_sys = sys_init\<lparr>sy_db := ex_created\<rparr>"

lemma ex_create_txn:
  "create_campaign_txn ex_io default_settings 7 [11, 12] 0 ex_body empty_db =
   Inr (Some (created_campaign ex_io default_settings 7 0 ex_body), ex_created)"
  by (simp add: create_campaign_txn_def campaign_create_def create_batch_def ex_body_def Let_def
      body_max_concurrent_def empty_db_def campaign_exists_def phone_index_ok_def in_phone_index_def
      new_call_row_def ex_created_def created_campaign_def created_calls_def campaign_get_def)

lemma ex_create_ready: "create_ready ex_body [11, 12]"
  by (simp add: create_ready_def ex_body_def)

lemma ex_sys_step: "sys_step sys_init Operator ex_sys"
  unfolding ex_sys_def
  by (rule sys_step.create [OF ex_create_ready, of ex_io default_settings 7 0])
    (simp add: sys_init_def ex_create_txn)

lemma ex_sys_reachable: "reachable ex_sys"
  unfolding reachable_def by (rule steps_step [OF steps_refl ex_sys_step])

lemma ex_sys_orderly: "orderly_run ex_sys"
  by (rule run_step [OF run_init _ ex_sys_step]) (simp add: orderly_def sys_init_def)

section \<open>A run with two claims\<close>

text \<open>The tick picks the campaign and claims its first call; the process stops before the provider
  answers; the next tick claims the second call.\<close>

definition ex_pick :: "db \<Rightarrow> campaign_row_with_cursor" where
  "ex_pick d = with_cursor d (hd (db_campaigns d))"

definition ex_seen :: "db \<Rightarrow> db" where
  "ex_seen d = snd (tick_select (\<lambda>z. Some (\<lambda>_. 0)) 0 0 d)"

definition ex_claim :: "db \<Rightarrow> call_row \<times> db" where
  "ex_claim d =
     (let (claimed, d1) = projr (dispatch_claim (\<lambda>_. False) 0 (ex_pick d) (ex_seen d)) in (the claimed, d1))"

definition ex_claimed :: db where
  "ex_claimed = snd (ex_claim ex_created)"

lemma ex_claimI:
  "isl r = False \<Longrightarrow> fst (projr r) \<noteq> None \<Longrightarrow>
   r = Inr (Some (the (fst (projr r))), snd (projr r))"
  by (cases r) auto

lemma ex_claim_first:
  "dispatch_claim (\<lambda>_. False) 0 (ex_pick ex_created) (ex_seen ex_created) = Inr (Some (fst (ex_claim ex_created)), ex_claimed)"
proof -
  have "isl (dispatch_claim (\<lambda>_. False) 0 (ex_pick ex_created) (ex_seen ex_created)) = False"
    and "fst (projr (dispatch_claim (\<lambda>_. False) 0 (ex_pick ex_created) (ex_seen ex_created))) \<noteq> None"
    by code_simp+
  from ex_claimI [OF this] show ?thesis by (simp add: ex_claimed_def ex_claim_def split_beta)
qed

lemma ex_claim_second:
  "dispatch_claim (\<lambda>_. False) 0 (ex_pick ex_claimed) (ex_seen ex_claimed) =
   Inr (Some (fst (ex_claim ex_claimed)), snd (ex_claim ex_claimed))"
proof -
  have "isl (dispatch_claim (\<lambda>_. False) 0 (ex_pick ex_claimed) (ex_seen ex_claimed)) = False"
    and "fst (projr (dispatch_claim (\<lambda>_. False) 0 (ex_pick ex_claimed) (ex_seen ex_claimed))) \<noteq> None"
    by code_simp+
  from ex_claimI [OF this] show ?thesis by (simp add: ex_claim_def split_beta)
qed

lemma ex_claim_ids:
  "cl_id (fst (ex_claim ex_created)) = 11" "cl_id (fst (ex_claim ex_claimed)) = 12"
  by code_simp+

lemma ex_selects:
  "fst (tick_select (\<lambda>z. Some (\<lambda>_. 0)) 0 0 ex_created) = Inr (Picked (ex_pick ex_created) False)"
  "fst (tick_select (\<lambda>z. Some (\<lambda>_. 0)) 0 0 ex_claimed) = Inr (Picked (ex_pick ex_claimed) False)"
  by code_simp+

lemma ex_seen_calls: "db_calls (ex_seen ex_created) = created_calls 7 [11, 12] 0 ex_body"
  by code_simp

definition ex_ready :: "db \<Rightarrow> system" where
  "ex_ready d = sys_init\<lparr>sy_db := ex_seen d, sy_sched := SchedReady (ex_pick d)\<rparr>"

definition ex_placing :: system where
  "ex_placing = sys_init\<lparr>sy_db := ex_claimed,
     sy_sched := SchedPlacing (ex_pick ex_created) (fst (ex_claim ex_created))\<rparr>"

lemma ex_select_steps:
  assumes "fst (tick_select (\<lambda>z. Some (\<lambda>_. 0)) 0 0 d) = Inr (Picked (ex_pick d) False)"
  shows "sys_steps (sys_init\<lparr>sy_db := d\<rparr>) (ex_ready d)"
proof -
  let ?s = "sys_init\<lparr>sy_db := d\<rparr>"
  let ?t = "?s\<lparr>sy_db := ex_seen d, sy_sched := SchedSelected (ex_pick d) False\<rparr>"
  have "tick_select (\<lambda>z. Some (\<lambda>_. 0)) 0 0 (sy_db ?s) = (Inr (Picked (ex_pick d) False), ex_seen d)"
    using assms by (simp add: ex_seen_def prod_eq_iff)
  then have "sys_step ?s Scheduler ?t" by (rule sys_step.select [rotated]) (simp add: sys_init_def)
  moreover have "sys_step ?t Scheduler (ex_ready d)"
    using sys_step.no_requeue [of ?t "ex_pick d"] by (simp add: ex_ready_def)
  ultimately show ?thesis by (blast intro: steps_refl steps_step)
qed

lemma sys_steps_trans: "sys_steps t u \<Longrightarrow> sys_steps s t \<Longrightarrow> sys_steps s u"
  by (induction rule: sys_steps.induct) (auto intro: steps_step)

lemma ex_ready_reachable: "reachable (ex_ready ex_created)"
  using sys_steps_trans [OF ex_select_steps [OF ex_selects(1)]] ex_sys_reachable
  by (simp add: reachable_def ex_sys_def)

lemma ex_placing_steps: "sys_steps ex_placing (ex_ready ex_claimed)"
proof -
  have "sys_step ex_placing Scheduler (sys_init\<lparr>sy_db := ex_claimed\<rparr>)"
    using sys_step.sched_fails [of ex_placing] by (simp add: ex_placing_def sys_init_def)
  with sys_steps_trans [OF ex_select_steps [OF ex_selects(2)]] show ?thesis
    by (blast intro: steps_refl steps_step)
qed

lemma ex_claim_step: "sys_step (ex_ready ex_created) Scheduler ex_placing"
proof -
  have "sys_step (ex_ready ex_created) Scheduler ((ex_ready ex_created)\<lparr>sy_db := ex_claimed,
      sy_sched := SchedPlacing (ex_pick ex_created) (fst (ex_claim ex_created))\<rparr>)"
    by (rule sys_step.claim [of _ _ "\<lambda>_. False" 0]) (simp_all add: ex_ready_def ex_claim_first)
  then show ?thesis by (simp add: ex_ready_def ex_placing_def)
qed

lemma ex_run: "sys_steps (ex_ready ex_created) (ex_ready ex_claimed)"
  by (rule sys_steps_trans [OF ex_placing_steps]) (rule steps_step [OF steps_refl ex_claim_step])

end
