(* ===== verification/Rollup_Locking.thy ===== *)
theory Rollup_Locking
  imports Db_Invariant
begin

text \<open>
  Why a terminal transition may be treated as atomic. Under READ COMMITTED the rollup of
  \<^verbatim>\<open>app/state/campaign_terminal.py\<close> runs in several statements: the call row is updated, the
  campaign row is locked (\<open>SELECT ... FOR NO KEY UPDATE\<close>), the calls are counted on a fresh
  snapshot (what others have committed, plus the transaction's own update), and the campaign is
  rolled up. This theory splits the transaction at those statements and lets any number of them
  interleave; \<open>locking = False\<close> is the same code without the lock.
\<close>

datatype rollup_txn =
    TxnMoved uuid call_status
  | TxnLocked uuid call_status
  | TxnDecided uuid call_status "campaign_status option"

fun txn_campaign :: "rollup_txn \<Rightarrow> uuid" where
  "txn_campaign (TxnMoved cid n) = cid"
| "txn_campaign (TxnLocked cid n) = cid"
| "txn_campaign (TxnDecided cid n dec) = cid"

text \<open>\<open>rs_db\<close> is what has been committed; a transaction is named by the call it moves.\<close>

record rollup_state =
  rs_db :: db
  rs_txn :: "uuid \<rightharpoonup> rollup_txn"
  rs_lock :: "uuid \<rightharpoonup> uuid"

text \<open>What transaction \<open>i\<close> sees: the committed rows, with its own update.\<close>

definition own_view :: "uuid \<Rightarrow> call_status \<Rightarrow> db \<Rightarrow> db" where
  "own_view i n d =
     d\<lparr>db_calls := map (\<lambda>r. if cl_id r = i then r\<lparr>cl_status := n\<rparr> else r) (db_calls d)\<rparr>"

definition rollup_decision :: "uuid \<Rightarrow> call_status \<Rightarrow> uuid \<Rightarrow> db \<Rightarrow> campaign_status option" where
  "rollup_decision i n cid d =
     (if 0 < count_active_by_campaign (own_view i n d) cid then None
      else Some (rollup_target (own_view i n d) cid))"

definition commit_db :: "timestamp \<Rightarrow> uuid \<Rightarrow> call_status \<Rightarrow> uuid \<Rightarrow> campaign_status option \<Rightarrow> db \<Rightarrow> db" where
  "commit_db now i n cid dec d =
     (case dec of
        None \<Rightarrow> own_view i n d
      | Some t \<Rightarrow> snd (campaign_transition_if now cid ACTIVE t (own_view i n d)))"

definition active_calls :: "db \<Rightarrow> uuid \<Rightarrow> uuid set" where
  "active_calls d cid = cl_id ` {r \<in> set (calls_of d cid). \<not> terminal (cl_status r)}"

definition completed_calls :: "db \<Rightarrow> uuid \<Rightarrow> uuid set" where
  "completed_calls d cid = cl_id ` {r \<in> set (calls_of d cid). cl_status r = COMPLETED}"

text \<open>
  Any other commit (a claim, a requeue, a new campaign): it ends no call, and it changes the status of
  an existing campaign only by promoting it, which needs the campaign's row lock.
\<close>

definition other_commit :: "rollup_state \<Rightarrow> db \<Rightarrow> bool" where
  "other_commit s d' \<longleftrightarrow>
     distinct (map cl_id (db_calls d')) \<and>
     (\<forall>c' \<in> set (db_campaigns d').
        (\<exists>c \<in> set (db_campaigns (rs_db s)). cp_id c = cp_id c' \<and>
           active_calls d' (cp_id c) = active_calls (rs_db s) (cp_id c) \<and>
           completed_calls d' (cp_id c) = completed_calls (rs_db s) (cp_id c) \<and>
           (cp_status c' = cp_status c \<or>
            cp_status c = PENDING \<and> cp_status c' = ACTIVE \<and> rs_lock s (cp_id c) = None \<and>
            active_calls (rs_db s) (cp_id c) \<noteq> {})) \<or>
        cp_status c' \<noteq> ACTIVE) \<and>
     (\<forall>i t. rs_txn s i = Some t \<longrightarrow>
        active_calls d' (txn_campaign t) = active_calls (rs_db s) (txn_campaign t) \<and>
        completed_calls d' (txn_campaign t) = completed_calls (rs_db s) (txn_campaign t))"

inductive rollup_step :: "bool \<Rightarrow> rollup_state \<Rightarrow> rollup_state \<Rightarrow> bool" for locking where
  moves: "rs_txn s (cl_id r) = None \<Longrightarrow> r \<in> set (db_calls (rs_db s)) \<Longrightarrow> \<not> terminal (cl_status r) \<Longrightarrow>
    terminal n \<Longrightarrow>
    rollup_step locking s (s\<lparr>rs_txn := (rs_txn s)(cl_id r \<mapsto> TxnMoved (cl_campaign_id r) n)\<rparr>)"
| locks: "rs_txn s i = Some (TxnMoved cid n) \<Longrightarrow> locking \<longrightarrow> rs_lock s cid = None \<Longrightarrow>
    rollup_step locking s
      (s\<lparr>rs_txn := (rs_txn s)(i \<mapsto> TxnLocked cid n), rs_lock := (rs_lock s)(cid \<mapsto> i)\<rparr>)"
| decides: "rs_txn s i = Some (TxnLocked cid n) \<Longrightarrow>
    rollup_step locking s
      (s\<lparr>rs_txn := (rs_txn s)(i \<mapsto> TxnDecided cid n (rollup_decision i n cid (rs_db s)))\<rparr>)"
| commits: "rs_txn s i = Some (TxnDecided cid n dec) \<Longrightarrow>
    rollup_step locking s
      (s\<lparr>rs_db := commit_db now i n cid dec (rs_db s), rs_txn := (rs_txn s)(i := None),
         rs_lock := (rs_lock s)(cid := None)\<rparr>)"
| aborts: "rs_txn s i = Some t \<Longrightarrow>
    rollup_step locking s
      (s\<lparr>rs_txn := (rs_txn s)(i := None),
         rs_lock := (if rs_lock s (txn_campaign t) = Some i
                     then (rs_lock s)(txn_campaign t := None) else rs_lock s)\<rparr>)"
| others: "other_commit s d' \<Longrightarrow> rollup_step locking s (s\<lparr>rs_db := d'\<rparr>)"

inductive rollup_run :: "bool \<Rightarrow> rollup_state \<Rightarrow> rollup_state \<Rightarrow> bool" for locking where
  run_refl: "rollup_run locking s s"
| run_step: "rollup_run locking s t \<Longrightarrow> rollup_step locking t u \<Longrightarrow> rollup_run locking s u"

section \<open>What a decision depends on\<close>

lemma own_view_simps [simp]:
  "db_campaigns (own_view i n d) = db_campaigns d"
  "map cl_id (db_calls (own_view i n d)) = map cl_id (db_calls d)"
  by (simp_all add: own_view_def)

lemma calls_of_own_view:
  "calls_of (own_view i n d) cid = map (\<lambda>r. if cl_id r = i then r\<lparr>cl_status := n\<rparr> else r) (calls_of d cid)"
  by (simp add: calls_of_def own_view_def filter_map o_def if_distrib [of cl_campaign_id])

lemma ids_with_moved:
  fixes rs :: "call_row list"
  shows "cl_id ` {r \<in> set (map (\<lambda>r. if cl_id r = i then r\<lparr>cl_status := n\<rparr> else r) rs). S (cl_status r)} =
   cl_id ` {r \<in> set rs. S (cl_status r)} - {i} \<union> (if S n \<and> i \<in> cl_id ` set rs then {i} else {})"
proof -
  define f :: "call_row \<Rightarrow> call_row" where "f = (\<lambda>r. if cl_id r = i then r\<lparr>cl_status := n\<rparr> else r)"
  have f: "cl_id (f q) = cl_id q" "cl_status (f q) = (if cl_id q = i then n else cl_status q)" for q
    by (simp_all add: f_def)
  have "cl_id ` {r \<in> set (map f rs). S (cl_status r)} =
      {k. \<exists>q \<in> set rs. cl_id q = k \<and> S (if k = i then n else cl_status q)}"
    by (force simp: f image_iff)
  also have "\<dots> = cl_id ` {r \<in> set rs. S (cl_status r)} - {i} \<union>
      (if S n \<and> i \<in> cl_id ` set rs then {i} else {})"
    by (auto split: if_splits)
  finally show ?thesis by (simp only: f_def)
qed

lemma active_own_view:
  assumes "terminal n"
  shows "active_calls (own_view i n d) cid = active_calls d cid - {i}"
  using ids_with_moved [of i n "calls_of d cid" "\<lambda>s. \<not> terminal s"] assms
  by (simp add: active_calls_def calls_of_own_view)

lemma completed_own_view:
  assumes "distinct (map cl_id (db_calls d))" and "i \<in> active_calls d cid"
  shows "completed_calls (own_view i n d) cid =
         completed_calls d cid \<union> (if n = COMPLETED then {i} else {})"
proof -
  obtain q where q: "q \<in> set (calls_of d cid)" "cl_id q = i" "\<not> terminal (cl_status q)"
    using assms(2) by (auto simp: active_calls_def)
  have "i \<notin> completed_calls d cid"
    using q call_key_eq [OF assms(1)] by (auto simp: completed_calls_def in_calls_of terminal_iff)
  with ids_with_moved [of i n "calls_of d cid" "\<lambda>s. s = COMPLETED"] q show ?thesis
    by (auto simp: completed_calls_def calls_of_own_view)
qed

lemma completed_other_view:
  assumes "distinct (map cl_id (db_calls d))" and "i \<in> active_calls d cid" and "c \<noteq> cid"
  shows "completed_calls (own_view i n d) c = completed_calls d c"
    and "active_calls (own_view i n d) c = active_calls d c"
proof -
  obtain q where q: "q \<in> set (calls_of d cid)" "cl_id q = i" using assms(2) by (auto simp: active_calls_def)
  have "cl_id x \<noteq> i" if "x \<in> set (calls_of d c)" for x
    using call_key_eq [OF assms(1), of x q] q that assms(3) by (auto simp: in_calls_of)
  then have "i \<notin> cl_id ` set (calls_of d c)" by blast
  then have "calls_of (own_view i n d) c = calls_of d c"
    unfolding calls_of_own_view by (intro map_idI) auto
  then show "completed_calls (own_view i n d) c = completed_calls d c"
    and "active_calls (own_view i n d) c = active_calls d c"
    by (simp_all add: completed_calls_def active_calls_def)
qed

lemma count_active_iff: "0 < count_active_by_campaign d cid \<longleftrightarrow> active_calls d cid \<noteq> {}"
  using no_active_iff [of d cid] by (auto simp: active_calls_def)

lemma rollup_target_iff:
  "rollup_target d cid = (if completed_calls d cid \<noteq> {} then CAMPAIGN_IS_COMPLETED else CAMPAIGN_IS_FAILED)"
  using count_status_pos [of "\<lambda>s. s = COMPLETED" d cid]
  by (auto simp: rollup_target_def terminal_aggregate_def completed_calls_def)

lemma rollup_decision_iff:
  assumes "distinct (map cl_id (db_calls d))" and "i \<in> active_calls d cid" and "terminal n"
  shows "rollup_decision i n cid d =
    (if active_calls d cid - {i} \<noteq> {} then None
     else Some (if completed_calls d cid \<noteq> {} \<or> n = COMPLETED
                then CAMPAIGN_IS_COMPLETED else CAMPAIGN_IS_FAILED))"
  using assms
  by (simp add: rollup_decision_def count_active_iff active_own_view rollup_target_iff completed_own_view)

section \<open>The invariant under the lock\<close>

definition rollup_ok :: "rollup_state \<Rightarrow> bool" where
  "rollup_ok s \<longleftrightarrow>
     distinct (map cl_id (db_calls (rs_db s))) \<and>
     (\<forall>c \<in> set (db_campaigns (rs_db s)). cp_status c = ACTIVE \<longrightarrow> active_calls (rs_db s) (cp_id c) \<noteq> {}) \<and>
     (\<forall>i t. rs_txn s i = Some t \<longrightarrow> i \<in> active_calls (rs_db s) (txn_campaign t)) \<and>
     (\<forall>i cid n. rs_txn s i = Some (TxnMoved cid n) \<longrightarrow> terminal n) \<and>
     (\<forall>i cid n. rs_txn s i = Some (TxnLocked cid n) \<longrightarrow> terminal n \<and> rs_lock s cid = Some i) \<and>
     (\<forall>i cid n dec. rs_txn s i = Some (TxnDecided cid n dec) \<longrightarrow>
        terminal n \<and> rs_lock s cid = Some i \<and> dec = rollup_decision i n cid (rs_db s))"

lemma rollup_ok_active: "rollup_ok s \<Longrightarrow> rs_txn s i = Some t \<Longrightarrow> i \<in> active_calls (rs_db s) (txn_campaign t)"
  by (simp add: rollup_ok_def)

lemma active_calls_campaign:
  assumes "distinct (map cl_id (db_calls d))" and "i \<in> active_calls d a" and "i \<in> active_calls d b"
  shows "a = b"
  using assms call_key_eq [OF assms(1)] by (auto simp: active_calls_def in_calls_of)

lemma commit_db_calls [simp]: "db_calls (commit_db now i n cid dec d) = db_calls (own_view i n d)"
  by (cases dec) (simp_all add: commit_db_def campaign_transition_if_def Let_def)

lemma commit_db_sets [simp]:
  "active_calls (commit_db now i n cid dec d) c = active_calls (own_view i n d) c"
  "completed_calls (commit_db now i n cid dec d) c = completed_calls (own_view i n d) c"
  by (simp_all add: active_calls_def completed_calls_def calls_of_def)

lemma rollup_decision_cong:
  assumes "distinct (map cl_id (db_calls d))" and "distinct (map cl_id (db_calls d'))"
    and "i \<in> active_calls d cid" and "terminal n"
    and "active_calls d' cid = active_calls d cid" and "completed_calls d' cid = completed_calls d cid"
  shows "rollup_decision i n cid d' = rollup_decision i n cid d"
  using assms by (simp add: rollup_decision_iff)

lemma distinct_own_view [simp]:
  "distinct (map cl_id (db_calls (own_view i n d))) \<longleftrightarrow> distinct (map cl_id (db_calls d))"
  by (simp del: distinct_map)

text \<open>The campaigns after a commit under the lock: none is left active without active calls.\<close>

lemma commit_keeps_active:
  assumes dist: "distinct (map cl_id (db_calls d))" and i: "i \<in> active_calls d cid" and n: "terminal n"
    and act: "\<And>c. c \<in> set (db_campaigns d) \<Longrightarrow> cp_status c = ACTIVE \<Longrightarrow> active_calls d (cp_id c) \<noteq> {}"
    and c': "c' \<in> set (db_campaigns (commit_db now i n cid (rollup_decision i n cid d) d))"
    and active: "cp_status c' = ACTIVE"
  shows "active_calls (own_view i n d) (cp_id c') \<noteq> {}"
proof -
  note dec = rollup_decision_iff [OF dist i n] and other = completed_other_view(2) [OF dist i, of "cp_id c'" n]
  let ?t = "if completed_calls d cid \<noteq> {} \<or> n = COMPLETED then CAMPAIGN_IS_COMPLETED else CAMPAIGN_IS_FAILED"
  consider (busy) "active_calls d cid - {i} \<noteq> {}" "c' \<in> set (db_campaigns d)"
    | (idle) "c' \<in> set (update_where (\<lambda>c. cp_id c = cid \<and> cp_status c = ACTIVE)
        (\<lambda>c. c\<lparr>cp_status := ?t, cp_updated_at := now\<rparr>) (db_campaigns d))"
    using c' unfolding dec
    by (auto simp: commit_db_def campaign_transition_if_def Let_def split: if_splits)
  then show ?thesis
  proof cases
    case busy
    show ?thesis
    proof (cases "cp_id c' = cid")
      case True
      with busy(1) active_own_view [OF n, of i d cid] show ?thesis by simp
    next
      case False
      with other act [OF busy(2) active] show ?thesis by simp
    qed
  next
    case idle
    then obtain c where c: "c \<in> set (db_campaigns d)"
        "cp_id c = cid \<and> cp_status c = ACTIVE \<and> c' = c\<lparr>cp_status := ?t, cp_updated_at := now\<rparr> \<or>
         \<not> (cp_id c = cid \<and> cp_status c = ACTIVE) \<and> c' = c"
      unfolding in_set_update_where by blast
    have "c' = c" "cp_id c' \<noteq> cid"
      using c(2) active by (elim disjE conjE; simp split: if_splits)+
    with other act [OF c(1)] active show ?thesis by simp
  qed
qed

lemma rollup_ok_commit:
  assumes ok: "rollup_ok s" and tx: "rs_txn s i = Some (TxnDecided cid n dec)"
  shows "rollup_ok (s\<lparr>rs_db := commit_db now i n cid dec (rs_db s), rs_txn := (rs_txn s)(i := None),
                      rs_lock := (rs_lock s)(cid := None)\<rparr>)"
proof -
  let ?d = "rs_db s" and ?d' = "commit_db now i n cid dec (rs_db s)"
  have dist: "distinct (map cl_id (db_calls ?d))"
    and n: "terminal n" and lock: "rs_lock s cid = Some i"
    and dec: "dec = rollup_decision i n cid ?d"
    using ok tx by (auto simp: rollup_ok_def)
  have i: "i \<in> active_calls ?d cid" using rollup_ok_active [OF ok tx] by simp
  have dist': "distinct (map cl_id (db_calls ?d'))" using dist by (simp del: distinct_map)
  have act: "active_calls ?d' (cp_id c') \<noteq> {}"
    if "c' \<in> set (db_campaigns ?d')" "cp_status c' = ACTIVE" for c'
    using commit_keeps_active [OF dist i n _ that(1) [unfolded dec] that(2)] ok
    by (auto simp: rollup_ok_def)
  have mem: "j \<in> active_calls ?d' (txn_campaign t)" if "rs_txn s j = Some t" "j \<noteq> i" for j t
  proof -
    have "j \<in> active_calls ?d (txn_campaign t)" using ok that(1) by (simp add: rollup_ok_def)
    then show ?thesis
      using that(2) active_own_view [OF n, of i ?d cid] completed_other_view(2) [OF dist i, of "txn_campaign t" n]
      by (cases "txn_campaign t = cid") auto
  qed
  have other: "c \<noteq> cid" if "rs_lock s c = Some j" "j \<noteq> i" for c j using that lock by auto
  have same: "rollup_decision j m c ?d' = rollup_decision j m c ?d"
    if "j \<in> active_calls ?d c" "terminal m" "c \<noteq> cid" for j m c
    using that completed_other_view [OF dist i that(3), of n]
    by (intro rollup_decision_cong dist dist') simp_all
  have decided: "terminal m \<and> rs_lock s c = Some j \<and> c \<noteq> cid \<and> dec' = rollup_decision j m c ?d'"
    if "rs_txn s j = Some (TxnDecided c m dec')" "j \<noteq> i" for j c m dec'
  proof -
    have "terminal m \<and> rs_lock s c = Some j \<and> dec' = rollup_decision j m c ?d \<and> j \<in> active_calls ?d c"
      using ok that(1) rollup_ok_active [OF ok that(1)] by (auto simp: rollup_ok_def)
    with other [OF _ that(2)] same [of j c m] show ?thesis by auto
  qed
  have locked: "terminal m \<and> rs_lock s c = Some j \<and> c \<noteq> cid"
    if "rs_txn s j = Some (TxnLocked c m)" "j \<noteq> i" for j c m
    using ok that other [OF _ that(2)] by (auto simp: rollup_ok_def)
  show ?thesis
    unfolding rollup_ok_def
    using dist' act mem decided locked ok [unfolded rollup_ok_def] by simp
qed

lemma rollup_ok_others:
  assumes ok: "rollup_ok s" and oth: "other_commit s d'"
  shows "rollup_ok (s\<lparr>rs_db := d'\<rparr>)"
proof -
  let ?d = "rs_db s"
  have dist: "distinct (map cl_id (db_calls ?d))" "distinct (map cl_id (db_calls d'))"
    using ok oth by (auto simp: rollup_ok_def other_commit_def)
  have sets: "active_calls d' (txn_campaign t) = active_calls ?d (txn_campaign t)"
      "completed_calls d' (txn_campaign t) = completed_calls ?d (txn_campaign t)"
      "i \<in> active_calls ?d (txn_campaign t)" if "rs_txn s i = Some t" for i t
    using ok oth that by (auto simp: rollup_ok_def other_commit_def)
  have same: "rollup_decision i n cid d' = rollup_decision i n cid ?d"
    if "rs_txn s i = Some (TxnDecided cid n dec)" for i n cid dec
    using sets [OF that] ok that by (intro rollup_decision_cong dist) (auto simp: rollup_ok_def)
  have act: "active_calls d' (cp_id c') \<noteq> {}" if "c' \<in> set (db_campaigns d')" "cp_status c' = ACTIVE" for c'
  proof -
    from oth that obtain c where "c \<in> set (db_campaigns ?d)" "cp_id c = cp_id c'"
      "active_calls d' (cp_id c) = active_calls ?d (cp_id c)"
      "cp_status c' = cp_status c \<or> active_calls ?d (cp_id c) \<noteq> {}"
      unfolding other_commit_def by fastforce
    with ok that(2) show ?thesis by (auto simp: rollup_ok_def)
  qed
  show ?thesis
    unfolding rollup_ok_def using dist(2) act sets same ok [unfolded rollup_ok_def] by simp
qed

lemma rollup_ok_step:
  assumes "rollup_step True s s'" and ok: "rollup_ok s"
  shows "rollup_ok s'"
  using assms(1)
proof (cases rule: rollup_step.cases)
  case (moves r n)
  then have "cl_id r \<in> active_calls (rs_db s) (cl_campaign_id r)"
    by (auto simp: active_calls_def in_calls_of)
  with ok moves show ?thesis by (auto simp: rollup_ok_def)
next
  case (locks i cid n)
  have "i \<in> active_calls (rs_db s) cid" using rollup_ok_active [OF ok locks(2)] by simp
  with ok locks show ?thesis by (auto simp: rollup_ok_def split: if_splits)
next
  case (decides i cid n)
  have "i \<in> active_calls (rs_db s) cid" using rollup_ok_active [OF ok decides(2)] by simp
  with ok decides show ?thesis by (auto simp: rollup_ok_def split: if_splits)
next
  case (commits i cid n dec now)
  with rollup_ok_commit [OF ok] show ?thesis by simp
next
  case (aborts i t)
  with ok show ?thesis by (auto simp: rollup_ok_def split: if_splits)
next
  case (others d')
  with rollup_ok_others [OF ok] show ?thesis by simp
qed

lemma rollup_run_ok: "rollup_run True s t \<Longrightarrow> rollup_ok s \<Longrightarrow> rollup_ok t"
  by (induction rule: rollup_run.induct) (auto dest: rollup_ok_step)

text \<open>The start: any database in the invariant, with no transaction open.\<close>

definition rollup_start :: "db \<Rightarrow> rollup_state" where
  "rollup_start d = \<lparr>rs_db = d, rs_txn = (\<lambda>_. None), rs_lock = (\<lambda>_. None)\<rparr>"

lemma rollup_ok_start: "db_inv d \<Longrightarrow> rollup_ok (rollup_start d)"
  using db_invD(1) [of d] db_invD(6) [of d]
  by (fastforce simp: rollup_ok_def rollup_start_def active_calls_def campaign_ok_def)

text \<open>The tables after a decided transaction commits are those of the atomic rollup.\<close>

lemma atomic_rollup_tables:
  "db_calls (maybe_transition_campaign_terminal now cid (own_view i n d)) =
     db_calls (commit_db now i n cid (rollup_decision i n cid d) d)"
  "db_campaigns (maybe_transition_campaign_terminal now cid (own_view i n d)) =
     db_campaigns (commit_db now i n cid (rollup_decision i n cid d) d)"
  by (auto simp: maybe_transition_campaign_terminal_def commit_db_def rollup_decision_def
      campaign_transition_if_def Let_def)

end
