(* ===== verification/State_Properties.thy ===== *)
theory State_Properties
  imports Examples Rollup_Locking
begin

text \<open>
  The properties of the state machine, the retry policy, the campaign rollup and the stuck-call
  sweep, each with a witness at a concrete database.
\<close>

section \<open>The transition is a compare-and-set\<close>

text \<open>C1: \<open>state.transition\<close> applies exactly when a row with the expected id, status and epoch
  exists and the edge does not leave a terminal status; an applied one returns the row as stored, in
  its new status; one that is not applied changes nothing; and no other row is touched.\<close>

theorem transition_is_compare_and_set:
  assumes "transition now i e n ep ne et reason extra cols d = Inr (res, d')" and "db_inv d"
  shows "(tr_applied res \<longleftrightarrow> (terminal e \<longrightarrow> n = e) \<and>
            (\<exists>r \<in> set (db_calls d). cl_id r = i \<and> cl_status r = e \<and> cl_attempt_epoch r = ep)) \<and>
         (tr_applied res \<longrightarrow> (\<exists>r' \<in> set (db_calls d'). cl_id r' = i \<and> cl_status r' = n \<and> tr_row res = Some r')) \<and>
         (\<not> tr_applied res \<longrightarrow> d' = d) \<and>
         (\<forall>r \<in> set (db_calls d). cl_id r \<noteq> i \<longrightarrow> r \<in> set (db_calls d'))"
  using assms(1) db_invD(4) [OF assms(2)]
proof (cases rule: transition_outcome)
  case (applied r)
  let ?r = "transition_row now n ne cols r"
  have "?r \<in> set (db_calls d')" unfolding applied(8) using applied(1) by (intro move_call_in_calls) simp_all
  with applied transition_other_rows [OF assms(1) db_invD(4) [OF assms(2)]] show ?thesis
    by (auto simp: tr_applied_of_def)
qed (auto simp: tr_terminal_regression_def tr_no_op_def)

theorem transition_is_compare_and_set_witness:
  "\<exists>res d'. transition 5 11 DIALING COMPLETED 1 None TRANSITION [] [] [] ex_dialing = Inr (res, d') \<and>
     tr_applied res \<and> (\<exists>r' \<in> set (db_calls d'). cl_id r' = 11 \<and> cl_status r' = COMPLETED)"
proof -
  obtain res d' where run: "transition 5 11 DIALING COMPLETED 1 None TRANSITION [] [] [] ex_dialing = Inr (res, d')"
    by (auto simp: transition_def update_call_where_def update_where_def transition_row_def Let_def
        null_violation_def phone_index_ok_def in_phone_index_def terminal_iff ex_db_defs ex_defs)
  have "\<exists>r \<in> set (db_calls ex_dialing). cl_id r = 11 \<and> cl_status r = DIALING \<and> cl_attempt_epoch r = 1"
    by (simp add: ex_db_defs ex_defs)
  with transition_is_compare_and_set [OF run ex_dialing_inv] run show ?thesis
    by (auto simp: terminal_iff)
qed

text \<open>A column outside the allow-list is refused before the database is read, whatever it
  holds.\<close>

theorem transition_refuses_columns:
  assumes "c \<in> set (map fst cols)" and "c \<notin> set ALLOWED_COLUMN_UPDATES"
  shows "\<exists>msg. transition now i e n ep ne et reason extra cols d = Inl (ValueError msg)"
  using assms by (rule transition_unauthorized)

theorem transition_refuses_columns_witness:
  "\<exists>msg. transition 5 11 DIALING COMPLETED 1 None TRANSITION [] [] [(''phone'', ColNull)] ex_dialing =
     Inl (ValueError msg)"
  by (rule transition_refuses_columns [of "''phone''"]) (simp_all add: ALLOWED_COLUMN_UPDATES_def)

section \<open>Retries\<close>

text \<open>C16: an applied disposition closes the call on \<open>COMPLETED\<close> and \<open>FAILED\<close>; on \<open>NO_ANSWER\<close> and
  \<open>BUSY\<close> it consumes one retry and schedules the next attempt at the backoff time while the budget
  lasts, and fails the call when it is spent.\<close>

theorem retryable_outcome_effect:
  assumes run: "apply_retryable_outcome now py u i e ep rr oc base pre d = Inr (res, d')"
    and inv: "db_inv d" and app: "tr_applied res"
  shows "\<exists>r' \<in> set (db_calls d'). tr_row res = Some r' \<and> cl_id r' = i \<and> cl_attempt_epoch r' = ep \<and>
    (if oc = COMPLETED \<or> oc = FAILED then cl_status r' = oc
     else (oc = NO_ANSWER \<or> oc = BUSY) \<and>
       (if 0 < rr then cl_status r' = RETRY_PENDING \<and> cl_retries_remaining r' = rr - 1 \<and>
          (\<exists>t. next_attempt_time u py ep base = Inr t \<and> cl_next_attempt_at r' = Some t)
        else cl_status r' = FAILED))"
proof -
  have row: "\<exists>r \<in> set (db_calls d). transition_row now n None cols r \<in> set (db_calls d') \<and>
      tr_row res = Some (transition_row now n None cols r) \<and> cl_id r = i \<and> cl_attempt_epoch r = ep"
    if "transition now i e n ep None TRANSITION reason [] cols d = Inr (res, d')" for n reason cols
    using that db_invD(4) [OF inv]
  proof (cases rule: transition_outcome)
    case (applied r)
    then show ?thesis
      using move_call_in_calls [of r d "transition_row now n None cols r" now]
      by (auto simp: tr_applied_of_def)
  qed (use app in \<open>auto simp: tr_terminal_regression_def tr_no_op_def\<close>)
  from run show ?thesis
  proof (cases rule: apply_retryable_outcome_cases)
    case (final reason)
    from row [OF final(2)] final(1) show ?thesis by (auto simp: transition_row_def)
  next
    case (retry t reason)
    from row [OF retry(4)] retry(1,2,3) show ?thesis by (auto simp: transition_row_def)
  next
    case (exhausted reason)
    from row [OF exhausted(3)] exhausted(1,2) show ?thesis by (auto simp: transition_row_def)
  qed
qed

lemma ex_no_answer:
  "\<exists>res d'. apply_retryable_outcome 5 5 0 11 DIALING 1 1 NO_ANSWER 30 ''webhook'' ex_dialing = Inr (res, d') \<and>
     tr_applied res"
  by (simp add: apply_retryable_outcome_def next_attempt_time_def compute_backoff_def backoff_exponent_def
      timedelta_of_seconds_def round_half_even_def timedelta_max_def datetime_plus_def datetime_min_def
      datetime_max_def transition_def ALLOWED_COLUMN_UPDATES_def update_call_where_def update_where_def
      transition_row_def Let_def null_violation_def phone_index_ok_def in_phone_index_def terminal_iff
      tr_applied_of_def ex_db_defs ex_defs)

theorem retryable_outcome_effect_witness:
  "\<exists>res d'. apply_retryable_outcome 5 5 0 11 DIALING 1 1 NO_ANSWER 30 ''webhook'' ex_dialing = Inr (res, d') \<and>
     (\<exists>r' \<in> set (db_calls d'). cl_id r' = 11 \<and> cl_status r' = RETRY_PENDING \<and> cl_retries_remaining r' = 0)"
proof -
  obtain res d' where run: "apply_retryable_outcome 5 5 0 11 DIALING 1 1 NO_ANSWER 30 ''webhook'' ex_dialing = Inr (res, d')"
    and app: "tr_applied res" using ex_no_answer by blast
  from retryable_outcome_effect [OF run ex_dialing_inv app]
  have "\<exists>r' \<in> set (db_calls d'). cl_id r' = 11 \<and> cl_status r' = RETRY_PENDING \<and> cl_retries_remaining r' = 0"
    by auto
  with run show ?thesis by blast
qed



section \<open>The rollup under concurrency\<close>

text \<open>C18: however transactions interleave, one that has counted the calls under the campaign's row lock
  commits what the atomic rollup on the database of that moment would write: the statements of
  \<open>maybe_transition_campaign_terminal\<close> may be treated as one step.\<close>

theorem locked_rollup_is_atomic:
  assumes "rollup_run True (rollup_start d) s" and "db_inv d"
    and "rs_txn s i = Some (TxnDecided cid n dec)"
  shows "db_calls (commit_db now i n cid dec (rs_db s)) =
           db_calls (maybe_transition_campaign_terminal now cid (own_view i n (rs_db s))) \<and>
         db_campaigns (commit_db now i n cid dec (rs_db s)) =
           db_campaigns (maybe_transition_campaign_terminal now cid (own_view i n (rs_db s)))"
proof -
  have "rollup_ok s" by (rule rollup_run_ok [OF assms(1) rollup_ok_start [OF assms(2)]])
  then have "dec = rollup_decision i n cid (rs_db s)" using assms(3) by (auto simp: rollup_ok_def)
  then show ?thesis by (simp only: atomic_rollup_tables)
qed

definition ex_decided :: rollup_state where
  "ex_decided = (rollup_start ex_last)
     \<lparr>rs_txn := [11 \<mapsto> TxnDecided 7 FAILED (rollup_decision 11 FAILED 7 ex_last)],
      rs_lock := [7 \<mapsto> 11]\<rparr>"

lemma ex_decided_run: "rollup_run True (rollup_start ex_last) ex_decided"
proof -
  let ?s = "rollup_start ex_last"
  let ?s1 = "?s\<lparr>rs_txn := [11 \<mapsto> TxnMoved 7 FAILED]\<rparr>"
  let ?s2 = "?s1\<lparr>rs_txn := (rs_txn ?s1)(11 \<mapsto> TxnLocked 7 FAILED), rs_lock := (rs_lock ?s1)(7 \<mapsto> 11)\<rparr>"
  let ?r = "ex_call 11 ''+15550000001'' DIALING 1 1 (Some ''mock-1'')"
  have "rollup_step True ?s ?s1"
    using rollup_step.moves [of ?s ?r FAILED True]
    by (simp add: rollup_start_def ex_last_def ex_defs terminal_iff)
  moreover have "rollup_step True ?s1 ?s2"
    by (rule rollup_step.locks) (simp_all add: rollup_start_def)
  moreover have "rollup_step True ?s2 ex_decided"
    using rollup_step.decides [of ?s2 11 7 FAILED True] by (simp add: rollup_start_def ex_decided_def)
  ultimately show ?thesis by (meson rollup_run.run_refl rollup_run.run_step)
qed

theorem locked_rollup_is_atomic_witness:
  "db_campaigns (commit_db 9 11 FAILED 7 (rollup_decision 11 FAILED 7 ex_last) ex_last) =
   db_campaigns (maybe_transition_campaign_terminal 9 7 (own_view 11 FAILED ex_last))"
  using locked_rollup_is_atomic [OF ex_decided_run ex_last_inv, of 11 7 FAILED
      "rollup_decision 11 FAILED 7 ex_last" 9]
  by (simp add: ex_decided_def rollup_start_def)

text \<open>C19: with the lock, no interleaving of terminal transitions strands a campaign: one that is still
  \<open>ACTIVE\<close> has a call that is not terminal.\<close>

theorem locked_rollup_never_strands:
  assumes "rollup_run True (rollup_start d) s" and "db_inv d"
    and "c \<in> set (db_campaigns (rs_db s))" and "cp_status c = ACTIVE"
  shows "\<exists>r \<in> set (calls_of (rs_db s) (cp_id c)). \<not> terminal (cl_status r)"
proof -
  have "rollup_ok s" by (rule rollup_run_ok [OF assms(1) rollup_ok_start [OF assms(2)]])
  with assms(3,4) have "active_calls (rs_db s) (cp_id c) \<noteq> {}" by (simp add: rollup_ok_def)
  then show ?thesis by (auto simp: active_calls_def)
qed

theorem locked_rollup_never_strands_witness:
  "\<exists>r \<in> set (calls_of (rs_db ex_decided) 7). \<not> terminal (cl_status r)"
  using locked_rollup_never_strands [OF ex_decided_run ex_last_inv, of "ex_campaign ACTIVE"]
  by (simp add: ex_decided_def rollup_start_def ex_last_def ex_campaign_def)


section \<open>The stuck-call sweep\<close>

text \<open>C24: a row the sweep finds stuck is closed with the status the provider confirms; when the
  provider is silent, unsure or was never reached, it is requeued at the next epoch with its handle
  cleared, so that no event of the dead attempt can find it.\<close>

theorem reclaim_effect:
  assumes "reclaim_one_inner gs now row d = Inr (ro, d')" and "db_inv d"
    and "row \<in> set (find_stuck_dialing t k d)"
  shows "(case confirmed_terminal gs row of
      Some s \<Rightarrow> terminal s \<and> ro_kind ro = TERMINAL_APPLIED \<and>
        (\<exists>r' \<in> set (db_calls d'). cl_id r' = cl_id row \<and> cl_status r' = s \<and>
           cl_attempt_epoch r' = cl_attempt_epoch row)
    | None \<Rightarrow> ro_kind ro = EXECUTED \<and>
        (\<exists>r' \<in> set (db_calls d'). cl_id r' = cl_id row \<and> cl_status r' = QUEUED \<and>
           cl_attempt_epoch r' = cl_attempt_epoch row + 1) \<and>
        (\<forall>p r. get_by_provider_call_id p d' = Some r \<longrightarrow> cl_id r \<noteq> cl_id row))"
proof -
  have row: "row \<in> set (db_calls d)" "cl_status row = DIALING"
    using assms(3) by (simp_all add: find_stuck_dialing_mem)
  have inv': "db_inv d'" using reclaim_one_inner_inv [OF assms(1,2)] by simp
  note eff = reclaim_one_effect [OF assms(1,2) row]
  show ?thesis
  proof (cases "confirmed_terminal gs row")
    case (Some s)
    let ?r = "row\<lparr>cl_status := s, cl_updated_at := now\<rparr>"
    have "ro_kind ro = TERMINAL_APPLIED" "?r \<in> set (db_calls d')" using eff Some by simp_all
    then have "ro_kind ro = TERMINAL_APPLIED \<and> (\<exists>r' \<in> set (db_calls d'). cl_id r' = cl_id row \<and>
        cl_status r' = s \<and> cl_attempt_epoch r' = cl_attempt_epoch row)"
      by (intro conjI bexI [of _ ?r]) simp_all
    with Some confirmed_terminal_terminal [OF Some] show ?thesis by simp
  next
    case None
    let ?r = "row\<lparr>cl_status := QUEUED, cl_updated_at := now,
      cl_attempt_epoch := cl_attempt_epoch row + 1, cl_provider_call_id := None\<rparr>"
    have kind: "ro_kind ro = EXECUTED" and mem: "?r \<in> set (db_calls d')" using eff None by simp_all
    have "cl_id r \<noteq> cl_id row" if "get_by_provider_call_id p d' = Some r" for p r
    proof
      assume "cl_id r = cl_id row"
      moreover have r: "r \<in> set (db_calls d')" "cl_provider_call_id r = Some p"
        using that by (auto simp: get_by_provider_call_id_def dest: find_Some_iff_set)
      ultimately have "r = ?r" using mem by (intro call_key_eq [OF db_invD(1) [OF inv']]) simp_all
      then have "cl_provider_call_id r = None" by simp
      with r(2) show False by simp
    qed
    moreover have "\<exists>r' \<in> set (db_calls d'). cl_id r' = cl_id row \<and> cl_status r' = QUEUED \<and>
        cl_attempt_epoch r' = cl_attempt_epoch row + 1"
      using mem by (rule bexI [rotated]) simp
    ultimately show ?thesis using None kind by simp
  qed
qed

lemma ex_reclaim:
  "\<exists>ro d'. reclaim_one_inner (\<lambda>_. StatusTimeout) 700000000
     (ex_call 11 ''+15550000001'' DIALING 1 1 (Some ''mock-1'')) ex_dialing = Inr (ro, d')"
  by (simp add: reclaim_one_inner_def confirmed_terminal_def best_effort_get_status_def apply_reclaim_def
      transition_def ALLOWED_COLUMN_UPDATES_def update_call_where_def update_where_def transition_row_def
      Let_def null_violation_def phone_index_ok_def in_phone_index_def terminal_iff ex_db_defs ex_defs)

theorem reclaim_effect_witness:
  "\<exists>ro d'. reclaim_one_inner (\<lambda>_. StatusTimeout) 700000000
     (ex_call 11 ''+15550000001'' DIALING 1 1 (Some ''mock-1'')) ex_dialing = Inr (ro, d') \<and>
     ro_kind ro = EXECUTED"
proof -
  let ?row = "ex_call 11 ''+15550000001'' DIALING 1 1 (Some ''mock-1'')"
  obtain ro d' where run: "reclaim_one_inner (\<lambda>_. StatusTimeout) 700000000 ?row ex_dialing = Inr (ro, d')"
    using ex_reclaim by blast
  have "?row \<in> set (find_stuck_dialing 700000000 630 ex_dialing)"
    by (simp add: find_stuck_dialing_def ex_db_defs ex_defs)
  from reclaim_effect [OF run ex_dialing_inv this] run show ?thesis
    by (auto simp: confirmed_terminal_def best_effort_get_status_def ex_call_def)
qed

text \<open>A stuck row that a webhook or another sweep has moved meanwhile is left alone.\<close>

theorem reclaim_skips_moved_rows:
  assumes "reclaim_one_inner gs now row d = Inr (ro, d')" and "db_inv d"
    and "r \<in> set (db_calls d)" and "cl_id r = cl_id row"
    and "cl_status r \<noteq> DIALING \<or> cl_attempt_epoch r \<noteq> cl_attempt_epoch row"
  shows "ro_kind ro = SKIPPED_NO_OP \<and> d' = d"
proof (rule reclaim_one_stale [OF assms(1) db_invD(4) [OF assms(2)]])
  fix x assume "x \<in> set (db_calls d)" "cl_id x = cl_id row"
  then have "x = r" using assms(3,4) by (intro call_key_eq [OF db_invD(1) [OF assms(2)]]) auto
  with assms(5) show "cl_status x \<noteq> DIALING \<or> cl_attempt_epoch x \<noteq> cl_attempt_epoch row" by simp
qed

theorem reclaim_skips_moved_rows_witness:
  "\<exists>ro d'. reclaim_one_inner (\<lambda>_. StatusTimeout) 700000000
     (ex_call 12 ''+15550000002'' DIALING 1 1 None) ex_last = Inr (ro, d') \<and>
     ro_kind ro = SKIPPED_NO_OP \<and> d' = ex_last"
proof -
  let ?row = "ex_call 12 ''+15550000002'' DIALING 1 1 None"
  let ?r = "ex_call 12 ''+15550000002'' COMPLETED 1 1 (Some ''mock-2'')"
  obtain ro d' where run: "reclaim_one_inner (\<lambda>_. StatusTimeout) 700000000 ?row ex_last = Inr (ro, d')"
    by (simp add: reclaim_one_inner_def confirmed_terminal_def apply_reclaim_def transition_def
        ALLOWED_COLUMN_UPDATES_def update_call_where_def update_where_def Let_def phone_index_ok_def
        in_phone_index_def terminal_iff ex_db_defs ex_defs)
  from reclaim_skips_moved_rows [OF run ex_last_inv, of ?r] run show ?thesis
    by (simp add: ex_last_def ex_call_def)
qed

text \<open>The reclaim and the claim each bump the epoch, so one redial of a reclaimed call raises the
  campaign's \<open>retries_attempted\<close> by two.\<close>

theorem reclaimed_redial_counts_twice:
  "\<exists>ro d1 cl d2.
     reclaim_one_inner (\<lambda>_. StatusTimeout) 9 (hd (db_calls ex_dialing)) ex_dialing = Inr (ro, d1) \<and>
     ro_kind ro = EXECUTED \<and> claim_next_queued (\<lambda>_. False) 9 7 d1 = Inr (Some cl, d2) \<and> cl_id cl = 11 \<and>
     st_retries_attempted (campaign_stats ex_dialing 7) = 0 \<and> st_retries_attempted (campaign_stats d2 7) = 2"
proof -
  let ?r = "reclaim_one_inner (\<lambda>_. StatusTimeout) 9 (hd (db_calls ex_dialing)) ex_dialing"
  let ?c = "claim_next_queued (\<lambda>_. False) 9 7 (snd (projr ?r))"
  have "isl ?r = False" "ro_kind (fst (projr ?r)) = EXECUTED" by code_simp+
  moreover have "isl ?c = False" "fst (projr ?c) \<noteq> None" "cl_id (the (fst (projr ?c))) = 11" by code_simp+
  moreover have "st_retries_attempted (campaign_stats ex_dialing 7) = 0"
    "st_retries_attempted (campaign_stats (snd (projr ?c)) 7) = 2" by code_simp+
  moreover have "x = Inr (projr x)" if "isl x = False" for x :: "(reclaim_outcome \<times> db) result"
    using that by (cases x) auto
  ultimately show ?thesis
    using ex_claimI [of ?c]
    by (intro exI [of _ "fst (projr ?r)"] exI [of _ "snd (projr ?r)"] exI [of _ "the (fst (projr ?c))"]
        exI [of _ "snd (projr ?c)"]) simp
qed

end
