(* ===== verification/Wake_Loop.thy ===== *)
theory Wake_Loop
  imports Prelude
begin

text \<open>
  The scheduler's wake-up protocol (\<^verbatim>\<open>app/scheduler/wake.py\<close>, \<^verbatim>\<open>app/scheduler/loop.py\<close>):
  one \<open>asyncio.Event\<close>, set by whoever frees capacity, and the loop \<open>wait; clear; tick\<close>. The
  coroutine is its list of remaining operations, so other tasks can notify between any two of them.
\<close>

section \<open>The event\<close>

record scheduler_wake =
  wk_event :: bool

definition wake_init :: scheduler_wake where
  "wake_init = \<lparr>wk_event = False\<rparr>"

definition notify :: "scheduler_wake \<Rightarrow> scheduler_wake" where
  "notify w = w\<lparr>wk_event := True\<rparr>"

definition clear :: "scheduler_wake \<Rightarrow> scheduler_wake" where
  "clear w = w\<lparr>wk_event := False\<rparr>"

text \<open>
  What \<open>wait(timeout)\<close> returns when the event is first set after \<open>set_after\<close> seconds (\<open>None\<close>:
  never); \<open>None\<close> is not returning.
\<close>

definition wake_wait :: "rat option \<Rightarrow> rat option \<Rightarrow> scheduler_wake \<Rightarrow> bool option" where
  "wake_wait timeout set_after w =
     (if wk_event w then Some True
      else case timeout of
        None \<Rightarrow> (case set_after of None \<Rightarrow> None | Some t \<Rightarrow> Some True)
      | Some limit \<Rightarrow>
          (case set_after of
             None \<Rightarrow> Some False
           | Some t \<Rightarrow> Some (t < limit)))"

section \<open>The loop\<close>

datatype loop_op =
    OpWait
  | OpClear
  | OpTick
  | OpTicking
  | OpSleep

definition loop_body :: "loop_op list" where
  "loop_body = [OpWait, OpClear, OpTick]"

text \<open>
  \<open>lp_unseen\<close> is the specification's view: a notification has arrived that no tick has started
  after. \<open>OpTick\<close> starts the tick's reads, \<open>OpTicking\<close> is the rest of it.
\<close>

record loop_state =
  lp_wake :: scheduler_wake
  lp_rest :: "loop_op list"
  lp_unseen :: bool

definition loop_init :: loop_state where
  "loop_init = \<lparr>lp_wake = wake_init, lp_rest = loop_body, lp_unseen = False\<rparr>"

inductive loop_step :: "loop_state \<Rightarrow> loop_state \<Rightarrow> bool" where
  notified: "loop_step s (s\<lparr>lp_wake := notify (lp_wake s), lp_unseen := True\<rparr>)"
| woken: "lp_rest s = OpWait # ops \<Longrightarrow> wk_event (lp_wake s) \<Longrightarrow> loop_step s (s\<lparr>lp_rest := ops\<rparr>)"
| timed_out: "lp_rest s = OpWait # ops \<Longrightarrow> loop_step s (s\<lparr>lp_rest := ops\<rparr>)"
| cleared: "lp_rest s = OpClear # ops \<Longrightarrow> loop_step s (s\<lparr>lp_wake := clear (lp_wake s), lp_rest := ops\<rparr>)"
| tick_starts: "lp_rest s = OpTick # ops \<Longrightarrow>
    loop_step s (s\<lparr>lp_rest := OpTicking # ops, lp_unseen := False\<rparr>)"
| tick_returns: "lp_rest s = OpTicking # ops \<Longrightarrow> loop_step s (s\<lparr>lp_rest := ops\<rparr>)"
| tick_raises: "lp_rest s = OpTicking # ops \<Longrightarrow> loop_step s (s\<lparr>lp_rest := [OpSleep]\<rparr>)"
| slept: "lp_rest s = OpSleep # ops \<Longrightarrow> loop_step s (s\<lparr>lp_rest := ops\<rparr>)"
| loops: "lp_rest s = [] \<Longrightarrow> loop_step s (s\<lparr>lp_rest := loop_body\<rparr>)"

inductive loop_run :: "loop_state \<Rightarrow> bool" where
  loop_starts: "loop_run loop_init"
| loop_goes: "loop_run s \<Longrightarrow> loop_step s t \<Longrightarrow> loop_run t"

text \<open>The places a run of the loop can be at.\<close>

definition loop_points :: "loop_op list set" where
  "loop_points = {[], [OpSleep], [OpTicking], [OpTick], [OpClear, OpTick], [OpWait, OpClear, OpTick]}"

text \<open>An unseen notification is in the event, or a tick is about to start.\<close>

definition loop_inv :: "loop_state \<Rightarrow> bool" where
  "loop_inv s \<longleftrightarrow>
     lp_rest s \<in> loop_points \<and>
     (lp_unseen s \<longrightarrow> wk_event (lp_wake s) \<or> lp_rest s = [OpTick])"

lemma loop_inv_step: "loop_step s t \<Longrightarrow> loop_inv s \<Longrightarrow> loop_inv t"
  by (cases rule: loop_step.cases, assumption)
    (auto simp: loop_inv_def loop_points_def notify_def clear_def loop_body_def)

lemma loop_run_inv: "loop_run s \<Longrightarrow> loop_inv s"
proof (induction rule: loop_run.induct)
  case loop_starts
  then show ?case by (simp add: loop_inv_def loop_init_def loop_body_def loop_points_def)
qed (rule loop_inv_step)

end
