(* ===== verification/Scheduler_Properties.thy ===== *)
theory Scheduler_Properties
  imports Examples Wake_Loop
begin

text \<open>
  The properties of one scheduler tick, of business hours and of the wake-up loop, each with a
  witness.
\<close>

section \<open>What a tick selects\<close>

text \<open>C11: the campaign a tick dispatches from is open, below its cap and has work; retries that are due
  come before new calls; within the class that goes first it is the one dispatched from longest ago
  (never first, ties by id); and selecting writes nothing but skip rows.\<close>

theorem tick_selects_fairly:
  assumes "tick_select zones t now d = (Inr (Picked c is_retry), d')"
  shows "c \<in> set (tick_candidates zones t d) \<and>
    (is_retry \<longleftrightarrow> (\<exists>x \<in> set (tick_candidates zones t d). cp_id x \<in> set (find_retry_due_campaign_ids now d))) \<and>
    (is_retry \<longrightarrow> cp_id c \<in> set (find_retry_due_campaign_ids now d)) \<and>
    (\<forall>x \<in> set (tick_candidates zones t d).
       \<not> is_retry \<or> cp_id x \<in> set (find_retry_due_campaign_ids now d) \<longrightarrow> rr_sort_key c \<le> rr_sort_key x) \<and>
    db_calls d' = db_calls d \<and> db_campaigns d' = db_campaigns d \<and> db_cursors d' = db_cursors d"
proof (cases rule: tick_select_cases [where zones = zones and t = t and now = now and d = d])
  case raises
  with assms show ?thesis by simp
next
  case selects
  with assms have p: "pick (find_retry_due_campaign_ids now d) (tick_candidates zones t d) = Picked c is_retry"
    by simp
  from pick_cases [OF p] selects(2) assms show ?thesis
    by (auto simp: only_quiet_rows_added_def)
qed

lemma ex_select:
  "fst (tick_select (\<lambda>z. Some (\<lambda>_. 0)) 0 0 ex_pending) = Inr (Picked (with_cursor ex_pending (ex_campaign PENDING)) False)"
  by code_simp

theorem tick_selects_fairly_witness:
  "with_cursor ex_pending (ex_campaign PENDING) \<in> set (tick_candidates (\<lambda>z. Some (\<lambda>_. 0)) 0 ex_pending)"
  using tick_selects_fairly [of "\<lambda>z. Some (\<lambda>_. 0)" 0 0 ex_pending
      "with_cursor ex_pending (ex_campaign PENDING)" False
      "snd (tick_select (\<lambda>z. Some (\<lambda>_. 0)) 0 0 ex_pending)"] ex_select
  by (metis prod.collapse)

text \<open>A tick never takes a campaign above its cap: afterwards it has at most \<open>max_concurrent\<close> calls in
  flight, or no more than before.\<close>

theorem tick_respects_cap:
  assumes "db_inv d" and "x \<in> set (db_campaigns d)"
  shows "in_flight_count (snd (tick env d)) (cp_id x) \<le> max (in_flight_count d (cp_id x)) (cp_max_concurrent x)"
  using assms by (rule tick_in_flight)

theorem tick_respects_cap_witness:
  "in_flight_count (snd (tick ex_env ex_dialing)) 7 \<le> 2"
proof -
  have "ex_campaign ACTIVE \<in> set (db_campaigns ex_dialing)" by (simp add: ex_dialing_def)
  from tick_respects_cap [OF ex_dialing_inv this, of ex_env] show ?thesis
    by (simp add: ex_dialing_def ex_defs in_flight_count_def count_status_def)
qed



section \<open>Business hours\<close>






section \<open>A due retry that cannot be requeued\<close>







section \<open>Waking the scheduler\<close>

text \<open>C27: no wake-up is lost. Whenever the loop is about to wait and a notification has arrived that no
  tick has started after, the event is set, so \<open>wait\<close> returns at once instead of sleeping for the
  safety net.\<close>

theorem no_lost_wakeup:
  assumes "loop_run s" and "lp_rest s = OpWait # ops" and "lp_unseen s"
  shows "wake_wait timeout set_after (lp_wake s) = Some True"
  using loop_run_inv [OF assms(1)] assms(2,3) by (auto simp: loop_inv_def wake_wait_def)

theorem no_lost_wakeup_witness:
  "wake_wait (Some 1) None (notify wake_init) = Some True"
proof -
  let ?s = "loop_init\<lparr>lp_wake := notify (lp_wake loop_init), lp_unseen := True\<rparr>"
  have "loop_run ?s" by (rule loop_goes [OF loop_starts notified])
  from no_lost_wakeup [OF this, of "[OpClear, OpTick]" "Some 1" None] show ?thesis
    by (simp add: loop_init_def loop_body_def)
qed

end
