(* ===== verification/Keyset.thy ===== *)
theory Keyset
  imports Prelude
begin

text \<open>
  Keyset pagination, the discipline of every listing of the service: \<open>ORDER BY key DESC LIMIT n\<close>
  after \<open>WHERE key < cursor\<close>, and a next cursor exactly when the page is full. The locale states what
  a listing promises; inside it, following the cursors of an unchanging table yields every row once,
  in order.
\<close>

section \<open>A page\<close>

definition keyset_rows :: "('r \<Rightarrow> 'k::linorder) \<Rightarrow> 'k option \<Rightarrow> nat \<Rightarrow> 'r list \<Rightarrow> 'r list" where
  "keyset_rows key cursor n rs =
     take n (rev (sort_key key (filter (\<lambda>r. case cursor of None \<Rightarrow> True | Some k \<Rightarrow> key r < k) rs)))"

definition keyset_next :: "('r \<Rightarrow> 'k::linorder) \<Rightarrow> nat \<Rightarrow> 'r list \<Rightarrow> 'k option" where
  "keyset_next key n result = (if length result = n \<and> result \<noteq> [] then Some (key (last result)) else None)"

section \<open>Descending lists\<close>

definition descending :: "('r \<Rightarrow> 'k::linorder) \<Rightarrow> 'r list \<Rightarrow> bool" where
  "descending key rs \<longleftrightarrow> sorted_wrt (\<lambda>x y. key y < key x) rs"

definition all_rows :: "('r \<Rightarrow> 'k::linorder) \<Rightarrow> 'r list \<Rightarrow> 'r list" where
  "all_rows key rs = rev (sort_key key rs)"

lemma descending_all_rows:
  assumes "distinct (map key rs)"
  shows "descending key (all_rows key rs)"
proof -
  have "distinct (map key (sort_key key rs))"
    using assms by (metis distinct_map distinct_sort inj_on_cong set_sort)
  then have "sorted_wrt (<) (map key (sort_key key rs))"
    by (simp add: strict_sorted_iff)
  then show ?thesis
    by (simp add: descending_def all_rows_def sorted_wrt_rev sorted_wrt_map)
qed

lemma set_all_rows [simp]: "set (all_rows key rs) = set rs" "length (all_rows key rs) = length rs"
  by (simp_all add: all_rows_def)

lemma keyset_rows_filter:
  "keyset_rows key c n rs =
   take n (filter (\<lambda>r. case c of None \<Rightarrow> True | Some k \<Rightarrow> key r < k) (all_rows key rs))"
  by (simp add: keyset_rows_def all_rows_def rev_filter filter_sort [symmetric])

lemma descending_filter: "descending key rs \<Longrightarrow> descending key (filter P rs)"
  by (simp add: descending_def sorted_wrt_filter)

lemma filter_below_last:
  assumes "descending key (xs @ ys)" and "xs \<noteq> []"
  shows "filter (\<lambda>r. key r < key (last xs)) (xs @ ys) = ys"
proof -
  obtain zs z where xs: "xs = zs @ [z]" using assms(2) by (metis rev_exhaust)
  have "\<not> key r < key z" if "r \<in> set xs" for r
    using assms(1) that unfolding xs descending_def by (auto simp: sorted_wrt_append)
  moreover have "key r < key z" if "r \<in> set ys" for r
    using assms(1) that unfolding xs descending_def by (auto simp: sorted_wrt_append)
  ultimately show ?thesis unfolding xs by simp
qed

lemma keyset_next_key:
  "keyset_next key n (keyset_rows key c n rs) = Some k \<Longrightarrow> k \<in> key ` set rs"
proof -
  assume "keyset_next key n (keyset_rows key c n rs) = Some k"
  then have k: "keyset_rows key c n rs \<noteq> []" "k = key (last (keyset_rows key c n rs))"
    by (auto simp: keyset_next_def split: if_splits)
  have "set (keyset_rows key c n rs) \<subseteq> set rs"
    using set_take_subset by (fastforce simp: keyset_rows_def)
  with k last_in_set show ?thesis by blast
qed

section \<open>A client\<close>

text \<open>A client that follows the text cursors until there is none; \<open>fetch\<close> is one request.\<close>

fun follow :: "(string option \<Rightarrow> ('r list \<times> string option) result) \<Rightarrow> nat \<Rightarrow> string option \<Rightarrow> 'r list result" where
  "follow fetch 0 cursor = Inr []"
| "follow fetch (Suc fuel) cursor =
     bind_res (fetch cursor) (\<lambda>(rs, nxt).
       case nxt of
         None \<Rightarrow> Inr rs
       | Some c \<Rightarrow> bind_res (follow fetch fuel (Some c)) (\<lambda>rest. Inr (rs @ rest)))"

lemma follow_map:
  "follow (\<lambda>c. bind_res (fetch c) (\<lambda>(rs, nxt). Inr (map g rs, nxt))) fuel c =
   bind_res (follow fetch fuel c) (\<lambda>rs. Inr (map g rs))"
proof (induction fuel arbitrary: c)
  case (Suc fuel)
  show ?case
  proof (cases "fetch c")
    case (Inr p)
    obtain rs nxt where "p = (rs, nxt)" by (cases p)
    with Inr Suc.IH show ?thesis
      by (cases nxt; cases "follow fetch fuel (Some (the nxt))") simp_all
  qed simp
qed simp

section \<open>The contract of a listing\<close>

locale keyset_listing =
  fixes rows :: "'d \<Rightarrow> 'r list"
    and key :: "'r \<Rightarrow> 'k::linorder"
    and page :: "'k option \<Rightarrow> nat \<Rightarrow> 'd \<Rightarrow> 'r list \<times> 'k option"
  assumes page_rows: "0 < n \<Longrightarrow> fst (page c n d) = keyset_rows key c n (rows d)"
    and page_next: "0 < n \<Longrightarrow> snd (page c n d) = keyset_next key n (fst (page c n d))"
begin

fun walk :: "nat \<Rightarrow> 'k option \<Rightarrow> nat \<Rightarrow> 'd \<Rightarrow> 'r list" where
  "walk 0 c n d = []"
| "walk (Suc fuel) c n d =
     fst (page c n d) @
     (case snd (page c n d) of None \<Rightarrow> [] | Some k \<Rightarrow> walk fuel (Some k) n d)"

lemma page_bounded: "0 < n \<Longrightarrow> length (fst (page c n d)) \<le> n"
  by (simp add: page_rows keyset_rows_def)

lemma walk_from:
  assumes "distinct (map key (rows d))" and "0 < n"
    and "length (filter (\<lambda>r. case c of None \<Rightarrow> True | Some k \<Rightarrow> key r < k) (all_rows key (rows d))) < fuel"
  shows "walk fuel c n d =
    filter (\<lambda>r. case c of None \<Rightarrow> True | Some k \<Rightarrow> key r < k) (all_rows key (rows d))"
  using assms(3)
proof (induction fuel arbitrary: c)
  case (Suc fuel)
  let ?S = "all_rows key (rows d)"
  let ?B = "filter (\<lambda>r. case c of None \<Rightarrow> True | Some k \<Rightarrow> key r < k) ?S"
  have desc: "descending key ?B" by (intro descending_filter descending_all_rows assms(1))
  have page: "fst (page c n d) = take n ?B"
    using page_rows [OF assms(2)] by (simp add: keyset_rows_filter)
  note nxt = page_next [OF assms(2), of c d, unfolded page keyset_next_def]
  show ?case
  proof (cases "length (take n ?B) = n \<and> take n ?B \<noteq> []")
    case False
    then have "take n ?B = ?B" using assms(2) by (auto simp: min_def split: if_splits)
    moreover have "snd (page c n d) = None" using nxt False by (simp only: if_False)
    ultimately show ?thesis using page by simp
  next
    case True
    let ?k = "key (last (take n ?B))"
    have "last (take n ?B) \<in> set ?B" using True by (metis in_set_takeD last_in_set)
    then have below: "\<And>r. key r < ?k \<Longrightarrow> (case c of None \<Rightarrow> True | Some k \<Rightarrow> key r < k)"
      by (auto split: option.splits)
    have "filter (\<lambda>r. key r < ?k) ?B = drop n ?B"
      using filter_below_last [of key "take n ?B" "drop n ?B"] desc True by simp
    moreover have "filter (\<lambda>r. key r < ?k) ?B = filter (\<lambda>r. key r < ?k) ?S"
      unfolding filter_filter by (rule filter_cong [OF refl]) (use below in blast)
    ultimately have rest: "filter (\<lambda>r. key r < ?k) ?S = drop n ?B" by simp
    have "length ?B < Suc fuel" using Suc.prems .
    moreover have "n \<le> length ?B" using True by (metis length_take min.cobounded1)
    ultimately have "length (drop n ?B) < fuel" using assms(2) unfolding length_drop by linarith
    with Suc.IH [of "Some ?k"] rest have "walk fuel (Some ?k) n d = drop n ?B" by simp
    moreover have "snd (page c n d) = Some ?k" using nxt True by (metis (no_types, lifting))
    ultimately show ?thesis using page by (metis append_take_drop_id option.simps(5) walk.simps(2))
  qed
qed simp

text \<open>Walking an unchanging table from the start gives every row once, in descending order.\<close>

lemma walk_complete:
  assumes "distinct (map key (rows d))" and "0 < n" and "length (rows d) < fuel"
  shows "walk fuel None n d = all_rows key (rows d)"
  using walk_from [OF assms(1,2), of None fuel] assms(3) by simp

text \<open>A request that pages by text cursors of the table's own keys walks the table.\<close>

lemma follow_walk:
  assumes fetch: "\<And>k. (\<And>x. k = Some x \<Longrightarrow> x \<in> key ` set (rows d)) \<Longrightarrow>
      fetch (map_option enc k) = Inr (fst (page k n d), map_option enc (snd (page k n d)))"
    and n: "0 < n" and start: "\<And>x. k = Some x \<Longrightarrow> x \<in> key ` set (rows d)"
  shows "follow fetch fuel (map_option enc k) = Inr (walk fuel k n d)"
  using start
proof (induction fuel arbitrary: k)
  case (Suc fuel)
  note page = fetch [OF Suc.prems]
  show ?case
  proof (cases "snd (page k n d)")
    case None
    with page show ?thesis by simp
  next
    case (Some x)
    then have "x \<in> key ` set (rows d)"
      using page_next [OF n, of k d] page_rows [OF n, of k d] keyset_next_key by metis
    with Suc.IH [of "Some x"] page Some show ?thesis by simp
  qed
qed simp

lemma follow_complete:
  assumes "\<And>k. (\<And>x. k = Some x \<Longrightarrow> x \<in> key ` set (rows d)) \<Longrightarrow>
      fetch (map_option enc k) = Inr (fst (page k n d), map_option enc (snd (page k n d)))"
    and "0 < n" and "distinct (map key (rows d))" and "length (rows d) < fuel"
  shows "\<exists>rs. follow fetch fuel None = Inr rs \<and> descending key rs \<and> set rs = set (rows d) \<and> length rs = length (rows d)"
proof -
  have "follow fetch fuel (map_option enc None) = Inr (walk fuel None n d)"
    using assms(1,2) by (rule follow_walk) simp_all
  with walk_complete [OF assms(3,2,4)] descending_all_rows [OF assms(3)] show ?thesis by simp
qed

end

end
