(* ===== verification/Base64.thy ===== *)
theory Base64
  imports Prelude
begin

text \<open>
  \<open>base64.urlsafe_b64encode\<close> and \<open>base64.urlsafe_b64decode\<close>, which carry the pagination cursors. A byte
  string is a list of characters. The decoder is CPython's: it reads both alphabets, skips every
  character outside them, and stops at the padding.
\<close>

definition b64_char :: "nat \<Rightarrow> char" where
  "b64_char n =
     (if n < 26 then char_of (n + 65)
      else if n < 52 then char_of (n + 71)
      else if n < 62 then char_of (n - 4)
      else if n = 62 then CHR ''-'' else CHR ''_'')"

definition b64_value :: "char \<Rightarrow> nat option" where
  "b64_value c =
     (let n = of_char c :: nat in
        if 65 \<le> n \<and> n \<le> 90 then Some (n - 65)
        else if 97 \<le> n \<and> n \<le> 122 then Some (n - 71)
        else if 48 \<le> n \<and> n \<le> 57 then Some (n + 4)
        else if c = CHR ''-'' \<or> c = CHR ''+'' then Some 62
        else if c = CHR ''_'' \<or> c = CHR ''/'' then Some 63
        else None)"

text \<open>Three bytes are four sextets; one or two bytes at the end are padded with \<open>=\<close>.\<close>

fun urlsafe_b64encode :: "string \<Rightarrow> string" where
  "urlsafe_b64encode [] = []"
| "urlsafe_b64encode [a] =
     [b64_char (of_char a div 4), b64_char (of_char a mod 4 * 16), CHR ''='', CHR ''='']"
| "urlsafe_b64encode [a, b] =
     [b64_char (of_char a div 4), b64_char (of_char a mod 4 * 16 + of_char b div 16),
      b64_char (of_char b mod 16 * 4), CHR ''='']"
| "urlsafe_b64encode (a # b # c # s) =
     b64_char (of_char a div 4) # b64_char (of_char a mod 4 * 16 + of_char b div 16) #
     b64_char (of_char b mod 16 * 4 + of_char c div 64) # b64_char (of_char c mod 64) #
     urlsafe_b64encode s"

text \<open>
  \<open>a2b_base64\<close>: the position in the group of four, the number of padding characters since the last
  sextet and the bits left over from the previous sextet.
\<close>

definition b64_end :: "nat \<Rightarrow> string result" where
  "b64_end quad_pos =
     (if quad_pos = 0 then Inr []
      else if quad_pos = 1 then Inl (ValueError ''Invalid base64-encoded string'')
      else Inl (ValueError ''Incorrect padding''))"

definition cons_byte :: "nat \<Rightarrow> string result \<Rightarrow> string result" where
  "cons_byte n r = bind_res r (\<lambda>s. Inr (char_of n # s))"

fun a2b_base64 :: "nat \<Rightarrow> nat \<Rightarrow> nat \<Rightarrow> string \<Rightarrow> string result" where
  "a2b_base64 quad_pos pads left [] = b64_end quad_pos"
| "a2b_base64 quad_pos pads left (c # s) =
     (if c = CHR ''='' then
        if 2 \<le> quad_pos \<and> 4 \<le> quad_pos + pads + 1 then Inr []
        else a2b_base64 quad_pos (if 2 \<le> quad_pos then pads + 1 else pads) left s
      else case b64_value c of
        None \<Rightarrow> a2b_base64 quad_pos pads left s
      | Some v \<Rightarrow>
          if quad_pos = 0 then a2b_base64 1 0 v s
          else if quad_pos = 1 then cons_byte (left * 4 + v div 16) (a2b_base64 2 0 (v mod 16) s)
          else if quad_pos = 2 then cons_byte (left * 16 + v div 4) (a2b_base64 3 0 (v mod 4) s)
          else cons_byte (left * 64 + v) (a2b_base64 0 0 0 s))"

definition urlsafe_b64decode :: "string \<Rightarrow> string result" where
  "urlsafe_b64decode s = a2b_base64 0 0 0 s"

section \<open>The decoder inverts the encoder\<close>

lemma b64_value_char:
  assumes "n < 64"
  shows "b64_value (b64_char n) = Some n" and "b64_char n \<noteq> CHR ''=''"
proof -
  consider "n < 26" | "26 \<le> n" "n < 52" | "52 \<le> n" "n < 62" | "n = 62" | "n = 63" using assms by linarith
  moreover have "48 \<le> n - 4 \<and> n - 4 \<le> 57" if "52 \<le> n" "n < 62" using that by linarith
  ultimately show "b64_value (b64_char n) = Some n" by cases (simp_all add: b64_char_def b64_value_def Let_def)
  then show "b64_char n \<noteq> CHR ''=''" by (auto simp: b64_value_def)
qed

lemma a2b_sextet:
  assumes "n < 64"
  shows "a2b_base64 0 p l (b64_char n # s) = a2b_base64 1 0 n s"
    and "a2b_base64 1 p l (b64_char n # s) = cons_byte (l * 4 + n div 16) (a2b_base64 2 0 (n mod 16) s)"
    and "a2b_base64 2 p l (b64_char n # s) = cons_byte (l * 16 + n div 4) (a2b_base64 3 0 (n mod 4) s)"
    and "a2b_base64 3 p l (b64_char n # s) = cons_byte (l * 64 + n) (a2b_base64 0 0 0 s)"
  using b64_value_char [OF assms] by simp_all

lemma sextet_bounds:
  fixes a b :: nat
  assumes "a < 256" and "b < 256"
  shows "a div 4 < 64" "a mod 4 * 16 + b div 16 < 64" "a mod 16 * 4 + b div 64 < 64" "a mod 64 < 64"
    "a mod 4 * 16 < 64" "a mod 16 * 4 < 64"
  using assms mod_less_divisor [of 4 a] mod_less_divisor [of 16 a]
    less_mult_imp_div_less [of b 16 16] less_mult_imp_div_less [of b 4 64] less_mult_imp_div_less [of a 64 4]
  by simp_all

lemma sextet_parts:
  fixes a b :: nat
  assumes "a < 256"
  shows "(b mod 4 * 16 + a div 16) div 16 = b mod 4" "(b mod 4 * 16 + a div 16) mod 16 = a div 16"
    "(b mod 16 * 4 + a div 64) div 4 = b mod 16" "(b mod 16 * 4 + a div 64) mod 4 = a div 64"
  using less_mult_imp_div_less [of a 16 16] less_mult_imp_div_less [of a 4 64] assms by simp_all

lemma a2b_pad: "a2b_base64 2 0 l ''=='' = Inr []" "a2b_base64 3 0 l ''='' = Inr []"
  by simp_all

lemma a2b_group:
  assumes "a < 256" "b < 256" "c < 256"
  shows "a2b_base64 0 0 0 (b64_char (a div 4) # b64_char (a mod 4 * 16 + b div 16) #
      b64_char (b mod 16 * 4 + c div 64) # b64_char (c mod 64) # s) =
    cons_byte a (cons_byte b (cons_byte c (a2b_base64 0 0 0 s)))"
  by (simp only: a2b_sextet sextet_bounds [OF assms(1,2)] sextet_bounds [OF assms(2,3)]
      sextet_bounds [OF assms(3,3)] sextet_parts [OF assms(2)] sextet_parts [OF assms(3)] div_mult_mod_eq)

lemma decode_encode: "urlsafe_b64decode (urlsafe_b64encode s) = Inr s"
  unfolding urlsafe_b64decode_def
proof (induction s rule: urlsafe_b64encode.induct)
  case 1
  then show ?case by (simp add: b64_end_def)
next
  case (2 a)
  then show ?case
    using sextet_bounds [of "of_char a" 0]
    by (simp add: a2b_sextet a2b_pad cons_byte_def del: a2b_base64.simps(2) One_nat_def)
next
  case (3 a b)
  then show ?case
    using sextet_bounds [of "of_char a" "of_char b"] sextet_bounds [of "of_char b" 0]
    by (simp add: a2b_sextet a2b_pad cons_byte_def sextet_parts del: a2b_base64.simps(2) One_nat_def)
next
  case (4 a b c s)
  then show ?case by (simp add: a2b_group cons_byte_def del: a2b_base64.simps(2))
qed

end
