(* ===== verification/Json_Text.thy ===== *)
theory Json_Text
  imports Schema Number_Text
begin

text \<open>
  \<open>json.dumps\<close> of a flat dictionary of strings and integers, and \<open>json.loads\<close>, as CPython's \<open>json\<close>
  writes and reads a document. A character is a code point below 256: an escape above it is refused,
  and so are \<open>NaN\<close> and the infinities, which \<open>json\<close> has no value for.
\<close>

section \<open>Writing\<close>

definition json_escape :: "char \<Rightarrow> string" where
  "json_escape c =
     (let n = of_char c :: nat in
        if c = CHR 0x22 \<or> c = CHR 0x5C then [CHR 0x5C, c]
        else if 32 \<le> n \<and> n < 127 then [c]
        else CHR 0x5C #
          (if n = 10 then ''n'' else if n = 13 then ''r'' else if n = 9 then ''t''
           else if n = 12 then ''f'' else if n = 8 then ''b''
           else CHR ''u'' # hex_digits 4 n))"

definition json_str_text :: "string \<Rightarrow> string" where
  "json_str_text s = CHR 0x22 # concat (map json_escape s) @ [CHR 0x22]"

text \<open>A dictionary whose values are texts already; items are joined by a comma and a space.\<close>

definition json_item_text :: "string \<times> string \<Rightarrow> string" where
  "json_item_text kv = json_str_text (fst kv) @ '': '' @ snd kv"

fun json_items_text :: "(string \<times> string) list \<Rightarrow> string" where
  "json_items_text [] = []"
| "json_items_text [kv] = json_item_text kv"
| "json_items_text (kv # kvs) = json_item_text kv @ '', '' @ json_items_text kvs"

definition json_dict_text :: "(string \<times> string) list \<Rightarrow> string" where
  "json_dict_text kvs = ''{'' @ json_items_text kvs @ ''}''"

section \<open>Reading\<close>

definition json_space :: "char \<Rightarrow> bool" where
  "json_space c \<longleftrightarrow> (let n = of_char c :: nat in n = 32 \<or> n = 9 \<or> n = 10 \<or> n = 13)"

definition skip_ws :: "string \<Rightarrow> string" where
  "skip_ws s = dropWhile json_space s"

definition json_unescape :: "char \<Rightarrow> char option" where
  "json_unescape e =
     (if e = CHR 0x22 \<or> e = CHR 0x5C \<or> e = CHR ''/'' then Some e
      else if e = CHR ''n'' then Some (CHR 0x0A)
      else if e = CHR ''r'' then Some (CHR 0x0D)
      else if e = CHR ''t'' then Some (CHR 0x09)
      else if e = CHR ''f'' then Some (CHR 0x0C)
      else if e = CHR ''b'' then Some (CHR 0x08)
      else None)"

text \<open>The rest of a string after its opening quote.\<close>

definition cons_scanned :: "char \<Rightarrow> (string \<times> string) option \<Rightarrow> (string \<times> string) option" where
  "cons_scanned c r = (case r of None \<Rightarrow> None | Some (t, rest) \<Rightarrow> Some (c # t, rest))"

function scan_string :: "string \<Rightarrow> (string \<times> string) option" where
  "scan_string s =
     (case s of
        [] \<Rightarrow> None
      | c # r \<Rightarrow>
          if c = CHR 0x22 then Some ([], r)
          else if c \<noteq> CHR 0x5C then
            if of_char c < (32 :: nat) then None else cons_scanned c (scan_string r)
          else (case r of
                  [] \<Rightarrow> None
                | e # r' \<Rightarrow>
                    if e = CHR ''u'' then
                      (case hex_text_value 0 (take 4 r') of
                         None \<Rightarrow> None
                       | Some n \<Rightarrow>
                           if length r' < 4 \<or> 256 \<le> n then None
                           else cons_scanned (char_of n) (scan_string (drop 4 r')))
                    else (case json_unescape e of
                            None \<Rightarrow> None
                          | Some x \<Rightarrow> cons_scanned x (scan_string r'))))"
  by pat_completeness auto
termination by (relation "measure length") auto

declare scan_string.simps [simp del]

text \<open>A number is an integer unless it has a fraction or an exponent.\<close>

definition scan_digits :: "string \<Rightarrow> string \<times> string" where
  "scan_digits s = (takeWhile ascii_digit s, dropWhile ascii_digit s)"

definition scan_integer :: "string \<Rightarrow> (string \<times> string) option" where
  "scan_integer s =
     (case s of
        [] \<Rightarrow> None
      | c # r \<Rightarrow> if c = CHR ''0'' then Some (''0'', r) else if ascii_digit c then Some (scan_digits s) else None)"

definition scan_fraction :: "string \<Rightarrow> string option \<times> string" where
  "scan_fraction s =
     (case s of
        c # r \<Rightarrow>
          let (ds, rest) = scan_digits r in if c = CHR ''.'' \<and> ds \<noteq> [] then (Some ds, rest) else (None, s)
      | [] \<Rightarrow> (None, s))"

definition scan_exponent :: "string \<Rightarrow> int option \<times> string" where
  "scan_exponent s =
     (case s of
        c # r \<Rightarrow>
          let signed = (case r of x # _ \<Rightarrow> x = CHR ''+'' \<or> x = CHR ''-'' | [] \<Rightarrow> False);
              neg = (case r of x # _ \<Rightarrow> x = CHR ''-'' | [] \<Rightarrow> False);
              (ds, rest) = scan_digits (if signed then tl r else r)
          in if (c = CHR ''e'' \<or> c = CHR ''E'') \<and> ds \<noteq> []
             then (Some (if neg then - int (digits_value ds) else int (digits_value ds)), rest) else (None, s)
      | [] \<Rightarrow> (None, s))"

definition float_value :: "string \<Rightarrow> string \<Rightarrow> int \<Rightarrow> rat" where
  "float_value whole fr e =
     (let m = of_nat (digits_value (whole @ fr)) / 10 ^ length fr
      in if 0 \<le> e then m * 10 ^ nat e else m / 10 ^ nat (- e))"

definition json_number :: "string \<Rightarrow> (json \<times> string) option" where
  "json_number s =
     (let neg = (case s of c # _ \<Rightarrow> c = CHR ''-'' | [] \<Rightarrow> False) in
        case scan_integer (if neg then tl s else s) of
          None \<Rightarrow> None
        | Some (whole, r) \<Rightarrow>
            let (fr, r1) = scan_fraction r; (e, r2) = scan_exponent r1 in
              if fr = None \<and> e = None
              then Some (JInt (if neg then - int (digits_value whole) else int (digits_value whole)), r2)
              else
                let v = float_value whole (case fr of None \<Rightarrow> [] | Some f \<Rightarrow> f) (case e of None \<Rightarrow> 0 | Some x \<Rightarrow> x)
                in Some (JFloat (if neg then - v else v), r2))"

text \<open>\<open>dict(pairs)\<close>: a key keeps its first place and its last value.\<close>

definition dict_of_pairs :: "(string \<times> json) list \<Rightarrow> json_dict" where
  "dict_of_pairs kvs = fold (\<lambda>(k, v). dict_set k v) kvs []"

text \<open>
  \<open>scan_once\<close> with \<open>JSONObject\<close> and \<open>JSONArray\<close>. The fuel bounds the calls; every call but one reads a
  character, so twice the length of the document is enough.
\<close>

fun json_value :: "nat \<Rightarrow> string \<Rightarrow> (json \<times> string) option"
  and json_members :: "nat \<Rightarrow> string \<Rightarrow> ((string \<times> json) list \<times> string) option"
  and json_elements :: "nat \<Rightarrow> string \<Rightarrow> (json list \<times> string) option" where
  "json_value 0 s = None"
| "json_value (Suc n) s =
     (case s of
        [] \<Rightarrow> None
      | c # r \<Rightarrow>
          if c = CHR 0x22 then
            (case scan_string r of None \<Rightarrow> None | Some (t, r') \<Rightarrow> Some (JStr t, r'))
          else if c = CHR ''{'' then
            (case skip_ws r of
               [] \<Rightarrow> None
             | d # r' \<Rightarrow>
                 if d = CHR ''}'' then Some (JObj [], r')
                 else (case json_members n (d # r') of
                         None \<Rightarrow> None | Some (kvs, r'') \<Rightarrow> Some (JObj (dict_of_pairs kvs), r'')))
          else if c = CHR ''['' then
            (case skip_ws r of
               [] \<Rightarrow> None
             | d # r' \<Rightarrow>
                 if d = CHR '']'' then Some (JList [], r')
                 else (case json_elements n (d # r') of
                         None \<Rightarrow> None | Some (vs, r'') \<Rightarrow> Some (JList vs, r'')))
          else if starts_with ''null'' s then Some (JNull, drop 4 s)
          else if starts_with ''true'' s then Some (JBool True, drop 4 s)
          else if starts_with ''false'' s then Some (JBool False, drop 5 s)
          else json_number s)"
| "json_members 0 s = None"
| "json_members (Suc n) s =
     (case s of
        [] \<Rightarrow> None
      | q # r \<Rightarrow>
          if q \<noteq> CHR 0x22 then None
          else case scan_string r of
            None \<Rightarrow> None
          | Some (k, r1) \<Rightarrow>
              (case skip_ws r1 of
                 [] \<Rightarrow> None
               | c # r2 \<Rightarrow>
                   if c \<noteq> CHR '':'' then None
                   else case json_value n (skip_ws r2) of
                     None \<Rightarrow> None
                   | Some (v, r3) \<Rightarrow>
                       (case skip_ws r3 of
                          [] \<Rightarrow> None
                        | d # r4 \<Rightarrow>
                            if d = CHR ''}'' then Some ([(k, v)], r4)
                            else if d = CHR '','' then
                              (case json_members n (skip_ws r4) of
                                 None \<Rightarrow> None | Some (kvs, r5) \<Rightarrow> Some ((k, v) # kvs, r5))
                            else None)))"
| "json_elements 0 s = None"
| "json_elements (Suc n) s =
     (case json_value n s of
        None \<Rightarrow> None
      | Some (v, r) \<Rightarrow>
          (case skip_ws r of
             [] \<Rightarrow> None
           | d # r1 \<Rightarrow>
               if d = CHR '']'' then Some ([v], r1)
               else if d = CHR '','' then
                 (case json_elements n (skip_ws r1) of None \<Rightarrow> None | Some (vs, r2) \<Rightarrow> Some (v # vs, r2))
               else None))"

definition json_loads :: "string \<Rightarrow> json result" where
  "json_loads s =
     (case json_value (Suc (2 * length s)) (skip_ws s) of
        None \<Rightarrow> Inl (ValueError ''JSONDecodeError'')
      | Some (v, r) \<Rightarrow> if skip_ws r = [] then Inr v else Inl (ValueError ''JSONDecodeError: Extra data''))"

section \<open>Reading back what was written\<close>

lemma scan_escape: "scan_string (json_escape c @ t) = cons_scanned c (scan_string t)"
proof -
  let ?n = "of_char c :: nat"
  consider "c = CHR 0x22 \<or> c = CHR 0x5C" | "c \<noteq> CHR 0x22" "c \<noteq> CHR 0x5C" "32 \<le> ?n" "?n < 127"
    | "?n \<in> {10, 13, 9, 12, 8}" | "\<not> (32 \<le> ?n \<and> ?n < 127)" "?n \<notin> {10, 13, 9, 12, 8}" by blast
  then show ?thesis
  proof cases
    case 1
    then show ?thesis by (auto simp: json_escape_def json_unescape_def Let_def scan_string.simps)
  next
    case 2
    then show ?thesis by (simp add: json_escape_def Let_def scan_string.simps [of "c # t"])
  next
    case 3
    then have "c \<in> {CHR 0x0A, CHR 0x0D, CHR 0x09, CHR 0x0C, CHR 0x08}"
      by (simp add: of_char_eq_iff [symmetric, where 'a = nat] del: of_char_eq_iff)
    then show ?thesis by (auto simp: json_escape_def json_unescape_def Let_def scan_string.simps)
  next
    case 4
    then have "c \<noteq> CHR 0x22" "c \<noteq> CHR 0x5C" by auto
    then have esc: "json_escape c = CHR 0x5C # CHR ''u'' # hex_digits 4 ?n"
      using 4 by (auto simp: json_escape_def Let_def)
    have "hex_text_value 0 (hex_digits 4 ?n) = Some ?n"
      by (rule hex_text_value_digits, rule less_le_trans [of _ 256]) simp_all
    moreover have "\<not> 256 \<le> ?n" by (simp add: not_le)
    ultimately show ?thesis unfolding esc by (subst scan_string.simps) simp
  qed
qed

lemma scan_string_text: "scan_string (concat (map json_escape s) @ CHR 0x22 # rest) = Some (s, rest)"
  by (induction s) (simp_all add: scan_escape cons_scanned_def scan_string.simps [of "CHR 0x22 # rest"])

text \<open>What follows a value in a document that \<open>json.dumps\<close> wrote.\<close>

definition value_end :: "string \<Rightarrow> bool" where
  "value_end rest \<longleftrightarrow> (case rest of [] \<Rightarrow> True | c # _ \<Rightarrow> c = CHR '','' \<or> c = CHR ''}'' \<or> c = CHR '']'')"

lemma scan_digits_app: "list_all ascii_digit ds \<Longrightarrow> value_end rest \<Longrightarrow> scan_digits (ds @ rest) = (ds, rest)"
  by (auto simp: scan_digits_def value_end_def list_all_iff takeWhile_append dropWhile_append ascii_digit_def
      split: list.splits)

lemma scan_integer_text: "value_end rest \<Longrightarrow> scan_integer (str_nat n @ rest) = Some (str_nat n, rest)"
proof -
  assume rest: "value_end rest"
  obtain m r where m: "str_nat n = digit_char m # r" "m < 10" "m = 0 \<longrightarrow> r = []" using str_nat_leading by blast
  have "m = 0" if "digit_char m = CHR ''0''"
    using ascii_digit_char [OF m(2)] arg_cong [OF that, of "of_char :: char \<Rightarrow> nat"] by simp
  then show ?thesis
    using scan_digits_app [OF _ rest, of "str_nat n"] str_nat_digits [of n] m ascii_digit_char [OF m(2)]
    by (auto simp: scan_integer_def digit_char_def)
qed

lemma json_number_text:
  assumes "value_end rest"
  shows "json_number (str_int i @ rest) = Some (JInt i, rest)"
proof -
  have stop: "scan_fraction rest = (None, rest)" "scan_exponent rest = (None, rest)"
    using assms by (auto simp: scan_fraction_def scan_exponent_def value_end_def split: list.splits prod.splits)
  note int = scan_integer_text [OF assms] str_nat_digits stop
  show ?thesis
  proof (cases "i < 0")
    case True
    with int show ?thesis by (simp add: json_number_def str_int_def)
  next
    case False
    obtain m r where m: "str_nat (nat i) = digit_char m # r" "m < 10" using str_nat_leading by blast
    have "digit_char m \<noteq> CHR ''-''" using ascii_digit_char [OF m(2)] by auto
    then have "(case str_nat (nat i) @ rest of [] \<Rightarrow> False | c # _ \<Rightarrow> c = CHR ''-'') = False" by (simp add: m(1))
    with False int show ?thesis by (simp add: json_number_def str_int_def)
  qed
qed

section \<open>Documents\<close>

text \<open>A text that the value reader takes back to its value, wherever it stands in the document.\<close>

definition reads :: "string \<Rightarrow> json \<Rightarrow> bool" where
  "reads t v \<longleftrightarrow> (\<exists>c r. t = c # r \<and> \<not> json_space c) \<and>
     (\<forall>n rest. value_end rest \<longrightarrow> json_value (Suc n) (t @ rest) = Some (v, rest))"

text \<open>The same with fuel above \<open>f\<close>.\<close>

definition reads_in :: "nat \<Rightarrow> string \<Rightarrow> json \<Rightarrow> bool" where
  "reads_in f t v \<longleftrightarrow> (\<exists>c r. t = c # r \<and> \<not> json_space c) \<and>
     (\<forall>n rest. f < n \<longrightarrow> value_end rest \<longrightarrow> json_value n (t @ rest) = Some (v, rest))"

lemma reads_in_reads: "reads t v \<Longrightarrow> reads_in f t v"
  unfolding reads_def reads_in_def by (metis Suc_pred bot_nat_0.not_eq_extremum not_less_zero)

lemma reads_in_mono: "reads_in f t v \<Longrightarrow> f \<le> g \<Longrightarrow> reads_in g t v"
  by (auto simp: reads_in_def)

lemma reads_str: "reads (json_str_text s) (JStr s)"
  by (simp add: reads_def json_str_text_def json_space_def scan_string_text)

lemma reads_int: "reads (str_int i) (JInt i)"
proof -
  obtain m r where m: "str_nat (nat i) = digit_char m # r" "m < 10" using str_nat_leading by blast
  obtain c t where c: "str_int i = c # t" "c = CHR ''-'' \<or> ascii_digit c"
    using m ascii_digit_char [OF m(2)] by (cases "i < 0") (auto simp: str_int_def)
  have "c \<notin> {CHR 0x22, CHR ''{'', CHR ''['', CHR ''n'', CHR ''t'', CHR ''f''}" "\<not> json_space c"
    using c(2) by (auto simp: ascii_digit_def json_space_def Let_def)
  with c(1) json_number_text [of _ i] show ?thesis by (simp add: reads_def starts_with_def)
qed

lemma skip_ws_Cons: "\<not> json_space c \<Longrightarrow> skip_ws (c # s) = c # s"
  by (simp add: skip_ws_def)

lemma skip_ws_text: "reads_in f t v \<Longrightarrow> skip_ws (CHR '' '' # t @ rest) = t @ rest"
  by (auto simp: reads_in_def skip_ws_def json_space_def)

lemma json_items_Cons:
  "kvs \<noteq> [] \<Longrightarrow> json_items_text (kv # kvs) = json_item_text kv @ CHR '','' # CHR '' '' # json_items_text kvs"
  by (cases kvs) simp_all

lemma json_items_start: "kvs \<noteq> [] \<Longrightarrow> \<exists>i. json_items_text kvs = CHR 0x22 # i"
  by (cases kvs; cases "tl kvs") (simp_all add: json_item_text_def json_str_text_def)

lemma json_members_text:
  assumes "kvs \<noteq> []" and "list_all (\<lambda>(k, t, v). reads_in f t v) kvs" and "length kvs + f < n"
  shows "json_members n (json_items_text (map (\<lambda>(k, t, v). (k, t)) kvs) @ CHR ''}'' # rest) =
    Some (map (\<lambda>(k, t, v). (k, v)) kvs, rest)"
  using assms
proof (induction kvs arbitrary: n)
  case (Cons kv kvs)
  obtain k t v where kv: "kv = (k, t, v)" by (cases kv)
  obtain m where n: "n = Suc (Suc m)" "f < Suc m" using Cons.prems(3) that [of "n - 2"] by simp
  have r: "reads_in f t v" using Cons.prems(2) kv by simp
  then have val: "value_end s \<Longrightarrow> json_value (Suc m) (t @ s) = Some (v, s)" for s
    using n(2) by (simp add: reads_in_def del: json_value.simps)
  have punct: "\<not> json_space (CHR '':'')" "\<not> json_space (CHR '','')" "\<not> json_space (CHR ''}'')" "\<not> json_space (CHR 0x22)"
    by (simp_all add: json_space_def)
  have item: "json_members n (json_item_text (k, t) @ d # s) =
      (if d = CHR ''}'' then Some ([(k, v)], s)
       else case json_members (Suc m) (skip_ws s) of
              None \<Rightarrow> None | Some (kvs, r5) \<Rightarrow> Some ((k, v) # kvs, r5))"
    if "d = CHR ''}'' \<or> d = CHR '',''" for d s
    using val [of "d # s"] skip_ws_text [OF r] that
    by (auto simp: n(1) json_item_text_def json_str_text_def scan_string_text skip_ws_Cons punct value_end_def
        simp del: json_value.simps)
  show ?case
  proof (cases "kvs = []")
    case True
    then show ?thesis using item by (simp add: kv del: json_members.simps)
  next
    case False
    then obtain i where i: "json_items_text (map (\<lambda>(k, t, v). (k, t)) kvs) = CHR 0x22 # i"
      using json_items_start by blast
    have "json_members (Suc m) (json_items_text (map (\<lambda>(k, t, v). (k, t)) kvs) @ CHR ''}'' # rest) =
        Some (map (\<lambda>(k, t, v). (k, v)) kvs, rest)"
      using Cons False n by (simp del: json_members.simps)
    then show ?thesis
      using item [of "CHR '',''"] False i
      by (simp add: kv json_items_Cons skip_ws_def json_space_def del: json_members.simps)
  qed
qed simp

text \<open>The document of a dictionary with different keys reads back as the dictionary.\<close>

lemma dict_set_new: "k \<notin> fst ` set d \<Longrightarrow> dict_set k v d = d @ [(k, v)]"
  by (induction d) auto

lemma dict_of_pairs_distinct: "distinct (map fst kvs) \<Longrightarrow> dict_of_pairs kvs = kvs"
proof -
  have "fold (\<lambda>(k, v). dict_set k v) kvs d = d @ kvs" if "distinct (map fst (d @ kvs))" for d
    using that by (induction kvs arbitrary: d) (auto simp: dict_set_new)
  from this [of "[]"] show "distinct (map fst kvs) \<Longrightarrow> dict_of_pairs kvs = kvs" by (simp add: dict_of_pairs_def)
qed

lemma length_json_items: "length kvs \<le> length (json_items_text kvs)"
proof (induction kvs rule: json_items_text.induct)
  case (3 kv x kvs)
  then show ?case by simp
qed (simp_all add: json_item_text_def json_str_text_def)

lemma json_loads_dict:
  assumes "kvs \<noteq> []" and "list_all (\<lambda>(k, t, v). reads t v) kvs" and "distinct (map fst kvs)"
  shows "json_loads (json_dict_text (map (\<lambda>(k, t, v). (k, t)) kvs)) = Inr (JObj (map (\<lambda>(k, t, v). (k, v)) kvs))"
proof -
  let ?items = "json_items_text (map (\<lambda>(k, t, v). (k, t)) kvs)"
  let ?doc = "json_dict_text (map (\<lambda>(k, t, v). (k, t)) kvs)"
  obtain i where i: "?items = CHR 0x22 # i" using json_items_start assms(1) by blast
  have "length kvs < 2 * length ?doc" using length_json_items [of "map (\<lambda>(k, t, v). (k, t)) kvs"]
    by (simp add: json_dict_text_def)
  moreover have "list_all (\<lambda>(k, t, v). reads_in 0 t v) kvs"
    using assms(2) by (auto simp: list_all_iff intro: reads_in_reads)
  ultimately have "json_members (2 * length ?doc) (?items @ ''}'') = Some (map (\<lambda>(k, t, v). (k, v)) kvs, [])"
    using json_members_text [OF assms(1), of 0 "2 * length ?doc" "[]"] by simp
  moreover have "distinct (map fst (map (\<lambda>(k, t, v). (k, v)) kvs))"
    using assms(3) by (simp add: comp_def case_prod_unfold)
  ultimately have "json_value (Suc (2 * length ?doc)) ?doc = Some (JObj (map (\<lambda>(k, t, v). (k, v)) kvs), [])"
    using i by (simp add: json_dict_text_def skip_ws_def json_space_def dict_of_pairs_distinct)
  moreover have "skip_ws ?doc = ?doc" by (simp add: json_dict_text_def skip_ws_def json_space_def)
  ultimately show ?thesis by (simp add: json_loads_def skip_ws_def)
qed

end
