(* ===== verification/Iso_Datetime.thy ===== *)
theory Iso_Datetime
  imports Py_Datetime
begin

text \<open>
  \<open>datetime.fromisoformat\<close> of CPython 3.11, which reads the pagination cursors back: calendar and week
  dates, with and without dashes, any separator character, then the time of Iso_Time. On the text
  that \<open>isoformat()\<close> writes it gives the instant back.
\<close>

text \<open>A datetime is the microseconds of its clock since 1970 and its UTC offset, if it has one.\<close>

record py_datetime =
  dt_local :: int
  dt_offset :: "int option"

definition parse_digits :: "nat \<Rightarrow> string \<Rightarrow> (int \<times> string) option" where
  "parse_digits k s =
     (if length s < k \<or> \<not> list_all (\<lambda>c. char_digit c \<noteq> None) (take k s) then None
      else Some (foldl (\<lambda>acc c. 10 * acc + the (char_digit c)) 0 (take k s), drop k s))"

definition char_at :: "string \<Rightarrow> nat \<Rightarrow> char option" where
  "char_at s i = (if i < length s then Some (s ! i) else None)"

definition digit_at :: "string \<Rightarrow> nat \<Rightarrow> bool" where
  "digit_at s i = (case char_at s i of None \<Rightarrow> False | Some c \<Rightarrow> char_digit c \<noteq> None)"

text \<open>\<open>_find_isoformat_datetime_separator\<close>, on at least seven characters.\<close>

definition find_separator :: "string \<Rightarrow> nat option" where
  "find_separator s =
     (if length s = 7 then Some 7
      else if s ! 4 = CHR ''-'' then
        if s ! 5 = CHR ''W'' then
          if char_at s 8 = Some CHR ''-'' then
            if length s = 9 then None else if digit_at s 10 then Some 8 else Some 10
          else Some 8
        else Some 10
      else if s ! 4 = CHR ''W'' then
        let idx = 7 + length (takeWhile (\<lambda>c. char_digit c \<noteq> None) (drop 7 s))
        in Some (if idx < 9 then idx else if idx mod 2 = 0 then 7 else 8)
      else Some 8)"

text \<open>\<open>iso_to_ymd\<close>: the Monday of ISO week 1, then weeks and days. Weekday 0 is Monday.\<close>

definition week_date :: "int \<Rightarrow> int \<Rightarrow> int \<Rightarrow> (int \<times> nat \<times> int) option" where
  "week_date year week day =
     (let first_day = days_before_year year + 1;
          first_weekday = (first_day + 6) mod 7;
          monday = first_day - first_weekday + (if 3 < first_weekday then 7 else 0);
          long_year = (first_weekday = 3 \<or> first_weekday = 2 \<and> is_leap year)
      in if 1 \<le> year \<and> year \<le> 9999 \<and> 0 < week \<and> (week < 53 \<or> week = 53 \<and> long_year) \<and> 0 < day \<and> day < 8
         then Some (ord2ymd (monday + (week - 1) * 7 + day - 1))
         else None)"

definition skip_dash :: "bool \<Rightarrow> string \<Rightarrow> string option" where
  "skip_dash has_sep s =
     (if \<not> has_sep then Some s
      else case s of c # r \<Rightarrow> if c = CHR ''-'' then Some r else None | [] \<Rightarrow> None)"

text \<open>\<open>parse_isoformat_date\<close>: \<open>len\<close> is the position of the separator.\<close>

definition parse_week :: "int \<Rightarrow> bool \<Rightarrow> nat \<Rightarrow> string \<Rightarrow> string \<Rightarrow> (int \<times> nat \<times> int) option" where
  "parse_week year has_sep len s p =
     (case parse_digits 2 p of
        None \<Rightarrow> None
      | Some (week, q) \<Rightarrow>
          if length s - length q < len then
            (case skip_dash has_sep q of
               None \<Rightarrow> None
             | Some q' \<Rightarrow>
                 (case parse_digits 1 q' of None \<Rightarrow> None | Some (day, _) \<Rightarrow> week_date year week day))
          else week_date year week 1)"

definition parse_month_day :: "int \<Rightarrow> bool \<Rightarrow> string \<Rightarrow> (int \<times> nat \<times> int) option" where
  "parse_month_day year has_sep p =
     (case parse_digits 2 p of
        None \<Rightarrow> None
      | Some (month, q) \<Rightarrow>
          (case skip_dash has_sep q of
             None \<Rightarrow> None
           | Some q' \<Rightarrow>
               (case parse_digits 2 q' of None \<Rightarrow> None | Some (day, _) \<Rightarrow> Some (year, nat month, day))))"

definition parse_isoformat_date :: "string \<Rightarrow> nat \<Rightarrow> (int \<times> nat \<times> int) option" where
  "parse_isoformat_date s len =
     (case parse_digits 4 s of
        None \<Rightarrow> None
      | Some (year, p) \<Rightarrow>
          let has_sep = (char_at p 0 = Some CHR ''-''); q = (if has_sep then drop 1 p else p)
          in if char_at q 0 = Some CHR ''W'' then parse_week year has_sep len s (drop 1 q)
             else parse_month_day year has_sep q)"

definition valid_date :: "int \<times> nat \<times> int \<Rightarrow> bool" where
  "valid_date v \<longleftrightarrow>
     (case v of (y, m, d) \<Rightarrow> 1 \<le> y \<and> y \<le> 9999 \<and> 1 \<le> m \<and> m \<le> 12 \<and> 1 \<le> d \<and> d \<le> days_in_month y m)"

definition datetime_at :: "int \<times> nat \<times> int \<Rightarrow> int \<times> int option \<Rightarrow> py_datetime" where
  "datetime_at v tm =
     (case v of (y, m, d) \<Rightarrow>
        \<lparr>dt_local = (ymd2ord y m d - epoch_ordinal) * us_per_day + fst tm, dt_offset = snd tm\<rparr>)"

definition datetime_fromisoformat :: "string \<Rightarrow> py_datetime result" where
  "datetime_fromisoformat s =
     (let bad = Inl (ValueError (''Invalid isoformat string: '' @ s)) in
      if length s < 7 then bad
      else case find_separator s of
        None \<Rightarrow> bad
      | Some sep \<Rightarrow>
          (case parse_isoformat_date s sep of
             None \<Rightarrow> bad
           | Some v \<Rightarrow>
               (case if sep < length s then parse_isoformat_time (drop (sep + 1) s) else Some (0, None) of
                  None \<Rightarrow> bad
                | Some tm \<Rightarrow> if valid_date v then Inr (datetime_at v tm) else bad)))"

section \<open>Reading digits back\<close>

lemma char_digit_digit [simp]: "n < 10 \<Longrightarrow> char_digit (digit_char n) = Some (int n)"
proof -
  assume "n < 10"
  moreover have "list_all (\<lambda>n. char_digit (digit_char n) = Some (int n)) [0..<10]" by code_simp
  ultimately show ?thesis by (simp add: list_all_iff)
qed

lemma digit_char_other: "n < 10 \<Longrightarrow> char_digit c = None \<Longrightarrow> digit_char n \<noteq> c"
  by (metis char_digit_digit option.distinct(1))

lemma digit_split: "10 * int (n div 10) + int (n mod 10) = int n"
  by presburger

lemma length_pad_digits [simp]: "length (pad_digits k n) = k"
  by (induction k arbitrary: n) simp_all

lemma pad_digits_all: "list_all (\<lambda>c. char_digit c \<noteq> None) (pad_digits k n)"
  by (induction k arbitrary: n) simp_all

lemma pad_digits_value: "n < 10 ^ k \<Longrightarrow> foldl (\<lambda>acc c. 10 * acc + the (char_digit c)) 0 (pad_digits k n) = int n"
  by (induction k arbitrary: n) (simp_all add: digit_split)

lemma parse_digits_pad: "n < 10 ^ k \<Longrightarrow> parse_digits k (pad_digits k n @ s) = Some (int n, s)"
  by (simp add: parse_digits_def pad_digits_all pad_digits_value del: not_None_eq)

lemma pad_two: "pad_digits 2 n = [digit_char (n div 10 mod 10), digit_char (n mod 10)]"
  by (simp add: numeral_2_eq_2)

lemma parse_two_pad: "n < 100 \<Longrightarrow> parse_two (pad_digits 2 n @ s) = Some (int n, s)"
  by (simp add: pad_two digit_split)

lemma parse_fraction_pad: "n < 1000000 \<Longrightarrow> parse_fraction (pad_digits 6 n) = Some (int n, False)"
  using pad_digits_value [of n 6] length_pad_digits [of 6 n]
  by (auto simp: parse_fraction_def Let_def pad_digits_all simp del: length_pad_digits not_None_eq)

section \<open>The time\<close>

definition fraction_text :: "nat \<Rightarrow> string" where
  "fraction_text us = (if us = 0 then [] else ''.'' @ pad_digits 6 us)"

definition time_text :: "nat \<Rightarrow> nat \<Rightarrow> nat \<Rightarrow> nat \<Rightarrow> string" where
  "time_text h m s us =
     pad_digits 2 h @ '':'' @ pad_digits 2 m @ '':'' @ pad_digits 2 s @ fraction_text us"

lemma parse_seconds_text:
  assumes "s < 100" "us < 1000000"
  shows "parse_components (Suc 0) (Some True) (pad_digits 2 s @ fraction_text us) = Some ([int s], int us, False)"
proof (cases "us = 0")
  case False
  obtain c r where six: "pad_digits 6 us = c # r" using length_pad_digits [of 6 us] by (cases "pad_digits 6 us") auto
  then show ?thesis
    using False parse_fraction_pad [OF assms(2)] by (simp add: fraction_text_def parse_two_pad assms(1))
qed (use parse_two_pad [OF assms(1), of "[]"] in \<open>simp add: fraction_text_def\<close>)

lemma parse_components_colon:
  assumes "v < 100" and "s \<noteq> []" and "sep \<noteq> Some False"
  shows "parse_components (Suc n) sep (pad_digits 2 v @ CHR '':'' # s) =
    (case parse_components n (Some True) s of None \<Rightarrow> None | Some (vs, q) \<Rightarrow> Some (int v # vs, q))"
proof -
  obtain c r where "s = c # r" using assms(2) by (cases s) auto
  with assms(1,3) show ?thesis by (auto simp: parse_two_pad Let_def split: option.splits)
qed

lemma parse_time_text:
  assumes "h < 100" "m < 100" "s < 100" "us < 1000000"
  shows "parse_hh_mm_ss_ff (time_text h m s us) = Some ((int h, int m, int s, int us), False)"
proof -
  have "pad_digits 2 s @ fraction_text us \<noteq> []" "pad_digits 2 m @ CHR '':'' # pad_digits 2 s @ fraction_text us \<noteq> []"
    by (simp_all add: pad_two)
  then have "parse_components 3 None (time_text h m s us) = Some ([int h, int m, int s], int us, False)"
    using parse_components_colon [OF assms(1), of _ None "Suc (Suc 0)"]
      parse_components_colon [OF assms(2), of _ "Some True" "Suc 0"] parse_seconds_text [OF assms(3,4)]
    by (simp add: time_text_def numeral_3_eq_3 del: parse_components.simps)
  then show ?thesis by (simp add: parse_hh_mm_ss_ff_def)
qed

lemma time_text_marks: "list_all (\<lambda>c. \<not> is_zone_mark c) (time_text h m s us)"
proof -
  have "list_all (\<lambda>c. \<not> is_zone_mark c) (pad_digits k n)" for k n
    by (rule list.pred_mono_strong [OF pad_digits_all]) (auto simp: is_zone_mark_def char_digit_def)
  then show ?thesis by (simp add: time_text_def fraction_text_def is_zone_mark_def)
qed

lemma parse_zone_utc: "parse_zone ''+00:00'' = Some (Some 0)"
  by code_simp

lemma split_zone_app:
  "list_all (\<lambda>c. \<not> is_zone_mark c) s \<Longrightarrow> is_zone_mark c \<Longrightarrow> split_zone (s @ c # r) = (s, c # r)"
  by (simp add: split_zone_def list_all_iff takeWhile_append2 dropWhile_append2)

lemma parse_isoformat_time_text:
  assumes "h < 24" "m < 60" "s < 60" "us < 1000000"
  shows "parse_isoformat_time (time_text h m s us @ ''+00:00'') =
    Some (((int h * 60 + int m) * 60 + int s) * 1000000 + int us, Some 0)"
  using assms split_zone_app [OF time_text_marks, of "CHR ''+''" h m s us "''00:00''"] parse_zone_utc
    parse_time_text [of h m s us]
  by (simp add: parse_isoformat_time_def is_zone_mark_def us_of_def)

section \<open>The date\<close>

definition date_text :: "nat \<Rightarrow> nat \<Rightarrow> nat \<Rightarrow> string" where
  "date_text y m d = pad_digits 4 y @ ''-'' @ pad_digits 2 m @ ''-'' @ pad_digits 2 d"

lemma nth_dash: "length s = k \<Longrightarrow> (s @ c # r) ! k = c" for c :: char
  by (simp add: nth_append)

lemma find_separator_text: "find_separator (date_text y m d @ CHR ''T'' # s) = Some 10"
proof -
  have "(date_text y m d @ CHR ''T'' # s) ! 4 = CHR ''-''"
    by (simp add: date_text_def nth_append)
  moreover have "(date_text y m d @ CHR ''T'' # s) ! 5 \<noteq> CHR ''W''"
    by (simp add: date_text_def nth_append pad_two nth_Cons' digit_char_other char_digit_def)
  moreover have "length (date_text y m d @ CHR ''T'' # s) \<noteq> 7" by (simp add: date_text_def)
  ultimately show ?thesis by (simp add: find_separator_def)
qed

lemma parse_date_text:
  assumes "y < 10000" "m < 100" "d < 100"
  shows "parse_isoformat_date (date_text y m d @ s) k = Some (int y, m, int d)"
proof -
  have "parse_digits 4 (date_text y m d @ s) = Some (int y, CHR ''-'' # pad_digits 2 m @ CHR ''-'' # pad_digits 2 d @ s)"
    using parse_digits_pad [of y 4] assms(1) by (simp add: date_text_def)
  moreover have "char_at (pad_digits 2 m @ r) 0 \<noteq> Some CHR ''W''" for r
    by (simp add: char_at_def pad_two digit_char_other char_digit_def)
  ultimately show ?thesis
    using assms(2,3) parse_digits_pad [of m 2] parse_digits_pad [of d 2]
    by (simp add: parse_isoformat_date_def char_at_def parse_month_day_def skip_dash_def)
qed

section \<open>The round trip\<close>

definition in_datetime_range :: "timestamp \<Rightarrow> bool" where
  "in_datetime_range t \<longleftrightarrow>
     1 \<le> t div us_per_day + epoch_ordinal \<and> t div us_per_day + epoch_ordinal \<le> MAX_ORDINAL"

lemma isoformat_text:
  assumes "ord2ymd (t div us_per_day + epoch_ordinal) = (y, m, d)" and "r = nat (t mod us_per_day)"
  shows "datetime_isoformat t =
    date_text (nat y) m (nat d) @ CHR ''T'' #
      time_text (r div 1000000 div 3600) (r div 1000000 div 60 mod 60) (r div 1000000 mod 60) (r mod 1000000) @ ''+00:00''"
  using assms by (simp add: datetime_isoformat_def date_text_def time_text_def fraction_text_def us_per_day_def Let_def)

lemma clock_split: "((r div 1000000 div 3600 * 60 + r div 1000000 div 60 mod 60) * 60 + r div 1000000 mod 60) * 1000000 +
    r mod 1000000 = r" for r :: nat
proof -
  have "q div 3600 * 60 + q div 60 mod 60 = q div 60" for q :: nat
    using div_mult2_eq [of q 60 60] by simp
  then show ?thesis by simp
qed

lemma fromisoformat_isoformat:
  assumes "in_datetime_range t"
  shows "datetime_fromisoformat (datetime_isoformat t) = Inr \<lparr>dt_local = t, dt_offset = Some 0\<rparr>"
proof -
  let ?ord = "t div us_per_day + epoch_ordinal"
  obtain y m d where date: "ord2ymd ?ord = (y, m, d)" "ymd2ord y m d = ?ord" "1 \<le> y" "y \<le> 9999" "1 \<le> m" "m \<le> 12"
    "1 \<le> d" "d \<le> days_in_month y m"
    using ord2ymd_range [of ?ord] assms unfolding in_datetime_range_def by blast
  have d31: "d \<le> 31" using days_in_month_le [OF date(5,6), of y] date(8) by linarith
  define r where "r = nat (t mod us_per_day)"
  have r: "int r = t mod us_per_day" "r < 86400000000" by (simp_all add: r_def us_per_day_def nat_less_iff)
  define h mi s us where "h = r div 1000000 div 3600" and "mi = r div 1000000 div 60 mod 60"
    and "s = r div 1000000 mod 60" and "us = r mod 1000000"
  note clock = h_def mi_def s_def us_def
  let ?time = "time_text h mi s us @ ''+00:00''"
  have "h < 24" using r(2) unfolding h_def by (simp add: div_less_iff_less_mult)
  then have time: "parse_isoformat_time ?time = Some (((int h * 60 + int mi) * 60 + int s) * 1000000 + int us, Some 0)"
    by (intro parse_isoformat_time_text) (simp_all add: clock)
  have "((h * 60 + mi) * 60 + s) * 1000000 + us = r" using clock_split [of r] by (simp only: clock)
  from arg_cong [OF this, of int]
  have us: "((int h * 60 + int mi) * 60 + int s) * 1000000 + int us = t mod us_per_day"
    by (simp only: of_nat_add of_nat_mult of_nat_numeral r(1))
  have written: "datetime_isoformat t = date_text (nat y) m (nat d) @ CHR ''T'' # ?time"
    using isoformat_text [OF date(1) r_def] by (simp only: clock)
  have "parse_isoformat_date (datetime_isoformat t) 10 = Some (y, m, d)"
    using parse_date_text [of "nat y" m "nat d"] date d31 by (simp add: written)
  moreover have "drop 11 (datetime_isoformat t) = ?time" "\<not> length (datetime_isoformat t) < 7" "10 < length (datetime_isoformat t)"
    by (simp_all add: written date_text_def time_text_def)
  moreover have "valid_date (y, m, d)" using date by (simp add: valid_date_def)
  moreover have "t div us_per_day * us_per_day + t mod us_per_day = t" by simp
  ultimately show ?thesis
    using find_separator_text [of "nat y" m "nat d" ?time] time us date(2)
    by (simp add: datetime_fromisoformat_def datetime_at_def written Let_def)
qed

end
