(* ===== verification/Cursors.thy ===== *)
theory Cursors
  imports Base64 Json_Text Iso_Datetime
begin

text \<open>
  The pagination cursors (\<^verbatim>\<open>_encode_campaign_cursor\<close>, \<^verbatim>\<open>_encode_call_cursor\<close> of
  \<^verbatim>\<open>app/persistence/repositories.py\<close>, \<^verbatim>\<open>encode_cursor\<close> of \<^verbatim>\<open>app/audit/reader.py\<close> and their decoders):
  URL-safe Base64 of a JSON dictionary with an ISO timestamp and an id. Strings are ASCII: a decoded
  byte outside ASCII is refused, where Python goes on to decode UTF-8.
\<close>

section \<open>int(...) and UUID(...)\<close>

text \<open>\<open>int(v)\<close> of a JSON value; a float is cut towards zero.\<close>

fun py_int :: "json \<Rightarrow> int result" where
  "py_int (JInt i) = Inr i"
| "py_int (JBool b) = Inr (if b then 1 else 0)"
| "py_int (JFloat r) = Inr (if r < 0 then - \<lfloor>- r\<rfloor> else \<lfloor>r\<rfloor>)"
| "py_int (JStr s) = int_of_text 10 s"
| "py_int v = Inl (TypeError ''int() argument must be a string, a bytes-like object or a real number'')"

fun py_uuid :: "json \<Rightarrow> uuid result" where
  "py_uuid (JStr s) = uuid_of_hex s"
| "py_uuid JNull = Inl (TypeError ''one of the hex, bytes, bytes_le, fields, or int arguments must be given'')"
| "py_uuid v = Inl (AttributeError ''object has no attribute replace'')"

section \<open>The cursors\<close>

definition ascii :: "char \<Rightarrow> bool" where
  "ascii c \<longleftrightarrow> of_char c < (128 :: nat)"

definition b64_json :: "string \<Rightarrow> json result" where
  "b64_json cursor =
     (if \<not> list_all ascii cursor then Inl (ValueError ''ordinal not in range(128)'')
      else bind_res (urlsafe_b64decode cursor) (\<lambda>raw.
        if \<not> list_all ascii raw then Inl (ValueError ''invalid utf-8'') else json_loads raw))"

fun json_index :: "json \<Rightarrow> string \<Rightarrow> json result" where
  "json_index (JObj d) k = dict_index d k"
| "json_index (JList vs) k = Inl (TypeError ''list indices must be integers or slices, not str'')"
| "json_index (JStr s) k = Inl (TypeError ''string indices must be integers, not str'')"
| "json_index v k = Inl (TypeError ''object is not subscriptable'')"

fun py_fromisoformat :: "json \<Rightarrow> py_datetime result" where
  "py_fromisoformat (JStr s) = datetime_fromisoformat s"
| "py_fromisoformat v = Inl (TypeError ''fromisoformat: argument must be str'')"

definition encode_pair :: "string \<Rightarrow> timestamp \<Rightarrow> string \<Rightarrow> string" where
  "encode_pair k t id_text =
     urlsafe_b64encode (json_dict_text [(k, json_str_text (datetime_isoformat t)), (''id'', id_text)])"

definition decode_pair :: "string \<Rightarrow> (json \<Rightarrow> 'i result) \<Rightarrow> string \<Rightarrow> (py_datetime \<times> 'i) result" where
  "decode_pair k read_id cursor =
     bind_res (b64_json cursor) (\<lambda>obj.
     bind_res (json_index obj k) (\<lambda>ts.
     bind_res (py_fromisoformat ts) (\<lambda>dt.
     bind_res (json_index obj ''id'') (\<lambda>i.
     bind_res (read_id i) (\<lambda>x. Inr (dt, x))))))"

definition encode_campaign_cursor :: "timestamp \<Rightarrow> uuid \<Rightarrow> string" where
  "encode_campaign_cursor created_at campaign_id =
     encode_pair ''created_at'' created_at (json_str_text (str_uuid campaign_id))"

definition decode_campaign_cursor :: "string \<Rightarrow> (py_datetime \<times> uuid) result" where
  "decode_campaign_cursor = decode_pair ''created_at'' py_uuid"

definition encode_call_cursor :: "timestamp \<Rightarrow> uuid \<Rightarrow> string" where
  "encode_call_cursor updated_at call_id = encode_pair ''updated_at'' updated_at (json_str_text (str_uuid call_id))"

definition decode_call_cursor :: "string \<Rightarrow> (py_datetime \<times> uuid) result" where
  "decode_call_cursor = decode_pair ''updated_at'' py_uuid"

definition encode_cursor :: "timestamp \<Rightarrow> int \<Rightarrow> string" where
  "encode_cursor ts audit_id = encode_pair ''ts'' ts (str_int audit_id)"

definition decode_cursor :: "string \<Rightarrow> (py_datetime \<times> int) result" where
  "decode_cursor = decode_pair ''ts'' py_int"

text \<open>
  What asyncpg does with a decoded value: \<open>timestamptz\<close> takes \<open>astimezone(utc)\<close>, where a naive datetime is
  read in the zone of the process (the parameter \<open>local\<close>), and \<open>int8\<close> refuses larger integers.
\<close>

type_synonym local_zone = "int \<Rightarrow> timestamp result"

definition bind_timestamptz :: "local_zone \<Rightarrow> py_datetime \<Rightarrow> timestamp result" where
  "bind_timestamptz local dt =
     (case dt_offset dt of
        None \<Rightarrow> local (dt_local dt)
      | Some off \<Rightarrow> if in_datetime_range (dt_local dt - off) then Inr (dt_local dt - off) else Inl DataError)"

definition bind_int8 :: "int \<Rightarrow> int result" where
  "bind_int8 i = (if - (2 ^ 63) \<le> i \<and> i < 2 ^ 63 then Inr i else Inl DataError)"

section \<open>Cursors read back\<close>

lemma ascii_digit_text: "n < 16 \<Longrightarrow> ascii (digit_char n)"
proof -
  assume "n < 16"
  moreover have "list_all (\<lambda>n. ascii (digit_char n)) [0..<16]" by code_simp
  ultimately show ?thesis by (simp add: list_all_iff)
qed

lemma ascii_hex_digits: "list_all ascii (hex_digits k n)"
  by (induction k arbitrary: n) (simp_all add: ascii_digit_text)

lemma ascii_json_str: "list_all ascii (json_str_text s)"
proof -
  have "list_all ascii (json_escape c)" for c
    using ascii_hex_digits by (auto simp: json_escape_def Let_def ascii_def)
  then show ?thesis by (induction s) (simp_all add: json_str_text_def ascii_def)
qed

lemma ascii_str_int: "list_all ascii (str_int i)"
proof -
  have "list_all ascii (str_nat n)" for n
    using str_nat_digits [of n] by (auto simp: list_all_iff ascii_digit_def ascii_def Let_def)
  then show ?thesis by (simp add: str_int_def ascii_def)
qed

lemma ascii_b64: "list_all ascii (urlsafe_b64encode s)"
proof -
  have "ascii (b64_char n)" if "n < 64" for n
    using that by (auto simp: ascii_def b64_char_def)
  note b64 = this
  show ?thesis
  proof (induction s rule: urlsafe_b64encode.induct)
    case (2 a)
    then show ?case using sextet_bounds [of "of_char a" 0] by (simp add: b64) (simp add: ascii_def)
  next
    case (3 a b)
    then show ?case using sextet_bounds [of "of_char a" "of_char b"] sextet_bounds [of "of_char b" 0]
      by (simp add: b64) (simp add: ascii_def)
  next
    case (4 a b c s)
    then show ?case using sextet_bounds [of "of_char a" "of_char b"] sextet_bounds [of "of_char b" "of_char c"]
        sextet_bounds [of "of_char c" 0] by (simp add: b64)
  qed simp
qed

lemma decode_encode_pair:
  assumes "in_datetime_range t" and "k \<noteq> ''id''" and "reads id_text v" and "list_all ascii id_text"
    and "read_id v = Inr x"
  shows "decode_pair k read_id (encode_pair k t id_text) = Inr (\<lparr>dt_local = t, dt_offset = Some 0\<rparr>, x)"
proof -
  let ?doc = "json_dict_text [(k, json_str_text (datetime_isoformat t)), (''id'', id_text)]"
  have doc: "json_loads ?doc = Inr (JObj [(k, JStr (datetime_isoformat t)), (''id'', v)])"
    using json_loads_dict [of "[(k, json_str_text (datetime_isoformat t), JStr (datetime_isoformat t)), (''id'', id_text, v)]"]
      reads_str assms(2,3) by simp
  have "list_all ascii ?doc"
    using ascii_json_str assms(4) by (simp add: json_dict_text_def json_item_text_def ascii_def)
  with doc have "b64_json (encode_pair k t id_text) = Inr (JObj [(k, JStr (datetime_isoformat t)), (''id'', v)])"
    by (simp add: b64_json_def encode_pair_def ascii_b64 decode_encode)
  with fromisoformat_isoformat [OF assms(1)] assms(2,5) show ?thesis
    by (simp add: decode_pair_def dict_index_def)
qed

text \<open>Every cursor the service writes is the one it reads.\<close>

lemma campaign_cursor_round_trip:
  assumes "in_datetime_range t" and "u < 2 ^ 128"
  shows "decode_campaign_cursor (encode_campaign_cursor t u) = Inr (\<lparr>dt_local = t, dt_offset = Some 0\<rparr>, u)"
  unfolding decode_campaign_cursor_def encode_campaign_cursor_def
  by (rule decode_encode_pair [OF assms(1) _ reads_str ascii_json_str]) (simp_all add: uuid_round_trip [OF assms(2)])

lemma call_cursor_round_trip:
  assumes "in_datetime_range t" and "u < 2 ^ 128"
  shows "decode_call_cursor (encode_call_cursor t u) = Inr (\<lparr>dt_local = t, dt_offset = Some 0\<rparr>, u)"
  unfolding decode_call_cursor_def encode_call_cursor_def
  by (rule decode_encode_pair [OF assms(1) _ reads_str ascii_json_str]) (simp_all add: uuid_round_trip [OF assms(2)])

lemma audit_cursor_round_trip:
  assumes "in_datetime_range t"
  shows "decode_cursor (encode_cursor t i) = Inr (\<lparr>dt_local = t, dt_offset = Some 0\<rparr>, i)"
  unfolding decode_cursor_def encode_cursor_def
  by (rule decode_encode_pair [OF assms _ reads_int ascii_str_int]) simp_all

end
