(* ===== verification/Audit_Reader.thy ===== *)
theory Audit_Reader
  imports Repositories Keyset Cursors
begin

text \<open>
  The listings: campaigns and calls (\<^verbatim>\<open>CampaignRepo.list_page\<close>,
  \<^verbatim>\<open>CallRepo.list_for_campaign\<close>) and the audit log (\<^verbatim>\<open>app/audit/reader.py\<close>,
  \<^verbatim>\<open>app/api/routers/audit.py\<close>) with its filters. Strings are ASCII.
\<close>

text \<open>The key a request's cursor stands for: decoded, then bound as query arguments.\<close>

definition decode_opt ::
  "local_zone \<Rightarrow> ('i \<Rightarrow> 'i result) \<Rightarrow> (string \<Rightarrow> (py_datetime \<times> 'i) result) \<Rightarrow> string option \<Rightarrow>
   (timestamp \<times> 'i) option result" where
  "decode_opt local bind_id decode cursor =
     (case cursor of
        None \<Rightarrow> Inr None
      | Some s \<Rightarrow>
          bind_res (decode s) (\<lambda>(dt, i).
          bind_res (bind_timestamptz local dt) (\<lambda>t.
          bind_res (bind_id i) (\<lambda>i. Inr (Some (t, i))))))"

section \<open>Campaigns and calls\<close>

definition campaign_key :: "campaign_row \<Rightarrow> timestamp \<times> uuid" where
  "campaign_key c = (cp_created_at c, cp_id c)"

definition campaign_page ::
  "(timestamp \<times> uuid) option \<Rightarrow> nat \<Rightarrow> db \<Rightarrow> campaign_row list \<times> (timestamp \<times> uuid) option" where
  "campaign_page k n d =
     (let result = keyset_rows campaign_key k n (db_campaigns d)
      in (result, keyset_next campaign_key n result))"

definition list_page ::
  "local_zone \<Rightarrow> string option \<Rightarrow> int \<Rightarrow> db \<Rightarrow>
   (campaign_row list \<times> string option) result" where
  "list_page local cursor limit d =
     (if limit \<le> 0 then Inl (ValueError ''limit must be positive'')
      else bind_res (decode_opt local Inr decode_campaign_cursor cursor) (\<lambda>k.
        let (result, next_key) = campaign_page k (nat limit) d
        in Inr (result, map_option (case_prod encode_campaign_cursor) next_key)))"

definition call_key :: "call_row \<Rightarrow> timestamp \<times> uuid" where
  "call_key r = (cl_updated_at r, cl_id r)"

definition call_page ::
  "(timestamp \<times> uuid) option \<Rightarrow> nat \<Rightarrow> db \<times> uuid \<Rightarrow> call_row list \<times> (timestamp \<times> uuid) option" where
  "call_page k n a =
     (let result = keyset_rows call_key k n (calls_of (fst a) (snd a))
      in (result, keyset_next call_key n result))"

definition list_for_campaign ::
  "local_zone \<Rightarrow> uuid \<Rightarrow> string option \<Rightarrow> int \<Rightarrow> db \<Rightarrow>
   (call_row list \<times> string option) result" where
  "list_for_campaign local cid cursor limit d =
     (if limit \<le> 0 then Inl (ValueError ''limit must be positive'')
      else bind_res (decode_opt local Inr decode_call_cursor cursor) (\<lambda>k.
        let (result, next_key) = call_page k (nat limit) (d, cid)
        in Inr (result, map_option (case_prod encode_call_cursor) next_key)))"

section \<open>Text filters\<close>

definition PHONE_FILTER_MIN_DIGITS :: nat where
  "PHONE_FILTER_MIN_DIGITS = 3"

definition strip_non_digits :: "string \<Rightarrow> string" where
  "strip_non_digits s = filter ascii_digit s"

definition normalize_phone_query :: "string option \<Rightarrow> string option" where
  "normalize_phone_query raw =
     (case raw of
        None \<Rightarrow> None
      | Some s \<Rightarrow>
          let digits = strip_non_digits s in
            if length digits < PHONE_FILTER_MIN_DIGITS then None else Some digits)"

definition backslash :: char where
  "backslash = CHR 0x5C"

definition like_escape :: "string \<Rightarrow> string" where
  "like_escape s =
     str_replace CHR ''_'' [backslash, CHR ''_'']
       (str_replace CHR ''%'' [backslash, CHR ''%'']
         (str_replace backslash [backslash, backslash] s))"

text \<open>SQL's \<open>LIKE\<close> with the default escape character.\<close>

fun like_match :: "string \<Rightarrow> string \<Rightarrow> bool" where
  "like_match [] t = (t = [])"
| "like_match (p # ps) [] = (p = CHR ''%'' \<and> like_match ps [])"
| "like_match (p # ps) (c # t) =
     (if p = CHR ''%'' then like_match ps (c # t) \<or> like_match (p # ps) t
      else if p = CHR ''_'' then like_match ps t
      else if p = backslash then (case ps of [] \<Rightarrow> False | q # qs \<Rightarrow> c = q \<and> like_match qs t)
      else c = p \<and> like_match ps t)"

definition ilike_match :: "string \<Rightarrow> string \<Rightarrow> bool" where
  "ilike_match p t = like_match (map ascii_lower p) (map ascii_lower t)"

definition contains_pattern :: "string \<Rightarrow> string" where
  "contains_pattern s = ''%'' @ like_escape s @ ''%''"

section \<open>The audit query\<close>

definition MAX_LIMIT :: int where
  "MAX_LIMIT = 500"

datatype event_filter =
    OneEvent string
  | AnyEvent "string list"

record audit_query =
  aq_campaign_id :: "uuid option"
  aq_call_id :: "uuid option"
  aq_event_type :: "event_filter option"
  aq_from_ts :: "timestamp option"
  aq_to_ts :: "timestamp option"
  aq_reason_contains :: "string option"
  aq_phone :: "string option"

definition event_matches :: "event_filter \<Rightarrow> string \<Rightarrow> bool" where
  "event_matches f e = (case f of OneEvent x \<Rightarrow> e = x | AnyEvent xs \<Rightarrow> e \<in> set xs)"

text \<open>The conjunction of the clauses; a NULL column satisfies none that mentions it.\<close>

definition audit_where :: "audit_query \<Rightarrow> audit_row \<Rightarrow> bool" where
  "audit_where q r \<longleftrightarrow>
     (case aq_campaign_id q of None \<Rightarrow> True | Some i \<Rightarrow> ae_campaign_id (ar_event r) = Some i) \<and>
     (case aq_call_id q of None \<Rightarrow> True | Some i \<Rightarrow> ae_call_id (ar_event r) = Some i) \<and>
     (case aq_event_type q of None \<Rightarrow> True
      | Some f \<Rightarrow> event_matches f (event_type_value (ae_event_type (ar_event r)))) \<and>
     (case aq_from_ts q of None \<Rightarrow> True | Some t \<Rightarrow> t \<le> ar_ts r) \<and>
     (case aq_to_ts q of None \<Rightarrow> True | Some t \<Rightarrow> ar_ts r \<le> t) \<and>
     (case aq_reason_contains q of None \<Rightarrow> True
      | Some s \<Rightarrow> s = [] \<or> ilike_match (contains_pattern s) (ae_reason (ar_event r))) \<and>
     (case aq_phone q of None \<Rightarrow> True
      | Some s \<Rightarrow>
          let digits = strip_non_digits s in
            length digits < PHONE_FILTER_MIN_DIGITS \<or>
            (case ae_phone (ar_event r) of None \<Rightarrow> False
             | Some p \<Rightarrow> like_match (contains_pattern digits) p))"

definition audit_key :: "audit_row \<Rightarrow> timestamp \<times> int" where
  "audit_key r = (ar_ts r, int (ar_id r))"

definition audit_page ::
  "(timestamp \<times> int) option \<Rightarrow> nat \<Rightarrow> db \<times> audit_query \<Rightarrow> audit_row list \<times> (timestamp \<times> int) option" where
  "audit_page k n a =
     (let result = keyset_rows audit_key k n (filter (audit_where (snd a)) (db_audit (fst a)))
      in (result, keyset_next audit_key n result))"

definition query_audit ::
  "local_zone \<Rightarrow> audit_query \<Rightarrow> string option \<Rightarrow> int \<Rightarrow> db \<Rightarrow>
   (audit_row list \<times> string option) result" where
  "query_audit local q cursor limit d =
     (if limit \<le> 0 \<or> MAX_LIMIT < limit then Inl (ValueError ''limit must be in (0, 500]'')
      else bind_res (decode_opt local bind_int8 decode_cursor cursor) (\<lambda>k.
        let (result, next_key) = audit_page k (nat limit) (d, q)
        in Inr (result, map_option (case_prod encode_cursor) next_key)))"

text \<open>The route: \<open>event_type\<close> is one name or a comma-separated list.\<close>

fun split_on :: "char \<Rightarrow> string \<Rightarrow> string list" where
  "split_on sep [] = [[]]"
| "split_on sep (c # s) =
     (if c = sep then [] # split_on sep s
      else (case split_on sep s of [] \<Rightarrow> [[c]] | w # ws \<Rightarrow> (c # w) # ws))"

definition event_filter_of :: "(string \<Rightarrow> string) \<Rightarrow> string option \<Rightarrow> event_filter option" where
  "event_filter_of strip event_type =
     (case event_type of
        None \<Rightarrow> None
      | Some s \<Rightarrow>
          if s = [] then None
          else
            (case filter (\<lambda>w. w \<noteq> []) (map strip (split_on CHR '','' s)) of
               [] \<Rightarrow> None
             | [x] \<Rightarrow> Some (OneEvent x)
             | items \<Rightarrow> Some (AnyEvent items)))"

section \<open>Escaping is exact\<close>

fun escape_char :: "char \<Rightarrow> string" where
  "escape_char c = (if c \<in> {backslash, CHR ''%'', CHR ''_''} then [backslash, c] else [c])"

lemma like_escape_Cons: "like_escape (c # s) = escape_char c @ like_escape s"
  by (simp add: like_escape_def backslash_def)

lemma like_escape_Nil [simp]: "like_escape [] = []"
  by (simp add: like_escape_def)

lemma like_match_percent: "like_match (CHR ''%'' # ps) t \<longleftrightarrow> (\<exists>n \<le> length t. like_match ps (drop n t))"
proof (induction t)
  case (Cons c t)
  have "(\<exists>n \<le> length (c # t). like_match ps (drop n (c # t))) \<longleftrightarrow>
      like_match ps (c # t) \<or> (\<exists>n \<le> length t. like_match ps (drop n t))"
    by (auto simp: Suc_le_eq gr0_conv_Suc elim!: ) (metis Suc_le_mono drop0 drop_Suc_Cons not0_implies_Suc le0)+
  with Cons.IH show ?case by simp
qed simp

lemma like_match_escape: "like_match (like_escape s @ ps) t \<longleftrightarrow> (\<exists>u. t = s @ u \<and> like_match ps u)"
proof (induction s arbitrary: t)
  case (Cons c s)
  have "like_match (like_escape (c # s) @ ps) t \<longleftrightarrow>
      (\<exists>t'. t = c # t' \<and> like_match (like_escape s @ ps) t')"
    by (cases t) (auto simp: like_escape_Cons backslash_def)
  with Cons.IH show ?case by auto
qed simp

lemma like_match_any [simp]: "like_match ''%'' t"
  by (induction t) simp_all

lemma contains_pattern_exact: "like_match (contains_pattern s) t \<longleftrightarrow> (\<exists>u v. t = u @ s @ v)"
proof -
  have "like_match (contains_pattern s) t \<longleftrightarrow> (\<exists>n \<le> length t. \<exists>v. drop n t = s @ v)"
    by (auto simp: contains_pattern_def like_match_percent like_match_escape simp del: like_match.simps(2,3))
  also have "\<dots> \<longleftrightarrow> (\<exists>u v. t = u @ s @ v)"
    by (metis append_eq_conv_conj append_take_drop_id le_add1 length_append)
  finally show ?thesis .
qed

lemma map_like_escape: "map ascii_lower (like_escape s) = like_escape (map ascii_lower s)"
proof -
  have code: "of_char (ascii_lower c) = (let n = of_char c :: nat in if 65 \<le> n \<and> n \<le> 90 then n + 32 else n)"
    for c by (simp add: ascii_lower_def Let_def)
  have special: "c \<in> {backslash, CHR ''%'', CHR ''_''} \<longleftrightarrow> of_char c \<in> {92, 37, 95 :: nat}" for c
    using of_char_eq_iff [of c "CHR ''%''", where 'a = nat] of_char_eq_iff [of c "CHR ''_''", where 'a = nat]
      of_char_eq_iff [of c backslash, where 'a = nat]
    by (simp add: backslash_def)
  have "ascii_lower c \<in> {backslash, CHR ''%'', CHR ''_''} \<longleftrightarrow> c \<in> {backslash, CHR ''%'', CHR ''_''}" for c
    unfolding special code Let_def by auto
  then have one: "map ascii_lower (escape_char c) = escape_char (ascii_lower c)" for c
    by (simp add: backslash_def ascii_lower_def)
  show ?thesis by (induction s) (simp_all add: like_escape_Cons one del: escape_char.simps)
qed

lemma ilike_contains_exact:
  "ilike_match (contains_pattern s) t \<longleftrightarrow>
   (\<exists>u v. map ascii_lower t = u @ map ascii_lower s @ v)"
proof -
  have "map ascii_lower (contains_pattern s) = contains_pattern (map ascii_lower s)"
    by (simp add: contains_pattern_def map_like_escape ascii_lower_def)
  then show ?thesis by (simp add: ilike_match_def contains_pattern_exact)
qed

section \<open>The listings meet the contract\<close>

interpretation campaigns: keyset_listing db_campaigns campaign_key campaign_page
  by unfold_locales (simp_all add: campaign_page_def Let_def)

interpretation calls: keyset_listing "\<lambda>a. calls_of (fst a) (snd a)" call_key call_page
  by unfold_locales (simp_all add: call_page_def Let_def)

interpretation audit_log: keyset_listing "\<lambda>a. filter (audit_where (snd a)) (db_audit (fst a))" audit_key audit_page
  by unfold_locales (simp_all add: audit_page_def Let_def)

text \<open>The keys whose cursors read back: Python's years, and ids of 128 and of 63 bits.\<close>

definition uuid_key_ok :: "timestamp \<times> uuid \<Rightarrow> bool" where
  "uuid_key_ok k \<longleftrightarrow> in_datetime_range (fst k) \<and> snd k < 2 ^ 128"

definition audit_key_ok :: "timestamp \<times> int \<Rightarrow> bool" where
  "audit_key_ok k \<longleftrightarrow> in_datetime_range (fst k) \<and> 0 \<le> snd k \<and> snd k < 2 ^ 63"

lemma bind_utc [simp]: "in_datetime_range t \<Longrightarrow> bind_timestamptz local \<lparr>dt_local = t, dt_offset = Some 0\<rparr> = Inr t"
  by (simp add: bind_timestamptz_def)

lemma decode_opt_encode:
  assumes "\<And>t i. k = Some (t, i) \<Longrightarrow>
      in_datetime_range t \<and> decode (enc t i) = Inr (\<lparr>dt_local = t, dt_offset = Some 0\<rparr>, i) \<and> bind_id i = Inr i"
  shows "decode_opt local bind_id decode (map_option (case_prod enc) k) = Inr k"
  using assms by (cases k) (auto simp: decode_opt_def)

lemma follow_campaigns:
  assumes "list_all (\<lambda>c. uuid_key_ok (campaign_key c)) (db_campaigns d)" and "0 < limit"
    and "distinct (map campaign_key (db_campaigns d))" and "length (db_campaigns d) < fuel"
  shows "\<exists>rs. follow (\<lambda>c. list_page local c limit d) fuel None = Inr rs \<and> descending campaign_key rs \<and>
    set rs = set (db_campaigns d) \<and> length rs = length (db_campaigns d)"
proof (rule campaigns.follow_complete [where enc = "case_prod encode_campaign_cursor" and n = "nat limit"])
  fix k assume "\<And>x. k = Some x \<Longrightarrow> x \<in> campaign_key ` set (db_campaigns d)"
  with assms(1) have "decode_opt local Inr decode_campaign_cursor (map_option (case_prod encode_campaign_cursor) k) = Inr k"
    by (intro decode_opt_encode) (auto simp: list_all_iff uuid_key_ok_def campaign_key_def campaign_cursor_round_trip)
  with assms(2) show "list_page local (map_option (case_prod encode_campaign_cursor) k) limit d =
      Inr (fst (campaign_page k (nat limit) d), map_option (case_prod encode_campaign_cursor) (snd (campaign_page k (nat limit) d)))"
    by (simp add: list_page_def case_prod_unfold Let_def)
qed (use assms in auto)

lemma follow_calls:
  assumes "list_all (\<lambda>r. uuid_key_ok (call_key r)) (calls_of d cid)" and "0 < limit"
    and "distinct (map call_key (calls_of d cid))" and "length (calls_of d cid) < fuel"
  shows "\<exists>rs. follow (\<lambda>c. list_for_campaign local cid c limit d) fuel None = Inr rs \<and> descending call_key rs \<and>
    set rs = set (calls_of d cid) \<and> length rs = length (calls_of d cid)"
proof -
  have page: "list_for_campaign local cid (map_option (case_prod encode_call_cursor) k) limit d =
      Inr (fst (call_page k (nat limit) (d, cid)), map_option (case_prod encode_call_cursor) (snd (call_page k (nat limit) (d, cid))))"
    if "\<And>x. k = Some x \<Longrightarrow> x \<in> call_key ` set (calls_of d cid)" for k
  proof -
    have "decode_opt local Inr decode_call_cursor (map_option (case_prod encode_call_cursor) k) = Inr k"
      using assms(1) that by (intro decode_opt_encode) (auto simp: list_all_iff uuid_key_ok_def call_key_def call_cursor_round_trip)
    with assms(2) show ?thesis by (simp add: list_for_campaign_def case_prod_unfold Let_def)
  qed
  show ?thesis
    using calls.follow_complete [where d = "(d, cid)" and enc = "case_prod encode_call_cursor" and n = "nat limit"
        and fetch = "\<lambda>c. list_for_campaign local cid c limit d" and fuel = fuel] page assms by auto
qed

lemma follow_audit:
  assumes "list_all (\<lambda>r. audit_key_ok (audit_key r)) (filter (audit_where q) (db_audit d))"
    and "0 < limit" and "limit \<le> MAX_LIMIT"
    and "distinct (map audit_key (filter (audit_where q) (db_audit d)))"
    and "length (filter (audit_where q) (db_audit d)) < fuel"
  shows "\<exists>rs. follow (\<lambda>c. query_audit local q c limit d) fuel None = Inr rs \<and> descending audit_key rs \<and>
    set rs = set (filter (audit_where q) (db_audit d)) \<and> length rs = length (filter (audit_where q) (db_audit d))"
proof -
  have page: "query_audit local q (map_option (case_prod encode_cursor) k) limit d =
      Inr (fst (audit_page k (nat limit) (d, q)), map_option (case_prod encode_cursor) (snd (audit_page k (nat limit) (d, q))))"
    if "\<And>x. k = Some x \<Longrightarrow> x \<in> audit_key ` set (filter (audit_where q) (db_audit d))" for k
  proof -
    have "decode_opt local bind_int8 decode_cursor (map_option (case_prod encode_cursor) k) = Inr k"
      using assms(1) that
      by (intro decode_opt_encode) (auto simp: list_all_iff audit_key_ok_def audit_key_def audit_cursor_round_trip bind_int8_def)
    with assms(2,3) show ?thesis by (simp add: query_audit_def case_prod_unfold Let_def)
  qed
  show ?thesis
    using audit_log.follow_complete [where d = "(d, q)" and enc = "case_prod encode_cursor" and n = "nat limit"
        and fetch = "\<lambda>c. query_audit local q c limit d" and fuel = fuel] page assms by auto
qed

end
