(* ===== verification/Interface_Properties.thy ===== *)
theory Interface_Properties
  imports Examples Audit_Reader
begin

text \<open>
  The properties of the service's edges: webhooks and their inbox, the mock provider, the HTTP
  handlers, the listings and the audit filters, each with a witness.
\<close>

section \<open>The inbox\<close>

text \<open>C21: a drain handles at most the configured number of rows; if it stops short of it, nothing is left
  to claim; each row handled without error leaves the inbox for good, and none re-enters.\<close>

theorem drain_is_bounded_and_complete:
  assumes "process_pending_inbox env d = (processed, notified, d')" and "db_inv d" and "inbox_ok d"
  shows "processed \<le> webhook_processor_batch_max (we_settings env) \<and>
    (processed < webhook_processor_batch_max (we_settings env) \<longrightarrow>
       claim_unprocessed_one (we_locked env) d' = None) \<and>
    unprocessed d' \<le> unprocessed d \<and> unprocessed d \<le> unprocessed d' + processed \<and> db_inv d'"
  using drain_bounded [OF assms(2), of 0 env "webhook_processor_batch_max (we_settings env)" 0 False]
    drain_complete [OF assms(2), of env "webhook_processor_batch_max (we_settings env)" 0 0 False]
    drain_accounts [OF assms(2,3), of env "webhook_processor_batch_max (we_settings env)" 0 0 False]
    drain_inv [OF assms(2), of env "webhook_processor_batch_max (we_settings env)" 0 0 False]
    assms(1)
  by (simp add: process_pending_inbox_def)

definition ex_hook_env :: webhook_env where
  "ex_hook_env =
     \<lparr>we_parse_event = parse_event, we_float_of_str = (\<lambda>_. None), we_settings = default_settings,
      we_locked = (\<lambda>_. False), we_now = (\<lambda>_. 9), we_utc = (\<lambda>_. 9), we_jitter = (\<lambda>_. 0)\<rparr>"

theorem drain_is_bounded_and_complete_witness:
  "claim_unprocessed_one (\<lambda>_. False) (snd (snd (process_pending_inbox ex_hook_env ex_dialing))) = None"
proof -
  have run: "process_pending_inbox ex_hook_env ex_dialing = (0, False, ex_dialing)"
    by (simp add: process_pending_inbox_def ex_hook_env_def default_settings_def process_one_row_def
        webhook_plan_def claim_unprocessed_one_def webhook_commit_def ex_dialing_def empty_db_def
        eval_nat_numeral)
  have "inbox_ok ex_dialing" by (simp add: inbox_ok_def ex_dialing_def empty_db_def)
  from drain_is_bounded_and_complete [OF run ex_dialing_inv this] run show ?thesis
    by (simp add: ex_hook_env_def default_settings_def)
qed

text \<open>C23: a row whose payload the adapter refuses is claimed by every iteration of every drain: as the
  oldest unprocessed row it uses up the whole cap, no later row is reached, and nothing changes.\<close>

theorem refused_payload_blocks_inbox:
  assumes "claim_unprocessed_one (we_locked env) d = Some row"
    and "we_parse_event env (ib_payload row) = Inl e"
  shows "process_pending_inbox env d = (webhook_processor_batch_max (we_settings env), False, d)"
  using drain_refused [OF assms] by (simp add: process_pending_inbox_def)

definition ex_inbox :: "string \<Rightarrow> json_dict \<Rightarrow> db \<Rightarrow> db" where
  "ex_inbox e payload d =
     d\<lparr>db_inbox := [\<lparr>ib_id = 31, ib_provider = ''mock'', ib_provider_event_id = e, ib_payload = payload,
        ib_headers = [], ib_received_at = 1, ib_processed_at = None\<rparr>]\<rparr>"

definition ex_ringing :: json_dict where
  "ex_ringing = [(''provider_event_id'', JStr ''e1''), (''provider_call_id'', JStr ''mock-1''),
                 (''status'', JStr ''RINGING'')]"

theorem refused_payload_blocks_inbox_witness:
  "handle_webhook_ingest verify_signature 31 1 ''mock'' ex_ringing [] [] ex_dialing =
     Inr (True, ex_inbox ''e1'' ex_ringing ex_dialing) \<and>
   process_pending_inbox ex_hook_env (ex_inbox ''e1'' ex_ringing ex_dialing) =
     (50, False, ex_inbox ''e1'' ex_ringing ex_dialing)"
proof
  show "handle_webhook_ingest verify_signature 31 1 ''mock'' ex_ringing [] [] ex_dialing =
      Inr (True, ex_inbox ''e1'' ex_ringing ex_dialing)"
    by (simp add: handle_webhook_ingest_def verify_signature_def dict_get_def inbox_insert_def
        ex_inbox_def ex_ringing_def ex_dialing_def empty_db_def)
  have claim: "claim_unprocessed_one (we_locked ex_hook_env) (ex_inbox ''e1'' ex_ringing ex_dialing) =
      Some \<lparr>ib_id = 31, ib_provider = ''mock'', ib_provider_event_id = ''e1'', ib_payload = ex_ringing,
        ib_headers = [], ib_received_at = 1, ib_processed_at = None\<rparr>"
    by (simp add: claim_unprocessed_one_def ex_hook_env_def ex_inbox_def)
  have "we_parse_event ex_hook_env ex_ringing = Inl (ValueError ''RINGING is not a valid CallStatus'')"
    by (simp add: ex_hook_env_def parse_event_def dict_index_def ex_ringing_def call_status_of_json_def
        call_status_of_value_def all_call_statuses_def)
  with refused_payload_blocks_inbox [OF claim] show
    "process_pending_inbox ex_hook_env (ex_inbox ''e1'' ex_ringing ex_dialing) =
      (50, False, ex_inbox ''e1'' ex_ringing ex_dialing)"
    by (simp add: ex_hook_env_def default_settings_def)
qed




section \<open>Events that arrive out of order\<close>

definition ex_event :: "string \<Rightarrow> call_status \<Rightarrow> json_dict" where
  "ex_event handle s = [(''provider_event_id'', JStr ''e3''), (''provider_call_id'', JStr handle),
                        (''status'', JStr (call_status_value s))]"



definition ex_failed :: db where
  "ex_failed = empty_db
     \<lparr>db_campaigns := [ex_campaign CAMPAIGN_IS_FAILED],
      db_calls := [ex_call 11 ''+15550000001'' FAILED 1 0 (Some ''mock-1'')],
      db_audit := [ex_move 1 (Some 11) ''FAILED'', ex_move 2 None ''FAILED''], db_audit_seq := 3\<rparr>"

text \<open>A BUSY event for a call that already failed with no retries left is applied once more: the status
  stays FAILED, and the log gains another transition row.\<close>

theorem late_failure_logged_again:
  "db_inv ex_failed \<and>
   fst (process_one_row ex_hook_env 0 (ex_inbox ''e3'' (ex_event ''mock-1'' BUSY) ex_failed)) = RowApplied \<and>
   map cl_status (db_calls (snd (process_one_row ex_hook_env 0 (ex_inbox ''e3'' (ex_event ''mock-1'' BUSY) ex_failed)))) = [FAILED] \<and>
   map (\<lambda>a. ae_event_type (ar_event a)) (drop 2 (db_audit (snd (process_one_row ex_hook_env 0
     (ex_inbox ''e3'' (ex_event ''mock-1'' BUSY) ex_failed))))) = [TRANSITION]"
proof (intro conjI)
  show "db_inv ex_failed" by (auto simp add: inv_defs ex_failed_def empty_db_def ex_defs terminal_iff)
qed code_simp+

end
