(* ===== verification/Api_Properties.thy ===== *)
theory Api_Properties
  imports Interface_Properties
begin

text \<open>
  The properties of the HTTP handlers, of request validation and of the mock provider, each with a
  witness.
\<close>

section \<open>Creating a campaign\<close>

text \<open>C30: a create request either leaves the store as it was, or adds one PENDING campaign and, in the
  order of the request, one fresh QUEUED call per phone with the configured retry budget; it is
  refused when a phone is queued or in flight anywhere.\<close>

theorem create_is_all_or_nothing:
  assumes "create_campaign mio stg cid ids now body d = (answer, notified, d')" and "create_ready body ids"
  shows "(d' = d \<and> \<not> notified \<and> (\<exists>e. answer = Inl e)) \<or>
    (notified \<and> cid \<notin> cp_id ` set (db_campaigns d) \<and>
     db_campaigns d' = db_campaigns d @ [created_campaign mio stg cid now body] \<and>
     (\<exists>new. db_calls d' = db_calls d @ new \<and> map cl_phone new = cc_phones body \<and> map cl_id new = ids \<and>
        list_all (\<lambda>r. cl_status r = QUEUED \<and> cl_attempt_epoch r = 0 \<and> cl_campaign_id r = cid \<and>
          cl_retries_remaining r = rc_max_attempts (cc_retry_config body)) new \<and>
        (\<forall>r \<in> set (db_calls d). in_phone_index r \<longrightarrow> cl_phone r \<notin> set (cc_phones body))))"
proof (cases "create_campaign_txn mio stg cid ids now body d")
  case (Inl e)
  then show ?thesis using assms(1) by (auto simp: create_campaign_def)
next
  case (Inr p)
  obtain row d1 where p: "p = (row, d1)" by (cases p)
  note c = create_campaign_txn_cases [OF Inr [unfolded p] assms(2)]
  let ?new = "created_calls cid ids now body"
  have len: "length ids = length (cc_phones body)" using assms(2) by (simp add: create_ready_def)
  have maps: "map cl_phone ?new = cc_phones body" "map cl_id ?new = ids"
    unfolding created_calls_def map2_new_rows using len by simp_all
  have rows: "list_all (\<lambda>r. cl_status r = QUEUED \<and> cl_attempt_epoch r = 0 \<and> cl_campaign_id r = cid \<and>
      cl_retries_remaining r = rc_max_attempts (cc_retry_config body)) ?new"
    using created_calls_mem [of _ cid ids now body] by (auto simp: list_all_iff)
  have free: "cl_phone r \<notin> set (cc_phones body)" if r: "r \<in> set (db_calls d)" "in_phone_index r" for r
  proof
    assume "cl_phone r \<in> set (cc_phones body)"
    then obtain x where x: "x \<in> set ?new" "cl_phone x = cl_phone r" using maps(1) by (metis imageE list.set_map)
    have "in_phone_index x" using created_calls_mem(2) [OF x(1)] by (simp add: in_phone_index_def)
    moreover have "cl_id r \<noteq> cl_id x" using c(4) r(1) x(1) by auto
    ultimately show False using phone_index_clash [of r "db_calls d @ ?new" x] c(5) r x by auto
  qed
  have "notified \<and> d' = d1" using assms(1) Inr p c(3) by (simp add: create_campaign_def)
  then show ?thesis
    using c(1,6) maps rows free by (auto simp: campaign_exists_def intro!: exI [of _ ?new])
qed

theorem create_is_all_or_nothing_witness:
  "snd (create_campaign ex_io default_settings 7 [11, 12] 0 ex_body empty_db) = (True, ex_created)"
proof -
  have run: "create_campaign ex_io default_settings 7 [11, 12] 0 ex_body empty_db =
      (fst (create_campaign ex_io default_settings 7 [11, 12] 0 ex_body empty_db), True, ex_created)"
    by (simp add: create_campaign_def ex_create_txn)
  from create_is_all_or_nothing [OF run ex_create_ready] have "db_campaigns ex_created \<noteq> []"
    by (auto simp: ex_created_def empty_db_def)
  with run show ?thesis by (metis snd_conv)
qed

text \<open>C36: the phone list of a request is accepted exactly when every entry has a canonical form and no two
  entries have the same one; then the campaign stores the canonical forms in order.\<close>

theorem phones_accepted_iff:
  "normalize_phones lib v = Inr out \<longleftrightarrow>
   v \<noteq> [] \<and> map (canonical_phone lib) v = map Inr out \<and> distinct out"
  using normalize_phones_acceptable [of lib v out] by (cases v) (auto simp: phones_acceptable_def)

text \<open>C37: an accepted body satisfies the CHECK constraints and the model of the stored row: a known
  canonical time zone, windows that open before they close, bounded retries and concurrency, and
  between one and 10000 distinct phones.\<close>

theorem validated_body_well_formed:
  assumes "validate_body zones lib b = Inr b'" and "0 < max_concurrent_default stg"
  shows "zones (cc_timezone b') \<noteq> None \<and> canonical_tz (cc_timezone b') = cc_timezone b' \<and>
    0 < body_max_concurrent stg b' \<and> retry_config_valid (cc_retry_config b') \<and>
    distinct (cc_phones b') \<and> 1 \<le> length (cc_phones b') \<and> length (cc_phones b') \<le> 10000 \<and>
    list_all (\<lambda>(k, ws). k \<in> set DAY_KEYS \<and> list_all (\<lambda>w. time_less (tw_start w) (tw_end w) = Inr True) ws)
      (cc_schedule b')"
proof -
  have parts: "cc_timezone b' = canonical_tz (cc_timezone b)" "zones (cc_timezone b') \<noteq> None"
      "cc_schedule b' = cc_schedule b" "cc_max_concurrent b' = cc_max_concurrent b"
      "cc_retry_config b' = cc_retry_config b" "retry_config_valid (cc_retry_config b)"
      "\<And>n. cc_max_concurrent b = Some n \<Longrightarrow> 1 \<le> n"
      "list_all (\<lambda>(k, ws). k \<in> set DAY_KEYS) (cc_schedule b)"
      "\<exists>rs. map_res (\<lambda>(k, ws). map_res start_before_end ws) (cc_schedule b) = Inr rs"
      "normalize_phones lib (cc_phones b) = Inr (cc_phones b')" "length (cc_phones b) \<le> 10000"
    using assms(1) by (auto simp: validate_body_def tz_valid_Inr split: if_splits sum.splits option.splits)
  have phones: "cc_phones b' \<noteq> []" "map (canonical_phone lib) (cc_phones b) = map Inr (cc_phones b')" "distinct (cc_phones b')"
    using parts(10) by (auto simp: normalize_phones_acceptable phones_acceptable_def)
  then have "length (cc_phones b') = length (cc_phones b)" by (metis length_map)
  moreover have "list_all (\<lambda>w. time_less (tw_start w) (tw_end w) = Inr True) ws" if "(k, ws) \<in> set (cc_schedule b)" for k ws
  proof -
    from parts(9) that have "\<exists>y. map_res start_before_end ws = Inr y" by (auto dest: map_res_all)
    then show ?thesis by (auto simp: list_all_iff start_before_end_Inr dest: map_res_all)
  qed
  moreover have "0 < body_max_concurrent stg b'"
    using parts(4,7) assms(2) by (auto simp: body_max_concurrent_def split: option.splits)
  ultimately show ?thesis
    using parts phones canonical_tz_idem by (auto simp: list_all_iff Suc_le_eq)
qed

definition ex_phone_lib :: "string phone_lib" where
  "ex_phone_lib = \<lparr>parse_phone = Inr, is_valid_number = (\<lambda>_. True), format_e164 = id\<rparr>"

theorem validated_body_well_formed_witness:
  "0 < body_max_concurrent default_settings ex_body"
proof -
  have "validate_body (\<lambda>_. Some (\<lambda>_. 0)) ex_phone_lib ex_body = Inr ex_body" by code_simp
  from validated_body_well_formed [OF this, of default_settings] show ?thesis
    by (simp add: default_settings_def)
qed

section \<open>Reading\<close>

text \<open>C35: the statistics partition the campaign's calls by the external status that \<^verbatim>\<open>GET /calls\<close> shows
  for each of them.\<close>

theorem stats_partition_calls:
  "st_total (campaign_stats d cid) = int (length (calls_of d cid)) \<and>
   st_completed (campaign_stats d cid) = count_status (\<lambda>s. external_call_status s = ''completed'') d cid \<and>
   st_failed (campaign_stats d cid) = count_status (\<lambda>s. external_call_status s = ''failed'') d cid \<and>
   st_in_progress (campaign_stats d cid) = count_status (\<lambda>s. external_call_status s = ''in_progress'') d cid \<and>
   st_completed (campaign_stats d cid) + st_failed (campaign_stats d cid) +
     st_in_progress (campaign_stats d cid) = st_total (campaign_stats d cid) \<and>
   0 \<le> st_retries_attempted (campaign_stats d cid)"
proof -
  have ext: "external_call_status s = ''completed'' \<longleftrightarrow> s = COMPLETED"
      "external_call_status s = ''failed'' \<longleftrightarrow> s \<in> {FAILED, NO_ANSWER, BUSY}"
      "external_call_status s = ''in_progress'' \<longleftrightarrow> s \<in> {QUEUED, DIALING, IN_PROGRESS, RETRY_PENDING}" for s
    by (cases s; simp)+
  have part: "count_where (\<lambda>r. P r \<and> Q (cl_status r)) rs + count_where (\<lambda>r. P r \<and> R (cl_status r)) rs +
      count_where (\<lambda>r. P r \<and> S (cl_status r)) rs = count_where P rs"
    if "\<And>s. (Q s \<and> \<not> R s \<and> \<not> S s) \<or> (\<not> Q s \<and> R s \<and> \<not> S s) \<or> (\<not> Q s \<and> \<not> R s \<and> S s)" for P Q R S and rs :: "call_row list"
  proof (induction rs)
    case (Cons r rs)
    with that [of "cl_status r"] show ?case by (auto simp: count_where_def)
  qed simp
  have "(s = COMPLETED \<and> s \<notin> {FAILED, NO_ANSWER, BUSY} \<and> s \<notin> {QUEUED, DIALING, IN_PROGRESS, RETRY_PENDING}) \<or>
      (s \<noteq> COMPLETED \<and> s \<in> {FAILED, NO_ANSWER, BUSY} \<and> s \<notin> {QUEUED, DIALING, IN_PROGRESS, RETRY_PENDING}) \<or>
      (s \<noteq> COMPLETED \<and> s \<notin> {FAILED, NO_ANSWER, BUSY} \<and> s \<in> {QUEUED, DIALING, IN_PROGRESS, RETRY_PENDING})" for s
    by (cases s) simp_all
  note total = part [OF this, where P = "\<lambda>r. cl_campaign_id r = cid" and rs = "db_calls d"]
  have "0 \<le> (\<Sum>r \<leftarrow> calls_of d cid. max (cl_attempt_epoch r - 1) 0)" by (intro sum_list_nonneg) auto
  moreover have "length (calls_of d cid) = count_where (\<lambda>r. cl_campaign_id r = cid) (db_calls d)"
    by (simp add: calls_of_def count_where_def)
  ultimately show ?thesis
    using total by (simp add: campaign_stats_def count_status_def ext flip: of_nat_add)
qed

section \<open>Ingestion\<close>

text \<open>C31: ingestion writes at most one inbox row and nothing else, and delivering the same event id again,
  with whatever payload, is answered the same way and changes nothing.\<close>

theorem ingest_is_idempotent:
  assumes "handle_webhook_ingest verify i now provider payload raw headers d = Inr (b, d')"
    and "verify headers' raw'"
    and "dict_get payload' ''provider_event_id'' JNull = dict_get payload ''provider_event_id'' JNull"
  shows "db_calls d' = db_calls d \<and> db_campaigns d' = db_campaigns d \<and> db_audit d' = db_audit d \<and>
    (d' = d \<or> (\<exists>row. db_inbox d' = db_inbox d @ [row] \<and> ib_processed_at row = None)) \<and>
    handle_webhook_ingest verify i' now' provider payload' raw' headers' d' = Inr (True, d')"
proof -
  obtain e j where e: "dict_get payload ''provider_event_id'' JNull = JStr e" "e \<noteq> []"
      and ins: "inbox_insert i now provider e payload headers d = Inr (j, d')"
    using assms(1) by (auto elim: ingest_Inr)
  have same: "db_calls d' = db_calls d \<and> db_campaigns d' = db_campaigns d \<and> db_audit d' = db_audit d \<and>
      (d' = d \<or> (\<exists>row. db_inbox d' = db_inbox d @ [row] \<and> ib_processed_at row = None))"
    using ins by (cases rule: inbox_insert_cases) auto
  have "\<exists>r \<in> set (db_inbox d'). ib_provider r = provider \<and> ib_provider_event_id r = e"
    using ins by (cases rule: inbox_insert_cases) auto
  then obtain j' where "inbox_insert i' now' provider e payload' headers' d' = Inr (j', d')"
    using inbox_insert_again by blast
  with e assms(2,3) same show ?thesis by (simp add: handle_webhook_ingest_def)
qed

theorem ingest_is_idempotent_witness:
  "handle_webhook_ingest verify_signature 32 9 ''mock'' ex_ringing [] [] (ex_inbox ''e1'' ex_ringing ex_dialing) =
   Inr (True, ex_inbox ''e1'' ex_ringing ex_dialing)"
proof -
  have "handle_webhook_ingest verify_signature 31 1 ''mock'' ex_ringing [] [] ex_dialing =
      Inr (True, ex_inbox ''e1'' ex_ringing ex_dialing)"
    by (simp add: handle_webhook_ingest_def verify_signature_def dict_get_def inbox_insert_def
        ex_inbox_def ex_ringing_def ex_dialing_def empty_db_def)
  from ingest_is_idempotent [OF this, of "[]" "[]" ex_ringing 32 9] show ?thesis
    by (simp add: verify_signature_def)
qed

section \<open>The provider\<close>

text \<open>Placing with a key that was placed before, however many other placements came in between,
  returns the first handle and starts nothing.\<close>

theorem placement_is_idempotent:
  "place_call draw' k phone' (fold (\<lambda>(a, j, p) m. snd (place_call a j p m)) rs (snd (place_call draw k phone m))) =
   (fst (place_call draw k phone m), fold (\<lambda>(a, j, p) m. snd (place_call a j p m)) rs (snd (place_call draw k phone m)))"
proof -
  have "fold (\<lambda>(a, j, p) m. snd (place_call a j p m)) rs m' = mock.place_all rs m'" for m'
    by (induction rs m' rule: mock.place_all.induct) simp_all
  then show ?thesis by (simp only: mock.retry_same_handle)
qed

text \<open>After a fresh placement the simulation reports DIALING, IN_PROGRESS and COMPLETED, or DIALING and
  the failure drawn; every payload parses back to its status, and the provider ends up confirming
  the last one.\<close>

theorem simulation_reports_trajectory:
  assumes "mp_by_idem m k = None"
  shows "map payload_status (fst (simulate 4 stg roll (mock_call_id (fst draw)) (snd (place_call draw k phone m)))) =
      map Inr (trajectory (draw_terminal stg roll)) \<and>
    get_status (mock_call_id (fst draw)) (snd (simulate 4 stg roll (mock_call_id (fst draw)) (snd (place_call draw k phone m)))) =
      Inr (draw_terminal stg roll)"
  using simulate_from_start [of "snd (place_call draw k phone m)" "mock_call_id (fst draw)" 0 stg roll]
  by (simp add: place_call_fresh [OF assms] eval_nat_numeral del: simulate.simps)

theorem simulation_reports_trajectory_witness:
  "map payload_status (fst (simulate 4 default_settings 1 (mock_call_id 5) (snd (place_call (5, 0) ''k'' ''+1'' mock_init)))) =
   [Inr DIALING, Inr IN_PROGRESS, Inr COMPLETED]"
proof -
  have "mp_by_idem mock_init ''k'' = None" by (simp add: mock_init_def)
  moreover have "draw_terminal default_settings 1 = COMPLETED"
    by (simp add: draw_terminal_def default_settings_def mock_failure_rate_effective_def)
  ultimately show ?thesis
    using simulation_reports_trajectory [of mock_init "''k''" default_settings 1 "(5, 0)" "''+1''"]
    by (simp add: trajectory_def)
qed

end
