(* ===== verification/Api_Listings.thy ===== *)
theory Api_Listings
  imports Audit_Reader Api
begin

text \<open>
  The listing routes: campaigns and their calls (\<^verbatim>\<open>app/api/routers/campaigns.py\<close>) and the
  audit log (\<^verbatim>\<open>app/api/routers/audit.py\<close>) with their response models. A \<open>limit\<close> outside the
  bounds of the query parameter is FastAPI's 422.
\<close>

definition query_limit :: "int \<Rightarrow> int \<Rightarrow> int result" where
  "query_limit upper limit =
     (if 1 \<le> limit \<and> limit \<le> upper then Inr limit else Inl (HTTPException 422 ''limit''))"

lemma query_limit_Inr [simp]: "query_limit upper limit = Inr n \<longleftrightarrow> n = limit \<and> 1 \<le> limit \<and> limit \<le> upper"
  by (auto simp: query_limit_def)

section \<open>Campaigns\<close>

record campaign_list_response =
  cll_campaigns :: "campaign_response list"
  cll_next_cursor :: "string option"

definition list_campaigns ::
  "model_io \<Rightarrow> local_zone \<Rightarrow> string option \<Rightarrow> int \<Rightarrow> db \<Rightarrow>
   campaign_list_response result" where
  "list_campaigns mio local cursor limit d =
     bind_res (query_limit 200 limit) (\<lambda>limit.
     bind_res (list_page local cursor limit d) (\<lambda>(rows, next_cursor).
     bind_res (map_res (row_to_response mio) rows) (\<lambda>cs.
       Inr \<lparr>cll_campaigns = cs, cll_next_cursor = next_cursor\<rparr>)))"

section \<open>A campaign's calls\<close>

record campaign_call_response =
  ccr_id :: uuid
  ccr_phone :: string
  ccr_status :: string
  ccr_attempt_epoch :: int
  ccr_retries_remaining :: int
  ccr_next_attempt_at :: "timestamp option"
  ccr_updated_at :: timestamp

definition call_to_response :: "call_row \<Rightarrow> campaign_call_response" where
  "call_to_response r =
     \<lparr>ccr_id = cl_id r, ccr_phone = cl_phone r, ccr_status = call_status_value (cl_status r),
      ccr_attempt_epoch = cl_attempt_epoch r, ccr_retries_remaining = cl_retries_remaining r,
      ccr_next_attempt_at = cl_next_attempt_at r, ccr_updated_at = cl_updated_at r\<rparr>"

record campaign_calls_list_response =
  ccl_calls :: "campaign_call_response list"
  ccl_next_cursor :: "string option"

definition list_campaign_calls ::
  "local_zone \<Rightarrow> uuid \<Rightarrow> string option \<Rightarrow> int \<Rightarrow> db \<Rightarrow>
   campaign_calls_list_response result" where
  "list_campaign_calls local cid cursor limit d =
     bind_res (query_limit 200 limit) (\<lambda>limit.
       case campaign_get cid d of
         None \<Rightarrow> Inl (HTTPException 404 ''campaign not found'')
       | Some _ \<Rightarrow>
           bind_res (list_for_campaign local cid cursor limit d) (\<lambda>(rows, next_cursor).
             Inr \<lparr>ccl_calls = map call_to_response rows, ccl_next_cursor = next_cursor\<rparr>))"

section \<open>The audit log\<close>

record audit_event_response =
  aer_id :: nat
  aer_ts :: timestamp
  aer_event_type :: string
  aer_campaign_id :: "uuid option"
  aer_call_id :: "uuid option"
  aer_phone :: "string option"
  aer_attempt_epoch :: "int option"
  aer_reason :: string
  aer_state_before :: "string option"
  aer_state_after :: "string option"
  aer_extra :: json_dict

definition audit_to_response :: "audit_row \<Rightarrow> audit_event_response" where
  "audit_to_response r =
     (let ev = ar_event r in
      \<lparr>aer_id = ar_id r, aer_ts = ar_ts r, aer_event_type = event_type_value (ae_event_type ev),
       aer_campaign_id = ae_campaign_id ev, aer_call_id = ae_call_id ev, aer_phone = ae_phone ev,
       aer_attempt_epoch = ae_attempt_epoch ev, aer_reason = ae_reason ev,
       aer_state_before = ae_state_before ev, aer_state_after = ae_state_after ev,
       aer_extra = ae_extra ev\<rparr>)"

record audit_list_response =
  alr_events :: "audit_event_response list"
  alr_next_cursor :: "string option"

record audit_params =
  ap_campaign_id :: "uuid option"
  ap_call_id :: "uuid option"
  ap_event_type :: "string option"
  ap_from_ts :: "timestamp option"
  ap_to_ts :: "timestamp option"
  ap_reason_contains :: "string option"
  ap_phone :: "string option"

text \<open>The query the route hands to the reader.\<close>

definition audit_query_of :: "audit_params \<Rightarrow> audit_query" where
  "audit_query_of p =
     \<lparr>aq_campaign_id = ap_campaign_id p, aq_call_id = ap_call_id p,
      aq_event_type = event_filter_of str_strip (ap_event_type p),
      aq_from_ts = ap_from_ts p, aq_to_ts = ap_to_ts p, aq_reason_contains = ap_reason_contains p,
      aq_phone = normalize_phone_query (ap_phone p)\<rparr>"

definition list_audit ::
  "local_zone \<Rightarrow> audit_params \<Rightarrow> string option \<Rightarrow> int \<Rightarrow> db \<Rightarrow>
   audit_list_response result" where
  "list_audit local p cursor limit d =
     bind_res (query_limit 500 limit) (\<lambda>limit.
     bind_res (query_audit local (audit_query_of p) cursor limit d) (\<lambda>(rows, next_cursor).
       Inr \<lparr>alr_events = map audit_to_response rows, alr_next_cursor = next_cursor\<rparr>))"

section \<open>What the route's filters mean\<close>

lemma split_on_ne [simp]: "split_on sep s \<noteq> []"
  by (induction s) (auto split: list.splits)

lemma in_words: "w \<in> set (filter (\<lambda>w. w \<noteq> []) (map str_strip (split_on CHR '','' s))) \<longleftrightarrow>
    w \<noteq> [] \<and> (\<exists>raw \<in> set (split_on CHR '','' s). w = str_strip raw)"
  by auto

text \<open>No name, or names that are all blank, is no filter; otherwise the event is one of the names.\<close>

lemma event_filter_of_matches:
  "(case event_filter_of str_strip (Some s) of None \<Rightarrow> True | Some f \<Rightarrow> event_matches f e) \<longleftrightarrow>
   (let names = {w. w \<noteq> [] \<and> (\<exists>raw \<in> set (split_on CHR '','' s). w = str_strip raw)}
    in names = {} \<or> e \<in> names)"
proof -
  let ?ws = "filter (\<lambda>w. w \<noteq> []) (map str_strip (split_on CHR '','' s))"
  have names: "{w. w \<noteq> [] \<and> (\<exists>raw \<in> set (split_on CHR '','' s). w = str_strip raw)} = set ?ws"
    by auto
  have "str_strip [] = []" by (simp add: str_strip_def)
  then have blank: "s = [] \<Longrightarrow> ?ws = []" by simp
  show ?thesis
    unfolding names Let_def event_filter_of_def option.case
    by (cases ?ws rule: list.exhaust; cases "tl ?ws")
      (use blank in \<open>auto simp: event_matches_def split: list.splits\<close>)
qed

text \<open>The digits the route keeps are the digits the reader matches.\<close>

lemma strip_non_digits_idem: "strip_non_digits (strip_non_digits s) = strip_non_digits s"
  by (simp add: strip_non_digits_def)

lemma phone_filter_exact:
  assumes "aq_phone q = normalize_phone_query (Some typed)"
    and "q' = q\<lparr>aq_phone := None\<rparr>"
  shows "audit_where q r \<longleftrightarrow> audit_where q' r \<and>
    (length (strip_non_digits typed) < 3 \<or>
     (\<exists>p u v. ae_phone (ar_event r) = Some p \<and> p = u @ strip_non_digits typed @ v))"
  using assms
  by (auto simp: audit_where_def normalize_phone_query_def Let_def PHONE_FILTER_MIN_DIGITS_def
      strip_non_digits_idem contains_pattern_exact split: option.splits)

end
