(* ===== verification/Listing_Properties.thy ===== *)
theory Listing_Properties
  imports Examples Api_Listings
begin

text \<open>
  The properties of the paginated listings and of the audit search, each with a witness.
\<close>

section \<open>A client that follows the cursors\<close>

text \<open>C33: the cursors of the three listings read back as the key they were written for, for every timestamp
  of Python's years 1 to 9999, every UUID and every audit id: the text passes through \<open>isoformat\<close>,
  \<open>json.dumps\<close>, Base64 and back.\<close>

theorem cursors_round_trip:
  assumes "in_datetime_range t" and "u < 2 ^ 128"
  shows "decode_campaign_cursor (encode_campaign_cursor t u) = Inr (\<lparr>dt_local = t, dt_offset = Some 0\<rparr>, u) \<and>
    decode_call_cursor (encode_call_cursor t u) = Inr (\<lparr>dt_local = t, dt_offset = Some 0\<rparr>, u) \<and>
    decode_cursor (encode_cursor t i) = Inr (\<lparr>dt_local = t, dt_offset = Some 0\<rparr>, i)"
  using assms by (simp add: campaign_cursor_round_trip call_cursor_round_trip audit_cursor_round_trip)

lemma epoch_in_range: "in_datetime_range 0"
  by (simp add: in_datetime_range_def epoch_ordinal_def MAX_ORDINAL_def)

theorem cursors_round_trip_witness:
  "decode_cursor (encode_cursor 0 (- 5)) = Inr (\<lparr>dt_local = 0, dt_offset = Some 0\<rparr>, - 5) \<and>
   decode_call_cursor (encode_call_cursor 0 12) = Inr (\<lparr>dt_local = 0, dt_offset = Some 0\<rparr>, 12)"
  using cursors_round_trip [OF epoch_in_range, of 12 "- 5"] by simp

text \<open>The process of the witnesses runs in UTC.\<close>

definition ex_zone :: local_zone where
  "ex_zone us = (if in_datetime_range us then Inr us else Inl DataError)"

text \<open>C34: the same for the calls of one campaign through its route: one response per call, the most
  recently moved first.\<close>

theorem call_listing_complete:
  assumes "db_inv d" and "campaign_get cid d \<noteq> None"
    and "list_all (\<lambda>r. uuid_key_ok (call_key r)) (calls_of d cid)"
    and "1 \<le> limit" and "limit \<le> 200" and "length (calls_of d cid) < fuel"
  shows "\<exists>rs. follow (\<lambda>c. bind_res (list_campaign_calls local cid c limit d)
        (\<lambda>a. Inr (ccl_calls a, ccl_next_cursor a))) fuel None = Inr (map call_to_response rs) \<and>
    distinct rs \<and> set rs = set (calls_of d cid) \<and>
    sorted_wrt (\<lambda>a b. cl_updated_at b \<le> cl_updated_at a) rs"
proof -
  have "distinct (map cl_id (calls_of d cid))"
    using db_invD(1) [OF assms(1)] unfolding calls_of_def by (rule distinct_map_filter)
  then have keys: "distinct (map call_key (calls_of d cid))"
    by (auto simp: call_key_def distinct_map inj_on_def)
  obtain rs where rs: "follow (\<lambda>c. list_for_campaign local cid c limit d) fuel None = Inr rs"
      "descending call_key rs" "set rs = set (calls_of d cid)" "length rs = length (calls_of d cid)"
    using follow_calls [OF assms(3) _ keys assms(6), of limit] assms(4) by auto
  have route: "(\<lambda>c. bind_res (list_campaign_calls local cid c limit d) (\<lambda>a. Inr (ccl_calls a, ccl_next_cursor a))) =
      (\<lambda>c. bind_res (list_for_campaign local cid c limit d) (\<lambda>(rs, nxt). Inr (map call_to_response rs, nxt)))"
  proof
    fix c
    show "bind_res (list_campaign_calls local cid c limit d) (\<lambda>a. Inr (ccl_calls a, ccl_next_cursor a)) =
        bind_res (list_for_campaign local cid c limit d) (\<lambda>(rs, nxt). Inr (map call_to_response rs, nxt))"
      using assms(2,4,5)
      by (cases "list_for_campaign local cid c limit d") (auto simp: list_campaign_calls_def query_limit_def)
  qed
  have "distinct rs" using rs(3,4) keys by (metis card_distinct distinct_card distinct_map)
  moreover have "sorted_wrt (\<lambda>a b. cl_updated_at b \<le> cl_updated_at a) rs"
    using rs(2) unfolding descending_def
    by (rule sorted_wrt_mono_rel [rotated]) (auto simp: call_key_def)
  ultimately show ?thesis using rs(1,3) unfolding route follow_map by auto
qed

theorem call_listing_complete_witness:
  "\<exists>rs. follow (\<lambda>c. bind_res (list_campaign_calls ex_zone 7 c 1 ex_dialing)
      (\<lambda>a. Inr (ccl_calls a, ccl_next_cursor a))) 3 None = Inr (map call_to_response rs) \<and>
    cl_id ` set rs = {11, 12}"
proof -
  have "campaign_get 7 ex_dialing \<noteq> None" by (simp add: campaign_get_def ex_dialing_def ex_campaign_def)
  moreover have "length (calls_of ex_dialing 7) = 2" "cl_id ` set (calls_of ex_dialing 7) = {11, 12}"
    by (auto simp: calls_of_def ex_dialing_def ex_call_def)
  moreover have "list_all (\<lambda>r. uuid_key_ok (call_key r)) (calls_of ex_dialing 7)"
    by (auto simp: calls_of_def ex_dialing_def ex_call_def uuid_key_ok_def call_key_def epoch_in_range)
  ultimately show ?thesis
    using call_listing_complete [OF ex_dialing_inv, of 7 1 3 ex_zone] by fastforce
qed

text \<open>C32: the search of the audit log returns, over all its pages and once each, exactly the rows that
  every other filter admits, whose reason contains the text (ignoring case; \<open>%\<close>, \<open>_\<close> and backslash stand
  for themselves) and whose phone contains the typed digits, when there are at least three of them.\<close>

theorem audit_search_exact:
  assumes "distinct (map ar_id (db_audit d))" and "1 \<le> limit" and "limit \<le> 500"
    and "list_all (\<lambda>r. audit_key_ok (audit_key r)) (db_audit d)" and "length (db_audit d) < fuel"
    and "ap_reason_contains p = Some text" and "ap_phone p = Some typed"
  shows "\<exists>rs. follow (\<lambda>c. bind_res (list_audit local p c limit d)
        (\<lambda>a. Inr (alr_events a, alr_next_cursor a))) fuel None = Inr (map audit_to_response rs) \<and>
    distinct rs \<and>
    set rs = {r \<in> set (db_audit d).
      audit_where ((audit_query_of p)\<lparr>aq_reason_contains := None, aq_phone := None\<rparr>) r \<and>
      (\<exists>u v. map ascii_lower (ae_reason (ar_event r)) = u @ map ascii_lower text @ v) \<and>
      (length (strip_non_digits typed) < 3 \<or>
       (\<exists>n u v. ae_phone (ar_event r) = Some n \<and> n = u @ strip_non_digits typed @ v))}"
proof -
  let ?q = "audit_query_of p"
  let ?rows = "filter (audit_where ?q) (db_audit d)"
  have "distinct (map ar_id ?rows)" using assms(1) by (rule distinct_map_filter)
  then have keys: "distinct (map audit_key ?rows)" by (auto simp: audit_key_def distinct_map inj_on_def)
  have lawful: "list_all (\<lambda>r. audit_key_ok (audit_key r)) ?rows" using assms(4) by (auto simp: list_all_iff)
  have "length ?rows < fuel" using assms(5) length_filter_le [of "audit_where ?q" "db_audit d"] by linarith
  then obtain rs where rs: "follow (\<lambda>c. query_audit local ?q c limit d) fuel None = Inr rs"
      "set rs = set ?rows" "length rs = length ?rows"
    using follow_audit [OF lawful _ _ keys, of limit fuel] assms(2,3) by (auto simp: MAX_LIMIT_def)
  have route: "(\<lambda>c. bind_res (list_audit local p c limit d) (\<lambda>a. Inr (alr_events a, alr_next_cursor a))) =
      (\<lambda>c. bind_res (query_audit local ?q c limit d) (\<lambda>(rs, nxt). Inr (map audit_to_response rs, nxt)))"
  proof
    fix c
    show "bind_res (list_audit local p c limit d) (\<lambda>a. Inr (alr_events a, alr_next_cursor a)) =
        bind_res (query_audit local ?q c limit d) (\<lambda>(rs, nxt). Inr (map audit_to_response rs, nxt))"
      using assms(2,3) by (cases "query_audit local ?q c limit d") (auto simp: list_audit_def query_limit_def)
  qed
  have phone: "aq_phone ?q = normalize_phone_query (Some typed)" using assms(7) by (simp add: audit_query_of_def)
  have reason: "audit_where (?q\<lparr>aq_phone := None\<rparr>) r \<longleftrightarrow>
      audit_where (?q\<lparr>aq_reason_contains := None, aq_phone := None\<rparr>) r \<and>
      (\<exists>u v. map ascii_lower (ae_reason (ar_event r)) = u @ map ascii_lower text @ v)" for r
  proof -
    have "\<exists>u v. x = u @ (v :: string)" for x by (rule exI [of _ "[]"]) simp
    then show ?thesis
      using assms(6)
      by (cases "text = []") (auto simp: audit_where_def audit_query_of_def ilike_contains_exact)
  qed
  have "distinct rs" using rs(2,3) keys by (metis card_distinct distinct_card distinct_map)
  with rs(1,2) show ?thesis
    unfolding route follow_map
    by (auto simp: phone_filter_exact [OF phone refl] reason)
qed

definition ex_params :: audit_params where
  "ex_params = \<lparr>ap_campaign_id = None, ap_call_id = None, ap_event_type = None, ap_from_ts = None,
     ap_to_ts = None, ap_reason_contains = Some ''%'', ap_phone = Some ''12''\<rparr>"

theorem audit_search_exact_witness:
  "follow (\<lambda>c. bind_res (list_audit ex_zone ex_params c 1 ex_dialing)
     (\<lambda>a. Inr (alr_events a, alr_next_cursor a))) 3 None = Inr []"
proof -
  have "distinct (map ar_id (db_audit ex_dialing))" "length (db_audit ex_dialing) < 3"
    by (simp_all add: ex_dialing_def ex_move_def)
  moreover have "list_all (\<lambda>r. audit_key_ok (audit_key r)) (db_audit ex_dialing)"
    by (auto simp: ex_dialing_def ex_move_def audit_key_ok_def audit_key_def epoch_in_range)
  ultimately have "\<exists>rs. follow (\<lambda>c. bind_res (list_audit ex_zone ex_params c 1 ex_dialing)
       (\<lambda>a. Inr (alr_events a, alr_next_cursor a))) 3 None = Inr (map audit_to_response rs) \<and>
      set rs \<subseteq> {r \<in> set (db_audit ex_dialing).
         \<exists>u v. map ascii_lower (ae_reason (ar_event r)) = u @ map ascii_lower ''%'' @ v}"
    using audit_search_exact [of ex_dialing 1 3 ex_params "''%''" "''12''" ex_zone] by (auto simp: ex_params_def)
  then
  obtain rs where rs: "follow (\<lambda>c. bind_res (list_audit ex_zone ex_params c 1 ex_dialing)
       (\<lambda>a. Inr (alr_events a, alr_next_cursor a))) 3 None = Inr (map audit_to_response rs)"
      "set rs \<subseteq> {r \<in> set (db_audit ex_dialing).
         \<exists>u v. map ascii_lower (ae_reason (ar_event r)) = u @ map ascii_lower ''%'' @ v}"
    by blast
  have "map ascii_lower (ae_reason (ar_event r)) \<noteq> u @ map ascii_lower ''%'' @ v"
    if "r \<in> set (db_audit ex_dialing)" for r u v
    using that
    by (auto simp: ex_dialing_def ex_move_def audit_event_of_def ascii_lower_def append_eq_Cons_conv Cons_eq_append_conv)
  with rs(2) have "rs = []" by (cases rs) auto
  with rs(1) show ?thesis by simp
qed

section \<open>A listing under concurrent updates\<close>

text \<open>A call that moves between two page requests can be missing from both pages: here the first page
  shows call 12, call 11 completes, and the second page is empty.\<close>

theorem moved_call_missed:
  "\<exists>cursor res d'. list_for_campaign ex_zone 7 None 1 ex_dialing =
       Inr ([ex_call 12 ''+15550000002'' QUEUED 0 1 None], Some cursor) \<and>
     transition 5 11 DIALING COMPLETED 1 None TRANSITION [] [] [] ex_dialing = Inr (res, d') \<and> tr_applied res \<and>
     list_for_campaign ex_zone 7 (Some cursor) 1 d' = Inr ([], None)"
proof -
  let ?r = "ex_call 11 ''+15550000001'' DIALING 1 1 (Some ''mock-1'')"
  let ?s = "ex_call 12 ''+15550000002'' QUEUED 0 1 None"
  let ?c = "encode_call_cursor 0 12"
  have page: "call_page None 1 (ex_dialing, 7) = ([?s], Some (0, 12))"
    by (simp add: call_page_def keyset_rows_def keyset_next_def calls_of_def call_key_def ex_dialing_def ex_call_def)
  obtain res d' where run: "transition 5 11 DIALING COMPLETED 1 None TRANSITION [] [] [] ex_dialing = Inr (res, d')"
    by (auto simp: transition_def update_call_where_def update_where_def transition_row_def Let_def
        null_violation_def phone_index_ok_def in_phone_index_def terminal_iff ex_db_defs ex_defs)
  have moved: "tr_applied res \<and> db_calls d' = [?r\<lparr>cl_status := COMPLETED, cl_updated_at := 5\<rparr>, ?s]"
    using run db_invD(4) [OF ex_dialing_inv]
  proof (cases rule: transition_outcome)
    case (applied r)
    then have "r = ?r" by (auto simp: ex_dialing_def ex_call_def)
    with applied(7,8) show ?thesis
      by (simp add: tr_applied_of_def put_row_def transition_row_def ex_dialing_def ex_call_def)
  next
    case regression
    then show ?thesis by (simp add: terminal_iff)
  next
    case no_op
    with no_op(1) [of ?r] show ?thesis by (simp add: ex_dialing_def ex_call_def)
  qed
  have "call_page (Some (0, 12)) 1 (d', 7) = ([], None)"
    by (simp add: call_page_def keyset_rows_def keyset_next_def calls_of_def call_key_def conjunct2 [OF moved] ex_call_def)
  then have "list_for_campaign ex_zone 7 (Some ?c) 1 d' = Inr ([], None)"
    using call_cursor_round_trip [OF epoch_in_range, of 12]
    by (simp add: list_for_campaign_def decode_opt_def epoch_in_range)
  moreover have "list_for_campaign ex_zone 7 None 1 ex_dialing = Inr ([?s], Some ?c)"
    using page by (simp add: list_for_campaign_def decode_opt_def)
  ultimately show ?thesis using run moved by blast
qed

end
