(* ===== verification/Lifespan.thy ===== *)
theory Lifespan
  imports Schema
begin

text \<open>
  The lifespan of the application (\<^verbatim>\<open>app/main.py\<close>): the pools, the background tasks it tracks, the
  order of start-up and shutdown, and the health route.
\<close>

section \<open>Pools and health\<close>

record 'p pools =
  pl_api :: 'p
  pl_scheduler :: 'p
  pl_webhook :: 'p

text \<open>\<open>create_pool dsn min_size max_size\<close> is \<open>asyncpg.create_pool\<close>, a parameter.\<close>

definition create_pools :: "(string \<Rightarrow> int \<Rightarrow> int \<Rightarrow> 'p option result) \<Rightarrow> settings \<Rightarrow> 'p pools result" where
  "create_pools create_pool settings =
     bind_res (create_pool (database_url settings) (api_pool_min settings) (api_pool_max settings)) (\<lambda>api.
     bind_res (create_pool (database_url settings) (scheduler_pool_min settings) (scheduler_pool_max settings)) (\<lambda>scheduler.
     bind_res (create_pool (database_url settings) (webhook_pool_min settings) (webhook_pool_max settings)) (\<lambda>webhook.
       (case (api, scheduler, webhook) of
          (Some a, Some s, Some w) \<Rightarrow> Inr \<lparr>pl_api = a, pl_scheduler = s, pl_webhook = w\<rparr>
        | _ \<Rightarrow> Inl (RuntimeError ''asyncpg.create_pool returned None'')))))"

text \<open>\<open>GET /health\<close>: each pool's size and idle size; before start-up there are no \<open>deps\<close>.\<close>

definition pool_health :: "int \<times> int \<Rightarrow> json" where
  "pool_health p = JObj [(''size'', JInt (fst p)), (''idle'', JInt (snd p))]"

definition health :: "(int \<times> int) pools option \<Rightarrow> json_dict" where
  "health deps =
     (case deps of
        None \<Rightarrow> [(''status'', JStr ''ok''), (''pools'', JNull)]
      | Some p \<Rightarrow>
          [(''status'', JStr ''ok''),
           (''pools'', JObj [(''api'', pool_health (pl_api p)),
                             (''scheduler'', pool_health (pl_scheduler p)),
                             (''webhook'', pool_health (pl_webhook p))])])"

section \<open>The routers of the application\<close>

datatype router =
    CampaignsRouter
  | CallsRouter
  | AuditRouter
  | WebhooksRouter
  | DebugRouter

definition base_routers :: "router list" where
  "base_routers = [CampaignsRouter, CallsRouter, AuditRouter, WebhooksRouter]"

text \<open>The debug router is included by the settings that the module reads when it is imported.\<close>

definition app_routers :: "settings \<Rightarrow> router list" where
  "app_routers stg = base_routers @ (if debug_endpoints_enabled stg then [DebugRouter] else [])"

lemma debug_gated: "DebugRouter \<in> set (app_routers stg) \<longleftrightarrow> debug_endpoints_enabled stg"
  by (simp add: app_routers_def base_routers_def)

section \<open>Tracked tasks\<close>

datatype task =
    SchedulerTask
  | ReclaimTask
  | InboxSafetyTask
  | InboxDrain nat

datatype pool_role =
    ApiPool
  | SchedulerPool
  | WebhookPool

datatype phase =
    Booting
  | Serving
  | Gathering
  | ClosingPools
  | Stopped

text \<open>
  \<open>ap_tracked\<close> is \<open>app.state.tracked_tasks\<close>, the tasks that have not ended; \<open>ap_awaited\<close> is what
  shutdown cancelled and gathers; \<open>ap_sims\<close> are the mock provider's simulations.
\<close>

record app =
  ap_phase :: phase
  ap_tracked :: "task list"
  ap_awaited :: "task list"
  ap_sims :: "nat list"
  ap_pools :: "pool_role list"

definition daemons :: "task list" where
  "daemons = [SchedulerTask, ReclaimTask, InboxSafetyTask]"

definition app_init :: app where
  "app_init = \<lparr>ap_phase = Booting, ap_tracked = [], ap_awaited = [], ap_sims = [], ap_pools = []\<rparr>"

text \<open>\<open>tracked.add\<close> on creation, \<open>tracked.discard\<close> in the done callback.\<close>

definition spawn :: "task \<Rightarrow> app \<Rightarrow> app" where
  "spawn t s = s\<lparr>ap_tracked := ap_tracked s @ [t]\<rparr>"

definition on_done :: "task \<Rightarrow> app \<Rightarrow> app" where
  "on_done t s = s\<lparr>ap_tracked := removeAll t (ap_tracked s)\<rparr>"

text \<open>The mock provider's own \<open>_spawn\<close> and \<open>_on_task_done\<close>, for its simulations.\<close>

definition spawn_sim :: "nat \<Rightarrow> app \<Rightarrow> app" where
  "spawn_sim k s = s\<lparr>ap_sims := ap_sims s @ [k]\<rparr>"

definition on_task_done :: "nat \<Rightarrow> app \<Rightarrow> app" where
  "on_task_done k s = s\<lparr>ap_sims := removeAll k (ap_sims s)\<rparr>"

definition start_up :: "app \<Rightarrow> app" where
  "start_up s =
     spawn InboxSafetyTask (spawn ReclaimTask (spawn SchedulerTask
       (s\<lparr>ap_phase := Serving, ap_pools := [ApiPool, SchedulerPool, WebhookPool]\<rparr>)))"

text \<open>The \<open>finally\<close> block, up to each of its awaits.\<close>

definition cancel_tracked :: "app \<Rightarrow> app" where
  "cancel_tracked s = s\<lparr>ap_phase := Gathering, ap_awaited := ap_tracked s\<rparr>"

definition gather_done :: "app \<Rightarrow> bool" where
  "gather_done s = list_all (\<lambda>t. t \<notin> set (ap_tracked s)) (ap_awaited s)"

definition aclose_provider :: "app \<Rightarrow> app" where
  "aclose_provider s = s\<lparr>ap_phase := ClosingPools, ap_sims := []\<rparr>"

definition close_next_pool :: "app \<Rightarrow> app" where
  "close_next_pool s =
     (case ap_pools s of
        [] \<Rightarrow> s\<lparr>ap_phase := Stopped\<rparr>
      | _ # rest \<Rightarrow> s\<lparr>ap_pools := rest\<rparr>)"

text \<open>
  \<open>ends\<close>: a daemon loops for ever and catches everything but its cancellation, so it ends only once
  it is cancelled; a drain ends at any time. \<open>sink\<close>: the mock's event sink, called from a simulation,
  ingests the event and spawns a drain; it does so as long as the loop runs the simulation, the time
  of the gather included.
\<close>

inductive app_step :: "app \<Rightarrow> app \<Rightarrow> bool" where
  boot: "ap_phase s = Booting \<Longrightarrow> app_step s (start_up s)"
| request: "ap_phase s = Serving \<Longrightarrow> InboxDrain i \<notin> set (ap_tracked s) \<Longrightarrow> app_step s (spawn (InboxDrain i) s)"
| dial: "ap_phase s = Serving \<Longrightarrow> SchedulerTask \<in> set (ap_tracked s) \<Longrightarrow>
    app_step s (spawn_sim k s)"
| sink: "k \<in> set (ap_sims s) \<Longrightarrow> ap_phase s = Serving \<or> ap_phase s = Gathering \<Longrightarrow>
    InboxDrain i \<notin> set (ap_tracked s @ ap_awaited s) \<Longrightarrow> app_step s (spawn (InboxDrain i) s)"
| sim_ends: "app_step s (on_task_done k s)"
| ends: "t \<in> set daemons \<longrightarrow> t \<in> set (ap_awaited s) \<Longrightarrow> app_step s (on_done t s)"
| shutdown: "ap_phase s = Serving \<Longrightarrow> app_step s (cancel_tracked s)"
| gathered: "ap_phase s = Gathering \<Longrightarrow> gather_done s \<Longrightarrow> app_step s (aclose_provider s)"
| pool_closed: "ap_phase s = ClosingPools \<Longrightarrow> app_step s (close_next_pool s)"

inductive app_run :: "app \<Rightarrow> bool" where
  app_starts: "app_run app_init"
| app_goes: "app_run s \<Longrightarrow> app_step s s' \<Longrightarrow> app_run s'"

lemmas app_defs = spawn_def on_done_def spawn_sim_def on_task_done_def start_up_def cancel_tracked_def gather_done_def
  aclose_provider_def close_next_pool_def daemons_def

section \<open>What holds in every phase\<close>

definition app_inv :: "app \<Rightarrow> bool" where
  "app_inv s \<longleftrightarrow>
     (case ap_phase s of
        Booting \<Rightarrow> ap_tracked s = [] \<and> ap_awaited s = [] \<and> ap_sims s = []
      | Serving \<Rightarrow> set daemons \<subseteq> set (ap_tracked s) \<and> ap_awaited s = [] \<and>
          ap_pools s = [ApiPool, SchedulerPool, WebhookPool]
      | Gathering \<Rightarrow> set daemons \<subseteq> set (ap_awaited s) \<and> ap_pools s = [ApiPool, SchedulerPool, WebhookPool]
      | ClosingPools \<Rightarrow> set daemons \<subseteq> set (ap_awaited s) \<and> gather_done s \<and> ap_sims s = []
      | Stopped \<Rightarrow> set daemons \<subseteq> set (ap_awaited s) \<and> gather_done s \<and> ap_sims s = [] \<and> ap_pools s = [])"

lemma app_inv_cases:
  "ap_phase s = Booting \<Longrightarrow> app_inv s \<longleftrightarrow> ap_tracked s = [] \<and> ap_awaited s = [] \<and> ap_sims s = []"
  "ap_phase s = Serving \<Longrightarrow> app_inv s \<longleftrightarrow> set daemons \<subseteq> set (ap_tracked s) \<and> ap_awaited s = [] \<and>
     ap_pools s = [ApiPool, SchedulerPool, WebhookPool]"
  "ap_phase s = Gathering \<Longrightarrow> app_inv s \<longleftrightarrow> set daemons \<subseteq> set (ap_awaited s) \<and>
     ap_pools s = [ApiPool, SchedulerPool, WebhookPool]"
  "ap_phase s = ClosingPools \<Longrightarrow> app_inv s \<longleftrightarrow> set daemons \<subseteq> set (ap_awaited s) \<and> gather_done s \<and> ap_sims s = []"
  "ap_phase s = Stopped \<Longrightarrow> app_inv s \<longleftrightarrow> set daemons \<subseteq> set (ap_awaited s) \<and> gather_done s \<and> ap_sims s = [] \<and>
     ap_pools s = []"
  by (simp_all add: app_inv_def)

lemma ends_inv:
  assumes "t \<in> set daemons \<longrightarrow> t \<in> set (ap_awaited s)" and "app_inv s"
  shows "app_inv (on_done t s)"
  using assms by (cases "ap_phase s") (auto simp: app_inv_cases on_done_def gather_done_def list_all_iff)

lemma app_step_inv: "app_step s s' \<Longrightarrow> app_inv s \<Longrightarrow> app_inv s'"
proof (induction rule: app_step.induct)
  case (sim_ends s k)
  then show ?case by (cases "ap_phase s") (simp_all add: app_inv_cases gather_done_def on_task_done_def)
next
  case (ends t s)
  then show ?case by (rule ends_inv)
next
  case (sink k s i)
  then show ?case by (elim disjE) (auto simp: app_inv_cases spawn_def)
next
  case (pool_closed s)
  then show ?case by (cases "ap_pools s") (simp_all add: app_inv_cases close_next_pool_def gather_done_def)
qed (auto simp: app_inv_cases spawn_sim_def spawn_def start_up_def daemons_def cancel_tracked_def aclose_provider_def gather_done_def)

lemma app_run_inv: "app_run s \<Longrightarrow> app_inv s"
proof (induction rule: app_run.induct)
  case app_starts
  then show ?case by (simp add: app_inv_def app_init_def)
next
  case (app_goes s s')
  with app_step_inv show ?case by blast
qed

section \<open>An application that stops in the middle of a call\<close>

definition ex_app_serving :: app where
  "ex_app_serving = (start_up app_init)\<lparr>ap_sims := [4]\<rparr>"

definition ex_app_gathering :: app where
  "ex_app_gathering = spawn (InboxDrain 9) (cancel_tracked ex_app_serving)"

definition ex_app_stopped :: app where
  "ex_app_stopped = \<lparr>ap_phase = Stopped, ap_tracked = [InboxDrain 9], ap_awaited = daemons, ap_sims = [], ap_pools = []\<rparr>"

lemma ex_app_serving_run: "app_run ex_app_serving"
proof -
  have "app_run (start_up app_init)" by (rule app_goes [OF app_starts boot]) (simp add: app_init_def)
  moreover have "app_step (start_up app_init) ex_app_serving"
    using dial [of "start_up app_init" 4] by (simp add: ex_app_serving_def app_defs app_init_def)
  ultimately show ?thesis by (rule app_goes)
qed

lemma ex_app_gathering_run: "app_run ex_app_gathering"
proof -
  have "app_step ex_app_serving (cancel_tracked ex_app_serving)"
    by (rule shutdown) (simp add: ex_app_serving_def app_defs)
  moreover have "app_step (cancel_tracked ex_app_serving) ex_app_gathering"
    unfolding ex_app_gathering_def by (rule sink [of 4]) (simp_all add: ex_app_serving_def app_defs app_init_def)
  ultimately show ?thesis using ex_app_serving_run app_goes by blast
qed

lemma ex_app_stopped_run: "app_run ex_app_stopped"
proof -
  let ?a = "on_done SchedulerTask ex_app_gathering"
  let ?b = "on_done ReclaimTask ?a"
  let ?c = "on_done InboxSafetyTask ?b"
  let ?d = "aclose_provider ?c"
  note unfold = ex_app_gathering_def ex_app_serving_def ex_app_stopped_def app_defs app_init_def
  have "app_step ex_app_gathering ?a" "app_step ?a ?b" "app_step ?b ?c"
    by (rule ends; simp add: unfold)+
  moreover have "app_step ?c ?d" by (rule gathered) (simp_all add: unfold)
  moreover have "app_step ?d (close_next_pool ?d)"
    "app_step (close_next_pool ?d) (close_next_pool (close_next_pool ?d))"
    "app_step (close_next_pool (close_next_pool ?d)) (close_next_pool (close_next_pool (close_next_pool ?d)))"
    "app_step (close_next_pool (close_next_pool (close_next_pool ?d))) ex_app_stopped"
    using pool_closed [of ?d] pool_closed [of "close_next_pool ?d"]
      pool_closed [of "close_next_pool (close_next_pool ?d)"]
      pool_closed [of "close_next_pool (close_next_pool (close_next_pool ?d))"] by (simp_all add: unfold)
  ultimately show ?thesis using ex_app_gathering_run app_goes by metis
qed

text \<open>C40: as long as a daemon, a task tracked at shutdown or a simulation of the mock is running, all three
  pools are open.\<close>

theorem pools_outlive_tasks:
  assumes "app_run s" and "set (daemons @ ap_awaited s) \<inter> set (ap_tracked s) \<noteq> {} \<or> ap_sims s \<noteq> []"
  shows "ap_pools s = [ApiPool, SchedulerPool, WebhookPool]"
  using app_run_inv [OF assms(1)] assms(2)
  by (cases "ap_phase s") (auto simp: app_inv_cases gather_done_def list_all_iff)

theorem pools_outlive_tasks_witness: "ap_pools ex_app_gathering = [ApiPool, SchedulerPool, WebhookPool]"
  using pools_outlive_tasks [OF ex_app_gathering_run]
  by (simp add: ex_app_gathering_def ex_app_serving_def app_defs app_init_def)

text \<open>
  The drain that an event spawns while the tasks are gathered is neither cancelled nor awaited: the
  application stops, its pools closed, with the drain still tracked.
\<close>

lemma drain_outlives_pools:
  "\<exists>s. app_run s \<and> ap_phase s = Stopped \<and> ap_pools s = [] \<and> ap_tracked s = [InboxDrain 9]"
  using ex_app_stopped_run by (auto simp: ex_app_stopped_def)

end
