(* ===== verification/Fairness.thy ===== *)
theory Fairness
  imports Tick_Correct
begin

text \<open>
  Many ticks in a row. The cursor order of the campaigns is a round robin: under its contract, stated
  as the locale \<open>round_robin\<close> and discharged for the tick, a campaign that stays entitled is served
  after at most as many dispatches as there are campaigns. The contract counts dispatches only: a
  tick that selects a campaign and finds nothing to claim leaves the cursor where it was, so a run of
  such ticks need not end (\<open>stalled_run\<close>).
\<close>

section \<open>The cursor a tick leaves\<close>

definition cursor_key :: "db \<Rightarrow> uuid \<Rightarrow> timestamp" where
  "cursor_key d i = (case last_dispatch d i of None \<Rightarrow> datetime_min | Some t \<Rightarrow> t)"

lemma rr_sort_key_with_cursor: "rr_sort_key (with_cursor d c) = (cursor_key d (cp_id c), cp_id c)"
  by (simp add: rr_sort_key_def cursor_key_def)

lemma candidate_key:
  "c \<in> set (tick_candidates zones t d) \<Longrightarrow> rr_sort_key c = (cursor_key d (cp_id c), cp_id c)"
  by (auto simp: tick_candidates_def in_list_eligible rr_sort_key_with_cursor)

lemma cursor_key_cong: "db_cursors d' = db_cursors d \<Longrightarrow> cursor_key d' = cursor_key d"
  by (simp add: cursor_key_def last_dispatch_def fun_eq_iff)

lemma requeue_cursors:
  assumes "requeue_oldest_retry_due locked now cid d = Inr d'" and "keys_ok d"
  shows "db_cursors d' = db_cursors d"
  using assms(1)
  by (cases rule: requeue_cases) (auto dest: transition_frame(1) [OF _ assms(2)])

lemma dispatch_claim_cursors:
  assumes "dispatch_claim locked now campaign d = Inr (cl, d')" and "db_inv d"
  shows "db_cursors d' = db_cursors d"
  using assms(2)
  by (cases rule: dispatch_claim_cases [where locked = locked and now = now and campaign = campaign])
    (use assms(1) in auto)

lemma apply_outcome_cursors:
  assumes "apply_outcome now py u base claimed outcome d = Inr (res, d')" and "keys_ok d"
  shows "db_cursors d' = db_cursors d"
  using assms(1)
  by (auto simp: apply_outcome_def bind_res_Inr_iff split: place_outcome.splits if_splits
      dest!: transition_frame(1) [OF _ assms(2)])

text \<open>A dispatching tick moves exactly one cursor, to the clock reading of its phase 3.\<close>

lemma dispatch_one_cursor:
  assumes "dispatch_one env c d = (Inr (Some i), d')" and inv: "db_inv d" and snap: "snapshot_ok c d"
  shows "i = cp_id c \<and> db_cursors d' = (db_cursors d)(i \<mapsto> Some (te_cursor_utc env))"
proof (cases rule: dispatch_one_cases [where env = env and c = c and d = d])
  case (dispatched cl d1 d2)
  have d1: "keys_ok d1" "db_cursors d1 = db_cursors d"
    using dispatch_claim_inv [OF dispatched(1) inv snap] dispatch_claim_cursors [OF dispatched(1) inv]
    by (simp_all add: db_inv_def)
  from dispatched(2) have "db_cursors d2 = (db_cursors d)(cp_id c \<mapsto> Some (te_cursor_utc env))"
  proof (cases rule: dispatch_apply_cases)
    case (1 base res d3)
    from apply_outcome_cursors [OF 1(2) d1(1)] 1(3) d1(2) show ?thesis
      by (auto simp: update_last_dispatch_at_def split: if_splits)
  qed
  with dispatched(3) assms(1) show ?thesis by simp
qed (use assms(1) in auto)

definition tick_serves :: "tick_env \<Rightarrow> db \<Rightarrow> uuid \<Rightarrow> bool" where
  "tick_serves env d i \<longleftrightarrow>
     (case fst (tick env d) of Inl e \<Rightarrow> False | Inr dec \<Rightarrow> td_campaign_id dec = Some i)"

text \<open>A campaign is entitled to a tick if it is a candidate of the class that goes first.\<close>

definition tick_entitled :: "tick_env \<Rightarrow> db \<Rightarrow> uuid \<Rightarrow> bool" where
  "tick_entitled env d i \<longleftrightarrow>
     (let cands = map cp_id (tick_candidates (te_zones env) (te_now_utc env) d);
          due = find_retry_due_campaign_ids (te_read_now env) d
      in i \<in> set cands \<and> (i \<in> set due \<or> (\<forall>j \<in> set cands. j \<notin> set due)))"

lemma tick_serves_picked:
  assumes "tick_serves env d i" and inv: "db_inv d"
  obtains c is_retry where
      "pick (find_retry_due_campaign_ids (te_read_now env) d)
         (tick_candidates (te_zones env) (te_now_utc env) d) = Picked c is_retry"
    and "i = cp_id c"
    and "db_cursors (snd (tick env d)) = (db_cursors d)(i \<mapsto> Some (te_cursor_utc env))"
proof (cases rule: tick_cases [where env = env and d = d])
  case (picked c is_retry d1 d2)
  from selected_campaign [OF picked(1) inv] have snap: "snapshot_ok c d"
      and q: "only_quiet_rows_added d d1" by blast+
  from tick_select_cases [of "te_zones env" "te_now_utc env" "te_read_now env" d] picked(1)
  have p: "pick (find_retry_due_campaign_ids (te_read_now env) d)
         (tick_candidates (te_zones env) (te_now_utc env) d) = Picked c is_retry"
    by (metis Inl_Inr_False fst_conv sum.inject(2))
  have 1: "db_inv d1" "evolves d d1" using tick_select_inv [OF inv] picked(1) by (metis snd_conv)+
  have 2: "db_inv d2" "evolves d1 d2" "db_cursors d2 = db_cursors d1"
    using picked(2) 1(1) by (auto split: if_splits dest: requeue_inv requeue_cursors db_invD)
  have "snapshot_ok c d2" using snap 1 2 snapshot_ok_evolves evolves_trans by blast
  moreover obtain d3 where "dispatch_one env c d2 = (Inr (Some i), d3)"
    using assms(1) picked(4)
    by (cases "dispatch_one env c d2"; cases "fst (dispatch_one env c d2)") (auto simp: tick_serves_def)
  ultimately have "i = cp_id c \<and> db_cursors (snd (tick env d)) = (db_cursors d2)(i \<mapsto> Some (te_cursor_utc env))"
    using dispatch_one_cursor [OF _ 2(1)] picked(3) by (metis snd_conv)
  with p q 2(3) show thesis by (intro that) (auto simp: only_quiet_rows_added_def)
qed (use assms(1) in \<open>auto simp: tick_serves_def\<close>)

lemma tick_serves_moves_cursor:
  assumes "tick_serves env d i" and "db_inv d"
  shows "cursor_key (snd (tick env d)) = (cursor_key d)(i := te_cursor_utc env)"
  using assms
  by (cases rule: tick_serves_picked) (auto simp: cursor_key_def last_dispatch_def fun_eq_iff)

lemma tick_serves_least:
  assumes "tick_serves env d i" and "db_inv d" and "tick_entitled env d j"
  shows "(cursor_key d i, i) \<le> (cursor_key d j, j)"
  using assms(1,2)
proof (cases rule: tick_serves_picked)
  case (1 c is_retry)
  note p = pick_cases [OF 1(1)]
  from assms(3) obtain x where x: "x \<in> set (tick_candidates (te_zones env) (te_now_utc env) d)" "j = cp_id x"
      "\<not> is_retry \<or> j \<in> set (find_retry_due_campaign_ids (te_read_now env) d)"
    using p(2) by (auto simp: tick_entitled_def Let_def)
  from p(4) [OF x(1)] x(2,3) have "rr_sort_key c \<le> rr_sort_key x" by blast
  then show ?thesis using candidate_key [OF p(1)] candidate_key [OF x(1)] 1(2) x(2) by simp
qed

section \<open>The round robin\<close>

text \<open>
  A round \<open>e\<close> in state \<open>s\<close> serves a customer with the least key among the entitled, and stamps
  it. Between two rounds the state may change in every other way; the keys are the scheduler's own.
\<close>

locale round_robin =
  fixes ok :: "'s \<Rightarrow> bool"
    and key :: "'s \<Rightarrow> uuid \<Rightarrow> timestamp"
    and serves :: "'e \<Rightarrow> 's \<Rightarrow> uuid \<Rightarrow> bool"
    and entitled :: "'e \<Rightarrow> 's \<Rightarrow> uuid \<Rightarrow> bool"
    and stamp :: "'e \<Rightarrow> timestamp"
    and after :: "'e \<Rightarrow> 's \<Rightarrow> 's"
  assumes least: "ok s \<Longrightarrow> serves e s i \<Longrightarrow> entitled e s j \<Longrightarrow> (key s i, i) \<le> (key s j, j)"
    and stamped: "ok s \<Longrightarrow> serves e s i \<Longrightarrow> key (after e s) = (key s)(i := stamp e)"
begin

definition linked :: "('e \<times> 's) list \<Rightarrow> bool" where
  "linked = successively (\<lambda>(e, s) (e', s'). key s' = key (after e s))"

text \<open>Whoever is served before \<open>x\<close> gets a later key than \<open>x\<close>, so it is not served again before \<open>x\<close>.\<close>

lemma served_before:
  assumes "linked rs"
    and "\<forall>(e, s) \<in> set rs. ok s \<and> entitled e s x \<and> key s0 x < stamp e \<and>
           (\<exists>i \<in> U. i \<noteq> x \<and> serves e s i)"
    and "rs \<noteq> [] \<Longrightarrow> key (snd (hd rs)) x = key s0 x"
    and "finite U"
    and "\<forall>i \<in> D. rs \<noteq> [] \<longrightarrow> key s0 x < key (snd (hd rs)) i"
    and "D \<subseteq> U - {x}"
  shows "card D + length rs \<le> card (U - {x})"
  using assms
proof (induction rs arbitrary: D)
  case Nil
  then show ?case by (simp add: card_mono)
next
  case (Cons r rs)
  obtain e s where r: "r = (e, s)" by (cases r)
  from Cons.prems(2) r obtain i where i: "i \<in> U" "i \<noteq> x" "serves e s i"
      and s: "ok s" "entitled e s x" "key s0 x < stamp e" by auto
  have x: "key s x = key s0 x" using Cons.prems(3) r by simp
  have "(key s i, i) \<le> (key s x, x)" by (rule least [OF s(1) i(3) s(2)])
  then have "i \<notin> D" using Cons.prems(5) r x by auto
  have next_key: "key (snd (hd rs)) = (key s)(i := stamp e)" if "rs \<noteq> []"
    using that Cons.prems(1) r stamped [OF s(1) i(3)] by (cases rs) (auto simp: linked_def)
  have "card (insert i D) + length rs \<le> card (U - {x})"
  proof (rule Cons.IH)
    show "linked rs" using Cons.prems(1) r by (cases rs) (auto simp: linked_def)
    show "rs \<noteq> [] \<Longrightarrow> key (snd (hd rs)) x = key s0 x" using next_key i(2) x by simp
    show "\<forall>j \<in> insert i D. rs \<noteq> [] \<longrightarrow> key s0 x < key (snd (hd rs)) j"
      using next_key s(3) Cons.prems(5) r by auto
  qed (use Cons.prems i in auto)
  moreover have "finite D" using Cons.prems(4,6) by (meson finite_Diff finite_subset)
  ultimately show ?case using \<open>i \<notin> D\<close> by simp
qed

lemma bounded_wait:
  assumes "linked rs" and "rs \<noteq> []"
    and "\<forall>(e, s) \<in> set rs. ok s \<and> entitled e s x \<and> key (snd (hd rs)) x < stamp e \<and>
           (\<exists>i \<in> U. serves e s i)"
    and "finite U" and "x \<in> U" and "card U \<le> length rs"
  shows "\<exists>(e, s) \<in> set rs. serves e s x"
proof (rule ccontr)
  assume "\<not> ?thesis"
  then have "\<forall>(e, s) \<in> set rs. ok s \<and> entitled e s x \<and> key (snd (hd rs)) x < stamp e \<and>
      (\<exists>i \<in> U. i \<noteq> x \<and> serves e s i)"
    using assms(3) by fast
  from served_before [OF assms(1) this _ assms(4), of "{}"] have "length rs \<le> card (U - {x})" by simp
  moreover have "card (U - {x}) < card U" using assms(4,5) by (rule card_Diff1_less)
  ultimately show False using assms(6) by simp
qed

end

interpretation rr: round_robin db_inv cursor_key tick_serves tick_entitled te_cursor_utc
  "\<lambda>env d. snd (tick env d)"
  by unfold_locales (auto intro: tick_serves_least simp: tick_serves_moves_cursor simp del: less_eq_prod_simp)
section \<open>Ticks that find nothing to claim\<close>

fun run_ticks :: "tick_env list \<Rightarrow> db \<Rightarrow> tick_decision result list \<times> db" where
  "run_ticks [] d = ([], d)"
| "run_ticks (env # envs) d =
     (let (r, d1) = tick env d; (rs, d2) = run_ticks envs d1 in (r # rs, d2))"

text \<open>
  The campaign is first in the rotation and open, below its cap and inside its hours at this tick;
  its remaining calls wait for a later retry, and so does every other call that waits for one.
\<close>

definition only_waiting :: "tick_env \<Rightarrow> db \<Rightarrow> uuid \<Rightarrow> bool" where
  "only_waiting env d i \<longleftrightarrow>
     i \<in> set (map cp_id (tick_candidates (te_zones env) (te_now_utc env) d)) \<and>
     (\<forall>x \<in> set (db_campaigns d). (cursor_key d i, i) \<le> (cursor_key d (cp_id x), cp_id x)) \<and>
     (\<forall>r \<in> set (db_calls d). cl_campaign_id r = i \<longrightarrow> cl_status r \<noteq> QUEUED) \<and>
     (\<forall>r \<in> set (db_calls d). \<not> retry_due (te_read_now env) r)"

definition hours_readable :: "tick_env \<Rightarrow> db \<Rightarrow> bool" where
  "hours_readable env d \<longleftrightarrow>
     (\<forall>c \<in> set (db_campaigns d).
        \<exists>b. is_in_window (te_zones env) (cp_schedule c) (cp_timezone c) (te_now_utc env) = Inr b)"

lemma split_hours_readable:
  "\<forall>c \<in> set cs. \<exists>b. is_in_window zones (cp_schedule c) (cp_timezone c) t = Inr b \<Longrightarrow>
   \<exists>p. split_hours zones t cs = Inr p"
  by (induction cs) auto

lemma with_cursor_cong: "db_cursors d' = db_cursors d \<Longrightarrow> with_cursor d' = with_cursor d"
  by (simp add: with_cursor_def last_dispatch_def fun_eq_iff)

lemma tick_candidates_cong:
  assumes "db_calls d' = db_calls d" and "db_campaigns d' = db_campaigns d" and "db_cursors d' = db_cursors d"
  shows "tick_candidates zones t d' = tick_candidates zones t d"
  by (simp add: tick_candidates_def list_eligible_for_tick_def has_dispatchable_work_def assms
      with_cursor_cong [OF assms(3)] in_flight_cong [OF assms(1)])

lemma only_waiting_cong:
  "only_quiet_rows_added d d' \<Longrightarrow> only_waiting env d' i \<longleftrightarrow> only_waiting env d i"
  by (simp add: only_waiting_def only_quiet_rows_added_def tick_candidates_cong [of d' d]
      cursor_key_cong [of d' d])

lemma hours_readable_cong:
  "only_quiet_rows_added d d' \<Longrightarrow> hours_readable env d' \<longleftrightarrow> hours_readable env d"
  by (simp add: hours_readable_def only_quiet_rows_added_def)

lemma tick_stalls:
  assumes wait: "only_waiting env d i" and hours: "hours_readable env d"
  shows "\<exists>d1. tick env d = (Inr \<lparr>td_campaign_id = None, td_is_retry = False\<rparr>, d1) \<and>
    only_quiet_rows_added d d1"
proof -
  let ?cands = "tick_candidates (te_zones env) (te_now_utc env) d"
  obtain c where c: "c \<in> set ?cands" "cp_id c = i" using wait by (auto simp: only_waiting_def)
  have due: "find_retry_due_campaign_ids (te_read_now env) d = []"
    using wait by (auto simp: only_waiting_def find_retry_due_campaign_ids_def filter_empty_conv)
  obtain x where x: "first_min rr_sort_key ?cands = Some x" using first_min_Some_ex [of ?cands] c(1) by fastforce
  have least: "x \<in> set ?cands" "rr_sort_key x \<le> rr_sort_key c"
    using first_min_in_set [OF x] first_min_le [OF x c(1)] by simp_all
  then obtain y where "y \<in> set (db_campaigns d)" "cp_id x = cp_id y"
    by (auto simp: tick_candidates_def in_list_eligible)
  then have "(cursor_key d i, i) \<le> (cursor_key d (cp_id x), cp_id x)" using wait by (simp add: only_waiting_def)
  with least candidate_key [OF least(1)] candidate_key [OF c(1)] c(2) have id: "cp_id x = i" by auto
  have read: "\<exists>p. split_hours (te_zones env) (te_now_utc env) (list_eligible_for_tick d) = Inr p"
    using hours by (intro split_hours_readable) (auto simp: hours_readable_def in_list_eligible)
  from tick_select_cases [of "te_zones env" "te_now_utc env" "te_read_now env" d]
  obtain d1 where sel: "tick_select (te_zones env) (te_now_utc env) (te_read_now env) d = (Inr (Picked x False), d1)"
      and q: "only_quiet_rows_added d d1"
  proof cases
    case (raises e)
    with read that show thesis by simp
  next
    case selects
    have "pick [] ?cands = Picked x False" by (simp add: pick_def x)
    with selects that show thesis by (simp add: due prod_eq_iff)
  qed
  have "claim_candidate (te_locked env) (te_claim_now env) (cp_id x) d1 = None"
    using wait q id by (auto simp: claim_candidate_def filter_empty_conv only_waiting_def only_quiet_rows_added_def)
  then have "dispatch_one env x d1 = (Inr None, d1)"
    by (simp add: dispatch_one_def dispatch_claim_def claim_next_queued_def)
  with sel q show ?thesis by (simp add: tick_def)
qed

lemma stalled_run:
  assumes "\<forall>env \<in> set envs. only_waiting env d i \<and> hours_readable env d"
  shows "fst (run_ticks envs d) = replicate (length envs) (Inr \<lparr>td_campaign_id = None, td_is_retry = False\<rparr>) \<and>
    only_quiet_rows_added d (snd (run_ticks envs d))"
  using assms
proof (induction envs arbitrary: d)
  case (Cons env envs)
  then obtain d1 where d1: "tick env d = (Inr \<lparr>td_campaign_id = None, td_is_retry = False\<rparr>, d1)"
      "only_quiet_rows_added d d1"
    using tick_stalls by (metis list.set_intros(1))
  have "\<forall>env \<in> set envs. only_waiting env d1 i \<and> hours_readable env d1"
    using Cons.prems only_waiting_cong [OF d1(2)] hours_readable_cong [OF d1(2)] by simp
  from Cons.IH [OF this] d1 show ?case by (auto simp: case_prod_unfold Let_def intro: quiet_trans)
qed simp

end
