(* ===== verification/Fairness_Properties.thy ===== *)
theory Fairness_Properties
  imports Fairness Examples
begin

text \<open>
  The properties of runs of ticks: how long a campaign can wait for its turn, and the run of ticks
  in which nobody gets one.
\<close>

section \<open>Round robin bounds the wait\<close>

text \<open>C12: a campaign that stays entitled (a candidate, with a due retry or while no candidate has one) is
  dispatched from within as many dispatching ticks as there are campaigns, whatever other tasks do to
  the store between the ticks, as long as the clock is past its own cursor.\<close>

theorem rotation_bounds_wait:
  assumes "successively (\<lambda>(env, d) (env', d'). cursor_key d' = cursor_key (snd (tick env d))) rounds"
    and "\<forall>(env, d) \<in> set rounds. db_inv d \<and> tick_entitled env d x \<and>
           cursor_key (snd (hd rounds)) x < te_cursor_utc env \<and> (\<exists>i \<in> U. tick_serves env d i)"
    and "finite U" and "x \<in> U" and "card U \<le> length rounds"
  shows "\<exists>(env, d) \<in> set rounds. tick_serves env d x"
proof (rule rr.bounded_wait [where U = U])
  show "rr.linked rounds" using assms(1) by (simp add: rr.linked_def)
  show "rounds \<noteq> []" using assms(3-5) card_gt_0_iff [of U] by auto
qed (use assms in auto)

definition ex_other :: "campaign_status \<Rightarrow> campaign_row" where
  "ex_other s = (ex_campaign s)\<lparr>cp_id := 8\<rparr>"

definition ex_fair :: db where
  "ex_fair = empty_db
     \<lparr>db_campaigns := [ex_campaign PENDING, ex_other PENDING],
      db_calls := [ex_call 11 ''+15550000001'' QUEUED 0 1 None, ex_call 12 ''+15550000002'' QUEUED 0 1 None,
                   (ex_call 21 ''+15550000003'' QUEUED 0 1 None)\<lparr>cl_campaign_id := 8\<rparr>]\<rparr>"

definition ex_fair_next :: db where
  "ex_fair_next = ex_fair\<lparr>db_cursors := (\<lambda>_. None)(7 \<mapsto> Some 0)\<rparr>"

lemmas ex_fair_defs = ex_fair_def ex_fair_next_def ex_other_def empty_db_def ex_defs

lemma ex_fair_inv: "db_inv ex_fair" "db_inv ex_fair_next"
  by (simp_all add: inv_defs ex_fair_defs)

lemma ex_fair_serves: "tick_serves ex_env ex_fair 7" "tick_serves ex_env ex_fair_next 8"
  by code_simp+

lemma ex_fair_entitled: "tick_entitled ex_env ex_fair 8" "tick_entitled ex_env ex_fair_next 8"
  by code_simp+

lemma ex_fair_linked: "cursor_key ex_fair_next = cursor_key (snd (tick ex_env ex_fair))"
  unfolding tick_serves_moves_cursor [OF ex_fair_serves(1) ex_fair_inv(1)]
  by (auto simp: fun_eq_iff cursor_key_def last_dispatch_def ex_fair_def ex_fair_next_def empty_db_def ex_env_def)

theorem rotation_bounds_wait_witness:
  "\<not> tick_serves ex_env ex_fair 8 \<and> tick_serves ex_env ex_fair_next 8"
proof -
  have "cursor_key ex_fair 8 < te_cursor_utc ex_env" by code_simp
  then have "\<exists>(env, d) \<in> set [(ex_env, ex_fair), (ex_env, ex_fair_next)]. tick_serves env d 8"
    using ex_fair_inv ex_fair_serves ex_fair_entitled ex_fair_linked
    by (intro rotation_bounds_wait [where U = "{7, 8}"]) auto
  moreover have "\<not> tick_serves ex_env ex_fair 8" using ex_fair_serves(1)
    by (auto simp: tick_serves_def split: sum.splits)
  ultimately show ?thesis by auto
qed

section \<open>A waiting retry holds the rotation\<close>






end
