(* ===== verification/Dial_Budget.thy ===== *)
theory Dial_Budget
  imports System_Cap
begin

text \<open>
  How often a call is dialled. The audit log counts the claims and the reclaims of each call:
  their sum is the call's epoch in every run. Each claim is paid for: by the first attempt, by one
  unit of \<open>retries_remaining\<close>, or by a reclaim. The budget needs the provider to keep to its
  role, reporting on calls in flight and in its own vocabulary (\<open>timely\<close>).
\<close>

section \<open>Claims and reclaims in the log\<close>

definition tally :: "event_type \<Rightarrow> db \<Rightarrow> uuid \<Rightarrow> int" where
  "tally e d i =
     int (count_where (\<lambda>a. moves_call i (ar_event a) \<and> ae_event_type (ar_event a) = e) (db_audit d))"

lemma tally_nonneg [simp]: "0 \<le> tally e d i"
  by (simp add: tally_def)

lemma tally_cong: "db_audit d' = db_audit d \<Longrightarrow> tally e d' i = tally e d i"
  by (simp add: tally_def)

lemma tally_emit:
  "tally e (emit_audit now ev d) i =
   tally e d i + (if moves_call i ev \<and> ae_event_type ev = e then 1 else 0)"
  by (simp add: tally_def)

lemma tally_quiet [simp]: "quiet_event ev \<Longrightarrow> tally e (emit_audit now ev d) i = tally e d i"
  by (simp add: tally_emit)

lemma tally_campaign_event [simp]:
  "ae_call_id ev = None \<Longrightarrow> tally e (emit_audit now ev d) i = tally e d i"
  by (simp add: tally_emit moves_call_def)

lemma tally_put_row [simp]: "tally e (put_row r d) i = tally e d i"
  by (rule tally_cong) simp

lemma tally_transition_if: "tally e (snd (campaign_transition_if now cid a b d)) i = tally e d i"
  by (rule tally_cong) (simp add: campaign_transition_if_def Let_def)

lemma tally_rollup [simp]: "tally e (maybe_transition_campaign_terminal now cid d) i = tally e d i"
  using tally_transition_if [of e now cid ACTIVE "rollup_target d cid" d i]
  by (simp add: maybe_transition_campaign_terminal_def case_prod_unfold Let_def rollup_event_def)

lemma tally_promote [simp]: "tally e (maybe_promote_to_active now cid d) i = tally e d i"
  using tally_transition_if [of e now cid PENDING ACTIVE d i]
  by (simp add: maybe_promote_to_active_def case_prod_unfold Let_def)

lemma tally_move_call:
  "records_move ev r \<Longrightarrow> tally e (move_call now r ev d) i =
   tally e d i + (if i = cl_id r \<and> ae_event_type ev = e then 1 else 0)"
  by (simp add: move_call_def Let_def tally_emit)

lemma tally_skip [simp]: "tally e (skip_out_of_hours now cs d) i = tally e d i"
  unfolding skip_out_of_hours_def by (induction cs arbitrary: d) simp_all

lemma tally_gate [simp]: "tally e (snd (concurrency_gate now m cs d)) i = tally e d i"
  by (induction cs arbitrary: d) (simp_all add: Let_def case_prod_unfold)

lemma tally_select: "tally e (snd (tick_select zones t now d)) i = tally e d i"
  by (simp add: tick_select_def Let_def case_prod_unfold split: sum.split)

section \<open>Rows and their log\<close>

definition waiting :: "call_status \<Rightarrow> bool" where
  "waiting s \<longleftrightarrow> s \<in> {QUEUED, RETRY_PENDING}"

definition flying :: "call_status \<Rightarrow> bool" where
  "flying s \<longleftrightarrow> s \<in> {DIALING, IN_PROGRESS}"

definition owed :: "call_status \<Rightarrow> int" where
  "owed s = (if waiting s then 1 else 0)"

text \<open>The epochs the log does not explain, and the dials made or still allowed, less the reclaims.\<close>

definition unlogged :: "db \<Rightarrow> call_row \<Rightarrow> int" where
  "unlogged d r =
     cl_attempt_epoch r - tally CLAIMED d (cl_id r) - tally RECLAIM_EXECUTED d (cl_id r)"

definition spend :: "db \<Rightarrow> call_row \<Rightarrow> int" where
  "spend d r =
     tally CLAIMED d (cl_id r) + cl_retries_remaining r + owed (cl_status r) -
     tally RECLAIM_EXECUTED d (cl_id r)"

definition logs_epochs :: "db \<Rightarrow> db \<Rightarrow> bool" where
  "logs_epochs d d' \<longleftrightarrow>
     (\<forall>r' \<in> set (db_calls d'). \<exists>r \<in> set (db_calls d). cl_id r' = cl_id r \<and> unlogged d' r' = unlogged d r)"

text \<open>A row that is in flight after a step was so before, with the same retries, or has a new epoch.\<close>

definition row_frugal :: "db \<Rightarrow> db \<Rightarrow> call_row \<Rightarrow> call_row \<Rightarrow> bool" where
  "row_frugal d d' r r' \<longleftrightarrow>
     cl_id r' = cl_id r \<and> cl_campaign_id r' = cl_campaign_id r \<and> spend d' r' \<le> spend d r \<and>
     (cl_retries_remaining r' = cl_retries_remaining r \<or> 0 \<le> cl_retries_remaining r') \<and>
     (cl_attempt_epoch r < cl_attempt_epoch r' \<or>
      cl_attempt_epoch r' = cl_attempt_epoch r \<and>
      (flying (cl_status r') \<longrightarrow> flying (cl_status r) \<and> cl_retries_remaining r' = cl_retries_remaining r))"

definition frugal :: "db \<Rightarrow> db \<Rightarrow> bool" where
  "frugal d d' \<longleftrightarrow> (\<forall>r' \<in> set (db_calls d'). \<exists>r \<in> set (db_calls d). row_frugal d d' r r')"

lemma logs_epochs_trans: "logs_epochs a b \<Longrightarrow> logs_epochs b c \<Longrightarrow> logs_epochs a c"
  unfolding logs_epochs_def by metis

lemma frugal_trans: "frugal a b \<Longrightarrow> frugal b c \<Longrightarrow> frugal a c"
  unfolding frugal_def row_frugal_def by (smt (verit, ccfv_threshold))

text \<open>Steps that change no call and log no claim or reclaim.\<close>

lemma same_calls_steps:
  assumes "set (db_calls d') = set (db_calls d)"
    and "\<And>e i. e \<in> {CLAIMED, RECLAIM_EXECUTED} \<Longrightarrow> tally e d' i = tally e d i"
  shows "logs_epochs d d'" and "frugal d d'"
  using assms by (auto simp: logs_epochs_def frugal_def row_frugal_def unlogged_def spend_def)

text \<open>Rewriting one row and logging the move.\<close>

lemma put_row_steps:
  assumes r: "r \<in> set (db_calls d)" "cl_id r' = cl_id r"
    and calls: "db_calls d' = db_calls (put_row r' d)"
    and log: "\<And>e i. tally e d' i = tally e d i + (if i = cl_id r \<and> e = et then 1 else 0)"
  shows "cl_attempt_epoch r' = cl_attempt_epoch r + (if et \<in> {CLAIMED, RECLAIM_EXECUTED} then 1 else 0) \<Longrightarrow>
           logs_epochs d d'"
    and "row_frugal d d' r r' \<Longrightarrow> frugal d d'"
proof -
  have other: "unlogged d' x = unlogged d x" "row_frugal d d' x x" if "cl_id x \<noteq> cl_id r" for x
    using that by (simp_all add: unlogged_def row_frugal_def spend_def log)
  show "logs_epochs d d'"
    if "cl_attempt_epoch r' = cl_attempt_epoch r + (if et \<in> {CLAIMED, RECLAIM_EXECUTED} then 1 else 0)"
    using that r other(1) unfolding logs_epochs_def calls
    by (intro put_row_related) (auto simp: unlogged_def log)
  show "frugal d d'" if "row_frugal d d' r r'"
    unfolding frugal_def calls by (rule put_row_related [OF r that other(2)])
qed

section \<open>Transitions\<close>

lemma transition_event_type [simp]: "ae_event_type (transition_event r et reason e n extra) = et"
  by (simp add: transition_event_def)

text \<open>Only the reclaim logs \<open>RECLAIM_EXECUTED\<close>, and only it bumps the epoch.\<close>

definition epoch_rule :: "event_type \<Rightarrow> int \<Rightarrow> int option \<Rightarrow> bool" where
  "epoch_rule et ep ne \<longleftrightarrow> et \<noteq> CLAIMED \<and> ne = (if et = RECLAIM_EXECUTED then Some (ep + 1) else None)"

lemma transition_logs:
  assumes run: "transition now i e n ep ne et reason extra cols d = Inr (res, d')"
    and keys: "keys_ok d" and rule: "epoch_rule et ep ne"
  shows "logs_epochs d d'"
  using run keys
proof (cases rule: transition_outcome)
  case (applied r)
  show ?thesis unfolding applied(8)
    by (rule put_row_steps(1) [OF applied(1), of "transition_row now n ne cols r"])
      (use applied(2-4) rule in \<open>auto simp: tally_move_call epoch_rule_def\<close>)
qed (auto simp: logs_epochs_def)

text \<open>
  What a transition may do to the retries of the row it matches: pay one for a wait, keep them in
  flight, and never give any back.
\<close>

definition thrifty ::
  "call_status \<Rightarrow> call_status \<Rightarrow> event_type \<Rightarrow> int \<Rightarrow> int \<Rightarrow> bool" where
  "thrifty e n et k k' \<longleftrightarrow>
     k' + owed n \<le> k + owed e + (if et = RECLAIM_EXECUTED then 1 else 0) \<and> (k' = k \<or> 0 \<le> k') \<and>
     (flying n \<longrightarrow> flying e \<and> k' = k)"

lemma transition_frugal:
  assumes run: "transition now i e n ep ne et reason extra cols d = Inr (res, d')"
    and keys: "keys_ok d" and rule: "epoch_rule et ep ne"
    and thrifty: "\<And>r. r \<in> set (db_calls d) \<Longrightarrow> cl_id r = i \<Longrightarrow> cl_status r = e \<Longrightarrow>
      cl_attempt_epoch r = ep \<Longrightarrow> (terminal e \<longrightarrow> n = e) \<Longrightarrow>
      thrifty e n et (cl_retries_remaining r) (cl_retries_remaining (transition_row now n ne cols r))"
  shows "frugal d d'"
  using run keys
proof (cases rule: transition_outcome)
  case (applied r)
  let ?r = "transition_row now n ne cols r"
  have log: "tally f d' j = tally f d j + (if j = cl_id r \<and> f = et then 1 else 0)" for f j
    using applied(2) by (simp add: applied(8) tally_move_call)
  have "row_frugal d d' r ?r"
    using thrifty [OF applied(1-5)] applied(3,4) rule
    by (auto simp: row_frugal_def spend_def log epoch_rule_def thrifty_def split: if_splits)
  then show ?thesis by (intro put_row_steps(2) [OF applied(1) _ _ log]) (simp_all add: applied(8))
qed (auto simp: frugal_def row_frugal_def)

section \<open>The transactions\<close>

lemma retries_of_transition_row [simp]:
  "cl_retries_remaining (transition_row now n ne [] r) = cl_retries_remaining r"
  "cl_retries_remaining (transition_row now n ne [(''provider_call_id'', v)] r) = cl_retries_remaining r"
  "cl_retries_remaining (transition_row now n ne
     [(''next_attempt_at'', w), (''retries_remaining'', ColInt k)] r) = k"
  by (auto simp: transition_row_def split: option.splits col_value.splits)

lemmas budget_defs = epoch_rule_def thrifty_def owed_def waiting_def flying_def

lemma select_steps:
  assumes "tick_select zones t now d = (r, d')"
  shows "logs_epochs d d'" and "frugal d d'"
  using tick_select_quiet [of d zones t now] tally_select [of _ zones t now d] assms
  by (auto simp: only_quiet_rows_added_def intro!: same_calls_steps)

lemma requeue_steps:
  assumes "requeue_oldest_retry_due locked now cid d = Inr d'" and "keys_ok d"
  shows "logs_epochs d d'" and "frugal d d'"
proof -
  have "logs_epochs d d' \<and> frugal d d'"
    using assms(1)
  proof (cases rule: requeue_cases)
    case drained
    then show ?thesis by (auto intro: same_calls_steps)
  next
    case (requeued row res)
    show ?thesis
      by (intro conjI transition_logs [OF requeued(5) assms(2)] transition_frugal [OF requeued(5) assms(2)])
        (simp_all add: budget_defs)
  qed
  then show "logs_epochs d d'" and "frugal d d'" by simp_all
qed

lemma claim_steps:
  assumes run: "dispatch_claim locked now campaign d = Inr (cl, d')" and inv: "db_inv d"
  shows "logs_epochs d d'" and "frugal d d'"
proof -
  have "logs_epochs d d' \<and> frugal d d'"
    using inv
  proof (cases rule: dispatch_claim_cases [where locked = locked and now = now and campaign = campaign])
    case none
    with run show ?thesis by (auto intro: same_calls_steps)
  next
    case (claimed r ev)
    note c = claim_candidate_Some [OF claimed(1)]
    let ?r = "claim_row now r"
    have calls: "db_calls d' = db_calls (put_row ?r d)" using run claimed(4) by auto
    have log: "tally e d' i = tally e d i + (if i = cl_id r \<and> e = CLAIMED then 1 else 0)" for e i
      using run claimed(2,4,5) by (auto simp: tally_emit split: if_splits)
    have "row_frugal d d' r ?r" using c(3) by (simp add: row_frugal_def spend_def log budget_defs)
    with put_row_steps [OF c(1) _ calls log] show ?thesis by simp
  qed
  then show "logs_epochs d d'" and "frugal d d'" by simp_all
qed

text \<open>A copy of a row taken earlier, as the scheduler and the drains hold them.\<close>

definition seen :: "call_row \<Rightarrow> db \<Rightarrow> bool" where
  "seen cl d \<longleftrightarrow>
     cl_id cl \<in> cl_id ` set (db_calls d) \<and>
     (\<forall>r \<in> set (db_calls d). cl_id r = cl_id cl \<longrightarrow>
        cl_attempt_epoch cl < cl_attempt_epoch r \<or>
        cl_attempt_epoch r = cl_attempt_epoch cl \<and>
        (flying (cl_status cl) \<and> flying (cl_status r) \<longrightarrow>
           cl_retries_remaining r = cl_retries_remaining cl))"

lemma seen_now: "keys_ok d \<Longrightarrow> cl \<in> set (db_calls d) \<Longrightarrow> seen cl d"
  by (auto simp: seen_def keys_ok_def dest: call_key_eq)

lemma seen_frugal:
  assumes "seen cl d" and "frugal d d'" and "evolves d d'"
  shows "seen cl d'"
proof -
  obtain r r' where "r \<in> set (db_calls d)" "cl_id r = cl_id cl" "r' \<in> set (db_calls d')" "row_evolves r r'"
    using assms(1,3) by (auto simp: seen_def evolves_def)
  then have "cl_id cl \<in> cl_id ` set (db_calls d')" by (metis image_eqI row_evolves_def)
  moreover have "cl_attempt_epoch cl < cl_attempt_epoch r' \<or>
      cl_attempt_epoch r' = cl_attempt_epoch cl \<and>
      (flying (cl_status cl) \<and> flying (cl_status r') \<longrightarrow> cl_retries_remaining r' = cl_retries_remaining cl)"
    if new: "r' \<in> set (db_calls d')" "cl_id r' = cl_id cl" for r'
  proof -
    obtain r where r: "r \<in> set (db_calls d)" "row_frugal d d' r r'"
      using assms(2) new(1) unfolding frugal_def by blast
    then have "cl_id r = cl_id cl" using new(2) by (simp add: row_frugal_def)
    with r assms(1) show ?thesis by (fastforce simp: seen_def row_frugal_def)
  qed
  ultimately show ?thesis by (simp add: seen_def)
qed

lemma seen_retries:
  assumes "seen cl d" and "r \<in> set (db_calls d)" and "cl_id r = cl_id cl"
    and "cl_attempt_epoch r = cl_attempt_epoch cl" and "flying (cl_status cl)" and "flying (cl_status r)"
  shows "cl_retries_remaining r = cl_retries_remaining cl"
  using assms by (auto simp: seen_def)

lemma apply_steps:
  assumes run: "dispatch_apply fs stg now py u ts campaign cl answer d = Inr d'" and keys: "keys_ok d"
  shows "logs_epochs d d'" and "seen cl d \<Longrightarrow> flying (cl_status cl) \<Longrightarrow> frugal d d'"
proof -
  from run obtain base res d1 where
    o: "apply_outcome now py u base cl answer d = Inr (res, d1)"
    and up: "update_last_dispatch_at (cp_id campaign) ts d1 = Inr d'"
    by (auto elim: dispatch_apply_cases)
  have same: "db_calls d' = db_calls d1" "db_audit d' = db_audit d1"
    using up by (auto simp: update_last_dispatch_at_def split: if_splits)
  then have tail: "logs_epochs d1 d'" "frugal d1 d'" by (auto intro!: same_calls_steps tally_cong)
  have "logs_epochs d d1"
    using o by (auto simp: apply_outcome_def bind_res_Inr_iff split: place_outcome.splits if_splits
        elim!: transition_logs [OF _ keys]) (simp_all add: budget_defs)
  with tail(1) show "logs_epochs d d'" by (blast intro: logs_epochs_trans)
  assume seen: "seen cl d" and fly: "flying (cl_status cl)"
  have "frugal d d1"
    using o seen_retries [OF seen _ _ _ fly]
    by (auto simp: apply_outcome_def bind_res_Inr_iff split: place_outcome.splits if_splits
        elim!: transition_frugal [OF _ keys]) (simp_all add: budget_defs)
  with tail(2) show "frugal d d'" by (blast intro: frugal_trans)
qed

lemma finish_event_steps:
  assumes "finish_event now row event call (res, d) = (oc, d')"
  shows "logs_epochs d d'" and "frugal d d'"
proof -
  have "tally e d' i = tally e d i" for e i
    using assms tally_cong [of "mark_processed now (ib_id row) x" x e i for x]
    by (auto simp: finish_event_def split: if_splits)
  with finish_event_tables(1) [OF assms] show "logs_epochs d d'" and "frugal d d'"
    by (auto intro!: same_calls_steps)
qed

lemma mark_steps:
  "logs_epochs d (mark_processed now i d)" "frugal d (mark_processed now i d)"
  by (auto intro!: same_calls_steps tally_cong)

lemma quiet_emit_steps:
  assumes "quiet_event ev"
  shows "logs_epochs d (emit_audit now ev d)" and "frugal d (emit_audit now ev d)"
  using assms by (auto intro!: same_calls_steps)

text \<open>
  What the budget asks of the provider: no event puts a call back in the queue or in the backoff,
  and an event that may cost a retry, or that reports progress, is about a call that is not waiting.
\<close>

definition timely_event :: "webhook_task \<Rightarrow> bool" where
  "timely_event task =
     (case task of
        IntermediateEvent row event call \<Rightarrow>
          \<not> waiting (pe_status_enum event) \<and> \<not> waiting (cl_status call)
      | TerminalEvent row event call base \<Rightarrow>
          pe_status_enum event \<in> {NO_ANSWER, BUSY} \<longrightarrow> \<not> waiting (cl_status call)
      | _ \<Rightarrow> True)"

definition task_call :: "webhook_task \<Rightarrow> call_row option" where
  "task_call task =
     (case task of
        TerminalEvent row event call base \<Rightarrow> Some call
      | IntermediateEvent row event call \<Rightarrow> Some call
      | _ \<Rightarrow> None)"

lemma status_kinds: "waiting s \<or> flying s \<or> terminal s"
  by (cases s) (simp_all add: waiting_def flying_def terminal_iff)

lemma retryable_steps:
  assumes run: "apply_retryable_outcome now py u (cl_id cl) (cl_status cl) (cl_attempt_epoch cl)
      (cl_retries_remaining cl) oc base pre d = Inr (res, d')"
    and keys: "keys_ok d"
  shows "logs_epochs d d'"
    and "seen cl d \<Longrightarrow> (oc \<in> {NO_ANSWER, BUSY} \<longrightarrow> \<not> waiting (cl_status cl)) \<Longrightarrow> frugal d d'"
proof -
  show "logs_epochs d d'"
    using run by (cases rule: apply_retryable_outcome_cases)
      (auto elim!: transition_logs [OF _ keys] simp: epoch_rule_def)
  assume seen: "seen cl d" and timely: "oc \<in> {NO_ANSWER, BUSY} \<longrightarrow> \<not> waiting (cl_status cl)"
  show "frugal d d'"
    using run
  proof (cases rule: apply_retryable_outcome_cases)
    case (retry t reason)
    have fly: "flying (cl_status cl)" if "terminal (cl_status cl) \<longrightarrow> RETRY_PENDING = cl_status cl"
      using that timely retry(1) status_kinds [of "cl_status cl"] by (auto simp: terminal_iff)
    show ?thesis
      by (rule transition_frugal [OF retry(4) keys])
        (use fly seen_retries [OF seen] retry(2) in \<open>auto simp: budget_defs\<close>)
  qed (auto elim!: transition_frugal [OF _ keys] simp: budget_defs)
qed

lemma webhook_steps:
  assumes run: "webhook_commit now py u task d = Inr (oc, d')" and keys: "keys_ok d"
  shows "logs_epochs d d'"
    and "timely_event task \<Longrightarrow> (\<And>cl. task_call task = Some cl \<Longrightarrow> seen cl d) \<Longrightarrow> frugal d d'"
proof -
  have "logs_epochs d d' \<and>
      (timely_event task \<longrightarrow> (\<forall>cl. task_call task = Some cl \<longrightarrow> seen cl d) \<longrightarrow> frugal d d')"
    using run
  proof (cases rule: webhook_commit_cases)
    case (unknown row event)
    then show ?thesis
      by (metis ignored_event_quiet(2) logs_epochs_trans frugal_trans mark_steps quiet_emit_steps)
  next
    case (term_event row event call base res d1)
    from retryable_steps [OF term_event(2) keys] finish_event_steps [OF term_event(3)] term_event(1)
    show ?thesis by (auto simp: timely_event_def task_call_def intro: logs_epochs_trans frugal_trans)
  next
    case (intermediate row event call res d1)
    have "frugal d d1" if "\<not> waiting (pe_status_enum event)" "\<not> waiting (cl_status call)"
      by (rule transition_frugal [OF intermediate(2) keys])
        (use that status_kinds [of "pe_status_enum event"] status_kinds [of "cl_status call"]
          in \<open>auto simp: budget_defs terminal_iff\<close>)
    with transition_logs [OF intermediate(2) keys] finish_event_steps [OF intermediate(3)] intermediate(1)
    show ?thesis
      by (auto simp: timely_event_def epoch_rule_def intro: logs_epochs_trans frugal_trans)
  qed (auto intro: mark_steps same_calls_steps)
  then show "logs_epochs d d'"
    and "timely_event task \<Longrightarrow> (\<And>cl. task_call task = Some cl \<Longrightarrow> seen cl d) \<Longrightarrow> frugal d d'" by blast+
qed

lemma reclaim_steps:
  assumes "reclaim_one_inner gs now row d = Inr (ro, d')" and keys: "keys_ok d"
  shows "logs_epochs d d'" and "frugal d d'"
proof -
  have "logs_epochs d d' \<and> frugal d d'"
    using assms(1)
  proof (cases rule: reclaim_one_inner_cases)
    case (confirmed s res)
    then show ?thesis
      by (intro conjI transition_logs [OF confirmed(3) keys] transition_frugal [OF confirmed(3) keys])
        (auto simp: budget_defs terminal_iff)
  next
    case (unknown res)
    show ?thesis
      by (intro conjI transition_logs [OF unknown(2) keys] transition_frugal [OF unknown(2) keys])
        (simp_all add: budget_defs)
  qed
  then show "logs_epochs d d'" and "frugal d d'" by simp_all
qed

lemma age_steps:
  assumes "age_dialing stg now i secs d = Inr (ts, d')" and keys: "keys_ok d"
  shows "logs_epochs d d'" and "frugal d d'"
proof -
  have "logs_epochs d d' \<and> frugal d d'"
    using assms
  proof (cases rule: age_dialing_cases)
    case (1 r)
    let ?r = "r\<lparr>cl_updated_at := now - secs * 1000000\<rparr>"
    have log: "tally e d' j = tally e d j" for e j
      by (simp add: 1(4) tally_emit moves_call_def aged_event_def)
    have rows: "\<forall>x \<in> set (db_calls d'). \<exists>y \<in> set (db_calls d).
        cl_id x = cl_id y \<and> cl_campaign_id x = cl_campaign_id y \<and> cl_status x = cl_status y \<and>
        cl_attempt_epoch x = cl_attempt_epoch y \<and> cl_retries_remaining x = cl_retries_remaining y"
      unfolding 1(4) emit_audit_frame by (rule put_row_related [OF 1(1)]) simp_all
    show ?thesis
      unfolding logs_epochs_def frugal_def
      by (rule conjI; rule ballI; drule bspec [OF rows]; elim bexE conjE; rule bexI)
        (auto simp: row_frugal_def unlogged_def spend_def log)
  qed
  then show "logs_epochs d d'" and "frugal d d'" by simp_all
qed

lemma ingest_steps:
  assumes "handle_webhook_ingest verify i now p payload raw headers d = Inr (b, d')"
  shows "logs_epochs d d'" and "frugal d d'"
proof -
  obtain e j where ins: "inbox_insert i now p e payload headers d = Inr (j, d')"
    using assms by (auto elim: ingest_Inr)
  then have "db_calls d' = db_calls d \<and> db_audit d' = db_audit d" by (cases rule: inbox_insert_cases) simp_all
  then show "logs_epochs d d'" and "frugal d d'" by (auto intro!: same_calls_steps tally_cong)
qed

lemma reorder_steps:
  assumes "same_rows d d'"
  shows "logs_epochs d d'" and "frugal d d'"
  using same_rows_sets(1) [OF assms] assms
  by (auto intro!: same_calls_steps tally_cong simp: same_rows_def)

section \<open>Runs\<close>

text \<open>A new call enters the store with nothing logged about it.\<close>

lemma create_steps:
  assumes run: "create_campaign_txn mio stg cid ids now body d = Inr (row, d')"
    and ready: "create_ready body ids" and inv: "db_inv d"
  shows "tally e d' i = tally e d i"
    and "r \<in> set (created_calls cid ids now body) \<Longrightarrow> tally e d' (cl_id r) = 0"
proof -
  note c = create_campaign_txn_cases [OF run ready]
  show log: "tally e d' i = tally e d i" for e i by (rule tally_cong) (simp add: c(6))
  assume r: "r \<in> set (created_calls cid ids now body)"
  then have "cl_id r \<notin> cl_id ` set (db_calls d)" using c(4) by auto
  then have "\<not> moves_call (cl_id r) (ar_event a)" if "a \<in> set (db_audit d)" for a
    using db_invD(5) [OF inv] that unfolding audit_ok_def by blast
  then show "tally e d' (cl_id r) = 0" unfolding log by (simp add: tally_def count_where_0_iff)
qed

definition epochs_logged :: "db \<Rightarrow> bool" where
  "epochs_logged d \<longleftrightarrow> (\<forall>r \<in> set (db_calls d). unlogged d r = 0)"

lemma epochs_logged_keeps: "epochs_logged d \<Longrightarrow> logs_epochs d d' \<Longrightarrow> epochs_logged d'"
  by (fastforce simp: epochs_logged_def logs_epochs_def)

lemma epochs_logged_create:
  assumes "create_campaign_txn mio stg cid ids now body d = Inr (row, d')" and "create_ready body ids"
    and "db_inv d" and "epochs_logged d"
  shows "epochs_logged d'"
proof -
  note c = create_campaign_txn_cases [OF assms(1,2)] and log = create_steps [OF assms(1-3)]
  show ?thesis
    unfolding epochs_logged_def
  proof
    fix r assume "r \<in> set (db_calls d')"
    then consider "r \<in> set (db_calls d)" | "r \<in> set (created_calls cid ids now body)" by (auto simp: c(6))
    then show "unlogged d' r = 0"
      using assms(4) log created_calls_mem(4) by cases (auto simp: epochs_logged_def unlogged_def)
  qed
qed

lemma epochs_logged_step:
  assumes "sys_step s a s'" and inv: "sys_inv s" and log: "epochs_logged (sy_db s)"
  shows "epochs_logged (sy_db s')"
proof -
  have db: "db_inv (sy_db s)" and keys: "keys_ok (sy_db s)" using inv by (auto simp: sys_inv_def db_inv_def)
  note keep = epochs_logged_keeps [OF log]
  from assms(1) show ?thesis
  proof (cases rule: sys_step.cases)
    case (create body ids mio stg cid now row d')
    with epochs_logged_create [OF create(4,3) db log] show ?thesis by simp
  qed (auto intro: keep log dest: select_steps requeue_steps [OF _ keys] claim_steps [OF _ db]
      apply_steps [OF _ keys] webhook_steps [OF _ keys] reclaim_steps [OF _ keys] age_steps [OF _ keys]
      ingest_steps reorder_steps)
qed

lemma reachable_epochs_logged: "reachable s \<Longrightarrow> epochs_logged (sy_db s)"
proof -
  have "sys_steps s t \<Longrightarrow> s = sys_init \<Longrightarrow> epochs_logged (sy_db t)" for s t
  proof (induction rule: sys_steps.induct)
    case (steps_refl s)
    then show ?case by (simp add: epochs_logged_def sys_init_def empty_db_def)
  next
    case (steps_step s t a u)
    then have "reachable t" by (simp add: reachable_def)
    with steps_step epochs_logged_step reachable_inv show ?case by blast
  qed
  then show "reachable s \<Longrightarrow> epochs_logged (sy_db s)" by (simp add: reachable_def)
qed

section \<open>The budget\<close>

text \<open>The number of retries a campaign was created with, as its row stores it.\<close>

definition configured_attempts :: "campaign_row \<Rightarrow> int" where
  "configured_attempts c =
     (case dict_get (cp_retry_config c) ''max_attempts'' JNull of JInt n \<Rightarrow> n | _ \<Rightarrow> 0)"

definition row_in_budget :: "db \<Rightarrow> campaign_row \<Rightarrow> call_row \<Rightarrow> bool" where
  "row_in_budget d c r \<longleftrightarrow>
     cp_id c = cl_campaign_id r \<and> spend d r \<le> configured_attempts c + 1 \<and>
     (cl_retries_remaining r = configured_attempts c \<or> 0 \<le> cl_retries_remaining r)"

definition in_budget :: "db \<Rightarrow> bool" where
  "in_budget d \<longleftrightarrow> (\<forall>r \<in> set (db_calls d). \<exists>c \<in> set (db_campaigns d). row_in_budget d c r)"

definition budget_inv :: "system \<Rightarrow> bool" where
  "budget_inv s \<longleftrightarrow>
     in_budget (sy_db s) \<and>
     (\<forall>k task cl. sy_hooks s k = Some task \<longrightarrow> task_call task = Some cl \<longrightarrow> seen cl (sy_db s)) \<and>
     (\<forall>c cl. sy_sched s = SchedPlacing c cl \<longrightarrow> seen cl (sy_db s) \<and> flying (cl_status cl))"

lemma campaign_evolves_config: "campaign_evolves c c' \<Longrightarrow> cp_retry_config c' = cp_retry_config c"
  unfolding campaign_evolves_def
  by (metis campaign_row.select_convs(7) campaign_row.surjective campaign_row.update_convs(3,9))

lemma in_budget_frugal:
  assumes "in_budget d" and "frugal d d'" and "evolves d d'"
  shows "in_budget d'"
  unfolding in_budget_def
proof
  fix r' assume "r' \<in> set (db_calls d')"
  then obtain r where r: "r \<in> set (db_calls d)" "row_frugal d d' r r'"
    using assms(2) unfolding frugal_def by blast
  obtain c where c: "c \<in> set (db_campaigns d)" "row_in_budget d c r"
    using assms(1) r(1) by (auto simp: in_budget_def)
  then obtain c' where c': "c' \<in> set (db_campaigns d')" "campaign_evolves c c'"
    using assms(3) by (auto simp: evolves_def)
  have "row_in_budget d' c' r'"
    using r(2) c(2) campaign_evolves_id [OF c'(2)] campaign_evolves_config [OF c'(2)]
    by (auto simp: row_in_budget_def row_frugal_def configured_attempts_def)
  with c'(1) show "\<exists>c \<in> set (db_campaigns d'). row_in_budget d' c r'" by blast
qed

lemma in_budget_create:
  assumes "create_campaign_txn mio stg cid ids now body d = Inr (row, d')" and "create_ready body ids"
    and "db_inv d" and "in_budget d"
  shows "in_budget d'"
  unfolding in_budget_def
proof
  note c = create_campaign_txn_cases [OF assms(1,2)] and log = create_steps [OF assms(1-3)]
  let ?c = "created_campaign mio stg cid now body"
  have config: "configured_attempts ?c = rc_max_attempts (cc_retry_config body)"
    by (simp add: configured_attempts_def created_campaign_def dump_retry_def dict_get_def)
  fix r assume "r \<in> set (db_calls d')"
  then consider "r \<in> set (db_calls d)" | "r \<in> set (created_calls cid ids now body)" by (auto simp: c(6))
  then show "\<exists>c \<in> set (db_campaigns d'). row_in_budget d' c r"
  proof cases
    case 1
    then obtain x where "x \<in> set (db_campaigns d)" "row_in_budget d x r"
      using assms(4) by (auto simp: in_budget_def)
    then show ?thesis using log(1)
      by (intro bexI [of _ x]) (auto simp: row_in_budget_def spend_def c(6))
  next
    case 2
    then have "row_in_budget d' ?c r"
      using created_calls_mem [OF 2] log(2) [OF 2]
      by (simp add: row_in_budget_def spend_def config owed_def waiting_def)
    then show ?thesis by (auto simp: c(6))
  qed
qed

definition timely :: "system \<Rightarrow> bool" where
  "timely s \<longleftrightarrow> (\<forall>k task. sy_hooks s k = Some task \<longrightarrow> timely_event task)"

text \<open>What the actors hold stays a copy of a row through a frugal step.\<close>

lemma budget_inv_frugal:
  assumes inv: "budget_inv s" and step: "frugal (sy_db s) (sy_db s')" "evolves (sy_db s) (sy_db s')"
    and keys: "keys_ok (sy_db s')"
    and hooks: "\<And>k task cl. sy_hooks s' k = Some task \<Longrightarrow> task_call task = Some cl \<Longrightarrow>
      sy_hooks s k = Some task \<or> cl \<in> set (db_calls (sy_db s'))"
    and sched: "\<And>c cl. sy_sched s' = SchedPlacing c cl \<Longrightarrow>
      sy_sched s = sy_sched s' \<or> cl \<in> set (db_calls (sy_db s')) \<and> flying (cl_status cl)"
  shows "budget_inv s'"
proof -
  have keep: "seen cl (sy_db s')" if "seen cl (sy_db s)" for cl using seen_frugal [OF that step] .
  have "in_budget (sy_db s')" using inv in_budget_frugal [OF _ step] by (simp add: budget_inv_def)
  moreover have "seen cl (sy_db s')" if "sy_hooks s' k = Some task" "task_call task = Some cl" for k task cl
    using inv hooks [OF that] that(2) keep seen_now [OF keys] by (auto simp: budget_inv_def)
  moreover have "seen cl (sy_db s') \<and> flying (cl_status cl)" if "sy_sched s' = SchedPlacing c cl" for c cl
    using inv sched [OF that] that keep seen_now [OF keys] by (auto simp: budget_inv_def)
  ultimately show ?thesis by (simp add: budget_inv_def)
qed

lemma claimed_row_stored:
  assumes "dispatch_claim locked now c d = Inr (Some cl, d')" and "db_inv d"
  shows "cl \<in> set (db_calls d') \<and> flying (cl_status cl)"
  using assms(2)
proof (cases rule: dispatch_claim_cases [where locked = locked and now = now and campaign = c])
  case (claimed r ev)
  from claim_candidate_Some(1) [OF claimed(1)] claimed(4) assms(1) show ?thesis
    by (auto simp: in_put_row flying_def split: if_splits)
qed (use assms(1) in simp)

lemma planned_call_stored:
  "webhook_plan pe fs stg locked d = Inr task \<Longrightarrow> task_call task = Some cl \<Longrightarrow> cl \<in> set (db_calls d)"
  by (erule webhook_plan_cases) (auto simp: task_call_def dest: lookup_provider_call_Some)

lemma seen_create:
  assumes run: "create_campaign_txn mio stg cid ids now body d = Inr (row, d')"
    and ready: "create_ready body ids" and seen: "seen cl d"
  shows "seen cl d'"
proof -
  note c = create_campaign_txn_cases [OF run ready]
  from seen have "cl_id cl \<in> cl_id ` set (db_calls d)" by (simp add: seen_def)
  then have "cl_id r \<noteq> cl_id cl" if "r \<in> set (created_calls cid ids now body)" for r
    using that c(4) by (metis (no_types, lifting) disjoint_iff distinct_append image_eqI map_append set_map)
  with seen show ?thesis by (auto simp: seen_def c(6))
qed

lemma budget_inv_create:
  assumes "create_campaign_txn mio stg cid ids now body (sy_db s) = Inr (row, d')"
    and "create_ready body ids" and "sys_inv s" and "budget_inv s"
  shows "budget_inv (s\<lparr>sy_db := d'\<rparr>)"
  using assms in_budget_create [OF assms(1,2)] seen_create [OF assms(1,2)]
  by (auto simp: budget_inv_def sys_inv_def)

lemma budget_inv_step:
  assumes step: "sys_step s a s'" and inv: "sys_inv s" and bud: "budget_inv s" and time: "timely s"
  shows "budget_inv s'"
proof -
  have db: "db_inv (sy_db s)" and keys: "keys_ok (sy_db s)" using inv by (auto simp: sys_inv_def db_inv_def)
  have db': "db_inv (sy_db s')" "evolves (sy_db s) (sy_db s')" using sys_step_db [OF step inv] by simp_all
  note move = budget_inv_frugal [OF bud _ db'(2) db_invD(4) [OF db'(1)]]
  have idle: "frugal d d" for d by (auto simp: frugal_def row_frugal_def)
  from step show ?thesis
  proof (cases rule: sys_step.cases)
    case (claim c locked now cl d')
    with claimed_row_stored [OF claim(4) db] claim_steps(2) [OF claim(4) db] show ?thesis
      by (intro move) auto
  next
    case (apply_answer c cl fs stg now py u ts answer d')
    have "seen cl (sy_db s)" "flying (cl_status cl)" using bud apply_answer(3) by (auto simp: budget_inv_def)
    with apply_steps(2) [OF apply_answer(4) keys] apply_answer show ?thesis by (intro move) auto
  next
    case (hook_plans k pe fs stg task)
    with idle planned_call_stored [OF hook_plans(4)] show ?thesis by (intro move) (auto split: if_splits)
  next
    case (hook_commits k task now py u oc d')
    have "frugal (sy_db s) d'"
      using webhook_steps(2) [OF hook_commits(4) keys] hook_commits(3) time bud
      by (auto simp: timely_def budget_inv_def)
    with hook_commits show ?thesis by (intro move) (auto split: if_splits)
  next
    case (create body ids mio stg cid now row d')
    with budget_inv_create [OF create(4,3) inv bud] show ?thesis by simp
  qed (rule move; use idle in \<open>auto dest: select_steps requeue_steps [OF _ keys] claim_steps [OF _ db]
      reclaim_steps [OF _ keys] age_steps [OF _ keys] ingest_steps reorder_steps split: if_splits\<close>)+
qed

text \<open>Runs in which no drain is about to apply an untimely event.\<close>

inductive timely_run :: "system \<Rightarrow> bool" where
  timely_init: "timely_run sys_init"
| timely_step: "timely_run s \<Longrightarrow> timely s \<Longrightarrow> sys_step s a t \<Longrightarrow> timely_run t"

lemma timely_run_reachable: "timely_run s \<Longrightarrow> reachable s"
  unfolding reachable_def
  by (induction rule: timely_run.induct) (auto intro: steps_refl steps_step)

lemma timely_run_budget: "timely_run s \<Longrightarrow> budget_inv s"
proof (induction rule: timely_run.induct)
  case timely_init
  then show ?case by (simp add: budget_inv_def in_budget_def sys_init_def empty_db_def)
next
  case (timely_step s a t)
  with budget_inv_step reachable_inv timely_run_reachable show ?case by blast
qed

text \<open>Claims are bounded by the first attempt, the retries configured and the reclaims.\<close>

lemma in_budget_claims:
  assumes "in_budget d" and "db_inv d" and r: "r \<in> set (db_calls d)" and c: "c \<in> set (db_campaigns d)"
    and "cp_id c = cl_campaign_id r"
  shows "tally CLAIMED d (cl_id r) \<le> 1 + max 0 (configured_attempts c) + tally RECLAIM_EXECUTED d (cl_id r)"
proof -
  obtain x where x: "x \<in> set (db_campaigns d)" "row_in_budget d x r"
    using assms(1) r by (auto simp: in_budget_def)
  then have "x = c" using campaign_key_eq [OF db_invD(2) [OF assms(2)] x(1) c] assms(5)
    by (simp add: row_in_budget_def)
  moreover have "0 \<le> owed (cl_status r)" by (simp add: owed_def)
  ultimately show ?thesis using x(2) by (auto simp: row_in_budget_def spend_def)
qed

end
