(* ===== verification/Call_Lifecycle.thy ===== *)
theory Call_Lifecycle
  imports System
begin

text \<open>
  The life of one call as an automaton over its status and epoch, and who may take each edge. The
  service refines it: for every call, every step of the service is an edge of the automaton taken by
  the step's actor, or leaves the call where it is.
\<close>

section \<open>The automaton\<close>

inductive call_step :: "actor \<Rightarrow> call_status \<times> int \<Rightarrow> call_status \<times> int \<Rightarrow> bool" where
  dialled: "call_step Scheduler (QUEUED, e) (DIALING, e + 1)"
| rejected: "call_step Scheduler (DIALING, e) (FAILED, e)"
| unavailable: "call_step Scheduler (DIALING, e) (RETRY_PENDING, e)"
| backoff_over: "call_step Scheduler (RETRY_PENDING, e) (QUEUED, e)"
| reported: "\<not> terminal s \<Longrightarrow> t \<notin> {NO_ANSWER, BUSY} \<Longrightarrow> call_step (Hook k) (s, e) (t, e)"
| confirmed: "terminal t \<Longrightarrow> call_step Sweeper (DIALING, e) (t, e)"
| reclaimed: "call_step Sweeper (DIALING, e) (QUEUED, e + 1)"

inductive_cases call_step_fromE: "call_step a (s, e) v"

inductive_simps call_step_storage [simp]: "call_step Storage u v"
inductive_simps call_step_operator [simp]: "call_step Operator u v"

text \<open>No edge leaves a terminal status; a call in progress is moved by webhooks only; \<open>NO_ANSWER\<close> and
  \<open>BUSY\<close> are stored by the sweep only, webhooks turn them into a retry or a failure.\<close>

lemma terminal_edge: "call_step a (s, e) v \<Longrightarrow> \<not> terminal s"
  by (erule call_step_fromE) (simp_all add: terminal_iff)

lemma in_progress_edge: "call_step a (IN_PROGRESS, e) v \<Longrightarrow> \<exists>k. a = Hook k"
  by (erule call_step_fromE) auto

lemma unanswered_edge: "call_step a u (s, e) \<Longrightarrow> s \<in> {NO_ANSWER, BUSY} \<Longrightarrow> a = Sweeper"
  by (erule call_step.cases) auto

lemma epoch_edge: "call_step a (s, e) (t, f) \<Longrightarrow> f = e \<or> f = e + 1 \<and> a \<in> {Scheduler, Sweeper}"
  by (erule call_step_fromE) auto

section \<open>Databases\<close>

definition call_view :: "call_row \<Rightarrow> call_status \<times> int" where
  "call_view r = (cl_status r, cl_attempt_epoch r)"

definition calls_move :: "actor \<Rightarrow> db \<Rightarrow> db \<Rightarrow> bool" where
  "calls_move a d d' \<longleftrightarrow>
     (\<forall>r' \<in> set (db_calls d'). \<exists>r \<in> set (db_calls d). cl_id r' = cl_id r \<and>
        (call_view r' = call_view r \<or> call_step a (call_view r) (call_view r')))"

lemma calls_stay: "set (db_calls d') = set (db_calls d) \<Longrightarrow> calls_move a d d'"
  by (auto simp: calls_move_def)

lemma calls_move_cong: "calls_move a d d1 \<Longrightarrow> db_calls d' = db_calls d1 \<Longrightarrow> calls_move a d d'"
  by (simp add: calls_move_def)

lemma put_row_moves:
  assumes "r \<in> set (db_calls d)" and "cl_id r' = cl_id r" and "db_calls d' = db_calls (put_row r' d)"
    and "call_view r' = call_view r \<or> call_step a (call_view r) (call_view r')"
  shows "calls_move a d d'"
  unfolding calls_move_def assms(3) by (rule put_row_related [OF assms(1,2)]) (use assms(2,4) in auto)

lemma transition_moves:
  assumes run: "transition now i e n ep ne et reason extra cols d = Inr (res, d')" and keys: "keys_ok d"
    and edge: "(terminal e \<longrightarrow> n = e) \<Longrightarrow>
      n = e \<and> ne = None \<or> call_step a (e, ep) (n, case ne of None \<Rightarrow> ep | Some m \<Rightarrow> m)"
  shows "calls_move a d d'"
  using run keys
proof (cases rule: transition_outcome)
  case (applied r)
  show ?thesis
    by (rule put_row_moves [OF applied(1), of "transition_row now n ne cols r"])
      (use applied edge [OF applied(5)] in \<open>auto simp: call_view_def\<close>)
qed (simp_all add: calls_stay)

lemma requeue_moves:
  assumes "requeue_oldest_retry_due locked now cid d = Inr d'" and keys: "keys_ok d"
  shows "calls_move Scheduler d d'"
  using assms(1)
proof (cases rule: requeue_cases)
  case (requeued row res)
  show ?thesis by (rule transition_moves [OF requeued(5) keys]) (simp add: call_step.backoff_over)
qed (simp add: calls_stay)

lemma claim_moves:
  assumes "dispatch_claim locked now campaign d = Inr (cl, d')" and "db_inv d"
  shows "calls_move Scheduler d d'"
  using assms(2)
proof (cases rule: dispatch_claim_cases [where locked = locked and now = now and campaign = campaign])
  case (claimed r ev)
  note c = claim_candidate_Some [OF claimed(1)]
  show ?thesis
    by (rule put_row_moves [OF c(1), of "claim_row now r"])
      (use assms(1) claimed(4) c(3) in \<open>auto simp: call_view_def call_step.dialled\<close>)
qed (use assms(1) in \<open>simp add: calls_stay\<close>)

lemma apply_moves:
  assumes run: "dispatch_apply fs stg now py u ts campaign cl answer d = Inr d'" and keys: "keys_ok d"
  shows "calls_move Scheduler d d'"
proof -
  from run obtain base res d1 where
    o: "apply_outcome now py u base cl answer d = Inr (res, d1)"
    and up: "update_last_dispatch_at (cp_id campaign) ts d1 = Inr d'"
    by (auto elim: dispatch_apply_cases)
  have "calls_move Scheduler d d1"
    using o by (auto simp: apply_outcome_def bind_res_Inr_iff split: place_outcome.splits if_splits
        elim!: transition_moves [OF _ keys] intro: call_step.intros)
  then show ?thesis using update_cursor_calls [OF up] by (rule calls_move_cong)
qed

lemma retryable_moves:
  assumes run: "apply_retryable_outcome now py u i e ep rr oc base pre d = Inr (res, d')" and keys: "keys_ok d"
  shows "calls_move (Hook k) d d'"
  using run by (cases rule: apply_retryable_outcome_cases)
    (auto elim!: transition_moves [OF _ keys] intro: call_step.intros)

text \<open>A planned intermediate event carries a status that is not terminal.\<close>

definition task_formed :: "webhook_task \<Rightarrow> bool" where
  "task_formed task =
     (case task of IntermediateEvent row event call \<Rightarrow> \<not> terminal (pe_status_enum event) | _ \<Rightarrow> True)"

lemma planned_task_formed: "webhook_plan pe fs stg locked d = Inr task \<Longrightarrow> task_formed task"
  by (erule webhook_plan_cases) (simp_all add: task_formed_def)

lemma finish_event_calls: "finish_event now row event call (res, d) = (oc, d') \<Longrightarrow> db_calls d' = db_calls d"
  by (auto simp: finish_event_def split: if_splits)

lemma webhook_moves:
  assumes run: "webhook_commit now py u task d = Inr (oc, d')" and keys: "keys_ok d"
    and formed: "task_formed task"
  shows "calls_move (Hook k) d d'"
  using run
proof (cases rule: webhook_commit_cases)
  case (term_event row event call base res d1)
  from retryable_moves [OF term_event(2) keys] finish_event_calls [OF term_event(3)]
  show ?thesis by (rule calls_move_cong)
next
  case (intermediate row event call res d1)
  have "calls_move (Hook k) d d1"
    by (rule transition_moves [OF intermediate(2) keys])
      (use formed intermediate(1) in \<open>auto simp: task_formed_def terminal_iff intro!: call_step.reported\<close>)
  then show ?thesis using finish_event_calls [OF intermediate(3)] by (rule calls_move_cong)
qed (simp_all add: calls_stay)

lemma reclaim_moves:
  assumes "reclaim_one_inner gs now row d = Inr (ro, d')" and keys: "keys_ok d"
  shows "calls_move Sweeper d d'"
  using assms(1) by (cases rule: reclaim_one_inner_cases)
    (auto elim!: transition_moves [OF _ keys] intro: call_step.intros)

lemma age_moves:
  assumes "age_dialing stg now i secs d = Inr (ts, d')" and "keys_ok d"
  shows "calls_move a d d'"
  using assms
proof (cases rule: age_dialing_cases)
  case (1 r)
  show ?thesis
    by (rule put_row_moves [OF 1(1), of "r\<lparr>cl_updated_at := now - secs * 1000000\<rparr>"])
      (simp_all add: 1(4) call_view_def)
qed

lemma ingest_calls:
  "handle_webhook_ingest verify i now p payload raw headers d = Inr (b, d') \<Longrightarrow> db_calls d' = db_calls d"
  by (erule ingest_Inr, erule inbox_insert_cases) simp_all

lemma select_calls: "tick_select zones t now d = (r, d') \<Longrightarrow> db_calls d' = db_calls d"
  using tick_select_quiet [of d zones t now] by (simp add: only_quiet_rows_added_def)

section \<open>The service\<close>

lemma hooks_formed_step:
  assumes "sys_step s a s'" and "\<And>k task. sy_hooks s k = Some task \<Longrightarrow> task_formed task"
    and "sy_hooks s' k = Some task"
  shows "task_formed task"
  using assms by (cases rule: sys_step.cases) (auto dest: planned_task_formed split: if_splits)

lemma reachable_hooks_formed: "reachable s \<Longrightarrow> sy_hooks s k = Some task \<Longrightarrow> task_formed task"
proof -
  have "sys_steps s t \<Longrightarrow> s = sys_init \<Longrightarrow> \<forall>k task. sy_hooks t k = Some task \<longrightarrow> task_formed task" for s t
    by (induction rule: sys_steps.induct) (simp add: sys_init_def, metis hooks_formed_step)
  then show "reachable s \<Longrightarrow> sy_hooks s k = Some task \<Longrightarrow> task_formed task" by (auto simp: reachable_def)
qed

lemma sys_step_moves:
  assumes step: "sys_step s a s'" and inv: "sys_inv s"
    and formed: "\<And>k task. sy_hooks s k = Some task \<Longrightarrow> task_formed task"
    and r': "r' \<in> set (db_calls (sy_db s'))"
  shows "(\<exists>r \<in> set (db_calls (sy_db s)). cl_id r' = cl_id r \<and>
        (call_view r' = call_view r \<or> call_step a (call_view r) (call_view r'))) \<or>
     a = Operator \<and> call_view r' = (QUEUED, 0) \<and> cl_id r' \<notin> cl_id ` set (db_calls (sy_db s))"
proof -
  have db: "db_inv (sy_db s)" and keys: "keys_ok (sy_db s)" using inv by (auto simp: sys_inv_def db_inv_def)
  have move: ?thesis if "calls_move a (sy_db s) (sy_db s')"
    using that r' unfolding calls_move_def by blast
  from step show ?thesis
  proof (cases rule: sys_step.cases)
    case (create body ids mio stg cid now row d')
    note c = create_campaign_txn_cases [OF create(4,3)]
    from r' consider "r' \<in> set (db_calls (sy_db s))" | "r' \<in> set (created_calls cid ids now body)"
      by (auto simp: create(2) c(6))
    then show ?thesis
    proof cases
      case 2
      then show ?thesis using created_calls_mem(2,4) [OF 2] c(4) create(1) by (auto simp: call_view_def)
    qed blast
  qed (rule move; auto dest!: select_calls requeue_moves [OF _ keys] claim_moves [OF _ db] apply_moves [OF _ keys]
      webhook_moves [OF _ keys formed] reclaim_moves [OF _ keys] age_moves [OF _ keys] ingest_calls
      same_rows_sets(1) intro: calls_stay)+
qed

end
