(* ===== verification/Budget_Properties.thy ===== *)
theory Budget_Properties
  imports Dial_Budget Call_Lifecycle Interface_Properties
begin

text \<open>
  The life of a call: the automaton its status and epoch follow, what the epoch counts, the bound
  that the retry configuration puts on the claims, and the event that breaks it.
\<close>

text \<open>C3: every step of the service refines the call automaton: each call stays, or takes an edge that the
  step's actor may take (the scheduler claims, requeues, closes or defers; the sweep closes or
  reclaims a dialling call; webhooks move any open call, never to NO_ANSWER or BUSY), or is new and
  queued at epoch 0. So nobody but a webhook ends a call in progress.\<close>

theorem calls_follow_lifecycle:
  assumes "reachable s" and "sys_step s a s'" and "r' \<in> set (db_calls (sy_db s'))"
  shows "(\<exists>r \<in> set (db_calls (sy_db s)). cl_id r' = cl_id r \<and>
        (call_view r' = call_view r \<or> call_step a (call_view r) (call_view r'))) \<or>
     a = Operator \<and> call_view r' = (QUEUED, 0) \<and> cl_id r' \<notin> cl_id ` set (db_calls (sy_db s))"
  using assms(2) reachable_inv [OF assms(1)] reachable_hooks_formed [OF assms(1)] assms(3)
  by (rule sys_step_moves)

text \<open>C15: in every reachable state the epoch of a call is the number of its claims plus the number of its
  reclaims in the audit log: nothing else moves the epoch, and neither happens without its row.\<close>

theorem epochs_count_dials:
  assumes "reachable s" and "r \<in> set (db_calls (sy_db s))"
  shows "cl_attempt_epoch r =
    tally CLAIMED (sy_db s) (cl_id r) + tally RECLAIM_EXECUTED (sy_db s) (cl_id r)"
  using reachable_epochs_logged [OF assms(1)] assms(2) by (auto simp: epochs_logged_def unlogged_def)

lemma ex_placing_reachable: "reachable ex_placing"
  using ex_ready_reachable ex_claim_step unfolding reachable_def by (rule steps_step)

definition ex_claimed_call :: call_row where
  "ex_claimed_call = hd (db_calls ex_claimed)"

lemma ex_claimed_call_facts:
  "ex_claimed_call \<in> set (db_calls (sy_db ex_placing))" "cl_id ex_claimed_call = 11"
  "cl_attempt_epoch ex_claimed_call = 1" "cl_campaign_id ex_claimed_call = 7"
proof -
  have "db_calls ex_claimed \<noteq> []" by code_simp
  then show "ex_claimed_call \<in> set (db_calls (sy_db ex_placing))"
    by (simp add: ex_claimed_call_def ex_placing_def)
qed code_simp+

theorem epochs_count_dials_witness:
  "tally CLAIMED (sy_db ex_placing) 11 + tally RECLAIM_EXECUTED (sy_db ex_placing) 11 = 1"
  using epochs_count_dials [OF ex_placing_reachable ex_claimed_call_facts(1)] ex_claimed_call_facts(2,3)
  by simp

theorem calls_follow_lifecycle_witness:
  "\<exists>r \<in> set (db_calls (ex_seen ex_created)). cl_id r = 11 \<and>
     (call_view ex_claimed_call = call_view r \<or> call_step Scheduler (call_view r) (call_view ex_claimed_call))"
  using calls_follow_lifecycle [OF ex_ready_reachable ex_claim_step ex_claimed_call_facts(1)]
    ex_claimed_call_facts(2) by (auto simp: ex_ready_def)

text \<open>C8: in every run in which no drain applies an event about a waiting call, other than COMPLETED or
  FAILED, and no event puts a call back to QUEUED or RETRY_PENDING, a call is claimed for dialling at
  most once, plus once per configured retry, plus once per reclaim.\<close>

theorem dial_budget:
  assumes "timely_run s" and "r \<in> set (db_calls (sy_db s))"
    and "c \<in> set (db_campaigns (sy_db s))" and "cp_id c = cl_campaign_id r"
  shows "tally CLAIMED (sy_db s) (cl_id r) \<le>
    1 + max 0 (configured_attempts c) + tally RECLAIM_EXECUTED (sy_db s) (cl_id r)"
  using timely_run_budget [OF assms(1)] reachable_db_inv [OF timely_run_reachable [OF assms(1)]] assms(2-4)
  by (intro in_budget_claims) (simp_all add: budget_inv_def)

lemma timely_idle: "timely_run s \<Longrightarrow> sys_step s a t \<Longrightarrow> sy_hooks s = (\<lambda>_. None) \<Longrightarrow> timely_run t"
  by (rule timely_step) (auto simp: timely_def)

lemma ex_placing_timely: "timely_run ex_placing"
proof -
  let ?t = "ex_sys\<lparr>sy_db := ex_seen ex_created, sy_sched := SchedSelected (ex_pick ex_created) False\<rparr>"
  have 1: "timely_run ex_sys"
    using timely_idle [OF timely_init ex_sys_step] by (simp add: sys_init_def)
  have 2: "sys_step ex_sys Scheduler ?t"
    using ex_selects(1)
    by (intro sys_step.select [of _ "\<lambda>z. Some (\<lambda>_. 0)" 0 0])
      (simp_all add: ex_sys_def sys_init_def ex_seen_def prod_eq_iff)
  have 3: "sys_step ?t Scheduler (ex_ready ex_created)"
    using sys_step.no_requeue [of ?t "ex_pick ex_created"] by (simp add: ex_ready_def ex_sys_def)
  show ?thesis
    by (rule timely_idle [OF timely_idle [OF timely_idle [OF 1 2] 3] ex_claim_step])
      (simp_all add: ex_sys_def ex_ready_def sys_init_def)
qed

theorem dial_budget_witness:
  "\<exists>c \<in> set (db_campaigns (sy_db ex_placing)). cp_id c = 7 \<and> configured_attempts c = 1 \<and>
     tally CLAIMED (sy_db ex_placing) 11 \<le> 1 + max 0 (configured_attempts c) + tally RECLAIM_EXECUTED (sy_db ex_placing) 11"
proof -
  let ?c = "hd (db_campaigns ex_claimed)"
  have "db_campaigns ex_claimed \<noteq> []" by code_simp
  then have c: "?c \<in> set (db_campaigns (sy_db ex_placing))" by (simp add: ex_placing_def)
  have "cp_id ?c = 7" "configured_attempts ?c = 1" by code_simp+
  with dial_budget [OF ex_placing_timely ex_claimed_call_facts(1) c] ex_claimed_call_facts(2,4) c
  show ?thesis by auto
qed

text \<open>The adapter accepts every internal status: an event that says QUEUED puts a call in flight back in
  the queue at the same epoch, with its retries unspent and its handle still set.\<close>

theorem queued_event_redials:
  "fst (process_one_row ex_hook_env 0 (ex_inbox ''e3'' (ex_event ''mock-1'' QUEUED) ex_dialing)) = RowApplied \<and>
   map (\<lambda>r. (cl_status r, cl_attempt_epoch r, cl_retries_remaining r, cl_provider_call_id r))
     (take 1 (db_calls (snd (process_one_row ex_hook_env 0
        (ex_inbox ''e3'' (ex_event ''mock-1'' QUEUED) ex_dialing))))) =
   [(QUEUED, 1, 1, Some ''mock-1'')]"
  by (rule conjI; code_simp)

end
