(* ===== verification/Jsonb.thy ===== *)
theory Jsonb
  imports Json_Text
begin

text \<open>
  The JSONB columns (\<open>schedule\<close>, \<open>retry_config\<close>, \<open>payload\<close>, \<open>headers\<close>, \<open>extra\<close>) as the repositories, the
  emitter and the audit reader write and read them: \<open>json.dumps\<close> of a whole value, and \<open>_loads_json\<close> of
  what asyncpg returns. How Python prints a float is a parameter.
\<close>

section \<open>Writing a value\<close>




section \<open>Reading a column\<close>

text \<open>What asyncpg hands over; the last constructor carries the name of any other type.\<close>

datatype jsonb_value = Sql_Null | Jsonb_Text string | Jsonb_Dict json_dict | Jsonb_Other string

text \<open>\<open>_loads_json\<close>. The \<open>cast\<close> checks nothing: a text that is not an object is returned as it is.\<close>

definition loads_json :: "jsonb_value \<Rightarrow> json result" where
  "loads_json v =
     (case v of
        Sql_Null \<Rightarrow> Inr (JObj [])
      | Jsonb_Text s \<Rightarrow> json_loads s
      | Jsonb_Dict d \<Rightarrow> Inr (JObj d)
      | Jsonb_Other t \<Rightarrow> Inl (TypeError (''unexpected JSONB value type: '' @ t)))"

text \<open>\<open>_loads_extra\<close> of the audit reader, written out a second time in the source.\<close>

definition loads_extra :: "jsonb_value \<Rightarrow> json result" where
  "loads_extra v =
     (case v of
        Sql_Null \<Rightarrow> Inr (JObj [])
      | Jsonb_Text s \<Rightarrow> json_loads s
      | Jsonb_Dict d \<Rightarrow> Inr (JObj d)
      | Jsonb_Other t \<Rightarrow> Inl (TypeError (''unexpected JSONB value type: '' @ t)))"

section \<open>Reading back what was written\<close>













lemma loads_extra_loads_json [simp]: "loads_extra = loads_json"
  by (rule ext) (simp add: loads_extra_def loads_json_def)



end
