(* ===== verification/Json_Fuel.thy ===== *)
theory Json_Fuel
  imports Json_Text
begin

text \<open>
  The fuel of the JSON reader is no bound on what it reads: every value it accepts consumes a character,
  and above twice the length of the document more fuel changes nothing.
\<close>

section \<open>Every reader consumes\<close>

lemma skip_ws_length: "length (skip_ws s) \<le> length s"
  by (simp add: skip_ws_def length_dropWhile_le)

lemma cons_scanned_Some: "cons_scanned c x = Some (t, r) \<longleftrightarrow> (\<exists>t'. x = Some (t', r) \<and> t = c # t')"
  by (auto simp: cons_scanned_def split: option.splits)

lemma scan_string_consumes: "scan_string s = Some (t, r) \<Longrightarrow> length r < length s"
proof (induction s arbitrary: t r rule: scan_string.induct)
  case (1 s)
  show ?case
  proof (cases s)
    case Nil
    with "1.prems" show ?thesis by (simp add: scan_string.simps)
  next
    case (Cons c s')
    then show ?thesis
      using "1.prems" "1.IH"
      by (subst (asm) scan_string.simps)
        (fastforce simp: cons_scanned_Some split: list.splits if_splits option.splits)
  qed
qed

lemma scan_digits_length: "scan_digits s = (ds, r) \<Longrightarrow> length r + length ds = length s"
  by (auto simp: scan_digits_def) (metis length_append takeWhile_dropWhile_id add.commute)

lemma scan_integer_consumes: "scan_integer s = Some (ds, r) \<Longrightarrow> length r < length s"
proof (cases s)
  case (Cons c t)
  assume "scan_integer s = Some (ds, r)"
  then show ?thesis
    using scan_digits_length [of s ds r]
    by (auto simp: scan_integer_def Cons scan_digits_def split: if_splits)
qed (simp add: scan_integer_def)

lemma scan_fraction_length: "scan_fraction s = (f, r) \<Longrightarrow> length r \<le> length s"
  using scan_digits_length [of "tl s"] by (auto simp: scan_fraction_def Let_def split: list.splits if_splits prod.splits)

lemma scan_exponent_length: "scan_exponent s = (e, r) \<Longrightarrow> length r \<le> length s"
  using scan_digits_length [of "tl s"] scan_digits_length [of "tl (tl s)"]
  by (fastforce simp: scan_exponent_def Let_def split: list.splits if_splits prod.splits)

lemma json_number_consumes: "json_number s = Some (v, r) \<Longrightarrow> length r < length s"
proof -
  assume num: "json_number s = Some (v, r)"
  let ?t = "if (case s of c # _ \<Rightarrow> c = CHR ''-'' | [] \<Rightarrow> False) then tl s else s"
  obtain ds r0 where i: "scan_integer ?t = Some (ds, r0)"
    using num by (auto simp: json_number_def Let_def split: option.splits)
  obtain f r1 where f: "scan_fraction r0 = (f, r1)" by fastforce
  obtain e r2 where e: "scan_exponent r1 = (e, r2)" by fastforce
  have "r = r2" using num i f e by (auto simp: json_number_def Let_def split: if_splits)
  moreover have "length ?t \<le> length s" by simp
  ultimately show ?thesis
    using scan_integer_consumes [OF i] scan_fraction_length [OF f] scan_exponent_length [OF e]
    by (meson le_less_trans less_le_trans)
qed

lemma json_reader_consumes:
  "json_value n s = Some (v, r) \<Longrightarrow> length r < length s"
  "json_members n s = Some (kvs, r) \<Longrightarrow> length r < length s"
  "json_elements n s = Some (vs, r) \<Longrightarrow> length r < length s"
proof (induction n s and n s and n s arbitrary: v r and kvs r and vs r
    rule: json_value_json_members_json_elements.induct)
  case (2 n s)
  show ?case
  proof (cases s)
    case (Cons c t)
    have ws: "skip_ws t = d # u \<Longrightarrow> length u < length t" for d u
      using skip_ws_length [of t] by simp
    show ?thesis
      using "2.prems" "2.IH" Cons
      by (auto simp: starts_with_def split: if_splits option.splits list.splits
          dest!: scan_string_consumes json_number_consumes dest: ws) (fastforce dest!: ws)+
  qed (use "2.prems" in simp)
next
  case (4 n s)
  obtain q t k r1 c r2 v0 r3 d r4 where read: "s = q # t" "scan_string t = Some (k, r1)" "skip_ws r1 = c # r2"
      "q = CHR 0x22" "c = CHR '':''"
      "json_value n (skip_ws r2) = Some (v0, r3)" "skip_ws r3 = d # r4"
    and rest: "r = r4 \<or> (\<exists>kvs'. json_members n (skip_ws r4) = Some (kvs', r) \<and> d \<noteq> CHR ''}'' \<and> d = CHR '','')"
    using "4.prems" by (auto split: list.splits if_splits option.splits)
  have "length r3 < length (skip_ws r2)" using "4.IH"(1) read by simp
  moreover have "length r \<le> length r4"
    using rest "4.IH"(2) read skip_ws_length [of r4] by fastforce
  moreover have "Suc (length r4) \<le> length r3" "Suc (length r2) \<le> length r1"
    using skip_ws_length [of r3] skip_ws_length [of r1] read by simp_all
  ultimately show ?case using skip_ws_length [of r2] scan_string_consumes [OF read(2)] read(1) by simp
next
  case (6 n s)
  obtain v0 r0 d r1 where read: "json_value n s = Some (v0, r0)" "skip_ws r0 = d # r1"
    and rest: "r = r1 \<or> (\<exists>vs'. json_elements n (skip_ws r1) = Some (vs', r) \<and> d \<noteq> CHR '']'' \<and> d = CHR '','')"
    using "6.prems" by (auto split: list.splits if_splits option.splits)
  have "length r0 < length s" using "6.IH"(1) read by simp
  moreover have "length r \<le> length r1"
    using rest "6.IH"(2) read skip_ws_length [of r1] by fastforce
  moreover have "Suc (length r1) \<le> length r0" using skip_ws_length [of r0] read by simp
  ultimately show ?case by simp
qed simp_all

section \<open>Enough fuel\<close>

lemma json_reader_fuel:
  "2 * length s < n \<Longrightarrow> 2 * length s < m \<Longrightarrow> json_value m s = json_value n s"
  "2 * length s < n \<Longrightarrow> 2 * length s < m \<Longrightarrow> json_members m s = json_members n s"
  "Suc (2 * length s) < n \<Longrightarrow> Suc (2 * length s) < m \<Longrightarrow> json_elements m s = json_elements n s"
proof (induction n s and n s and n s arbitrary: m and m and m rule: json_value_json_members_json_elements.induct)
  case (2 n s)
  obtain m' where m: "m = Suc m'" using "2.prems"(2) by (cases m) simp_all
  show ?case
  proof (cases s)
    case (Cons c t)
    have ws: "Suc (length u) \<le> length t" if "skip_ws t = d # u" for d u
      using skip_ws_length [of t] that by simp
    have members: "json_members m' (d # u) = json_members n (d # u)"
      if "c = CHR ''{''" "skip_ws t = d # u" "d \<noteq> CHR ''}''" for d u
      using "2.IH"(1) [OF Cons _ _ that(2), of m'] that "2.prems" m Cons ws [OF that(2)] by simp
    have elements: "json_elements m' (d # u) = json_elements n (d # u)"
      if "c = CHR ''[''" "skip_ws t = d # u" "d \<noteq> CHR '']''" for d u
      using "2.IH"(2) [OF Cons _ _ _ that(2), of m'] that "2.prems" m Cons ws [OF that(2)] by simp
    show ?thesis using members elements by (auto simp: m Cons split: list.split)
  qed (simp add: m)
next
  case (4 n s)
  obtain m' where m: "m = Suc m'" using "4.prems"(2) by (cases m) simp_all
  show ?case
  proof (cases "\<exists>q t k r1 c r2. s = q # t \<and> q = CHR 0x22 \<and> scan_string t = Some (k, r1) \<and> skip_ws r1 = c # r2 \<and> c = CHR '':''")
    case False
    then show ?thesis by (auto simp: m split: list.splits option.splits if_splits)
  next
    case True
    then obtain t k r1 r2 where read: "s = CHR 0x22 # t" "scan_string t = Some (k, r1)" "skip_ws r1 = CHR '':'' # r2"
      by blast
    have len: "Suc (length r2) < length t"
      using skip_ws_length [of r1] scan_string_consumes [OF read(2)] read(3) by simp
    have val: "json_value m' (skip_ws r2) = json_value n (skip_ws r2)"
      using "4.IH"(1) [OF read(1) _ read(2) refl read(3), of m'] "4.prems" m read(1) len skip_ws_length [of r2] by simp
    have rest: "json_members m' (skip_ws r4) = json_members n (skip_ws r4)"
      if "json_value n (skip_ws r2) = Some (v, r3)" "skip_ws r3 = CHR '','' # r4" for v r3 r4
      using "4.IH"(2) [OF read(1) _ read(2) refl read(3) _ that(1) refl that(2), of m'] "4.prems" m read(1) len
        skip_ws_length [of r2] skip_ws_length [of r3] skip_ws_length [of r4] json_reader_consumes(1) [OF that(1)] that(2)
      by simp
    show ?thesis using read val rest by (auto simp: m split: list.split option.split)
  qed
next
  case (6 n s)
  obtain m' where m: "m = Suc m'" using "6.prems"(2) by (cases m) simp_all
  have val: "json_value m' s = json_value n s" using "6.IH"(1) [of m'] "6.prems" m by simp
  have rest: "json_elements m' (skip_ws r1) = json_elements n (skip_ws r1)"
    if "json_value n s = Some (v, r)" "skip_ws r = CHR '','' # r1" for v r r1
    using "6.IH"(2) [OF that(1) refl that(2), of m'] "6.prems" m
      skip_ws_length [of r] skip_ws_length [of r1] json_reader_consumes(1) [OF that(1)] that(2) by simp
  show ?case using val rest by (auto simp: m split: list.split option.split)
qed simp_all

text \<open>\<open>json_loads\<close> reads what an unbounded reader reads: any larger fuel gives the same answer.\<close>

lemma json_loads_any_fuel:
  assumes "2 * length s < n"
  shows "json_loads s =
     (case json_value n (skip_ws s) of
        None \<Rightarrow> Inl (ValueError ''JSONDecodeError'')
      | Some (v, r) \<Rightarrow> if skip_ws r = [] then Inr v else Inl (ValueError ''JSONDecodeError: Extra data''))"
  using json_reader_fuel(1) [of "skip_ws s" n "Suc (2 * length s)"] assms skip_ws_length [of s]
  by (simp add: json_loads_def del: json_value.simps)

end
