(* ===== verification/Call_Pipeline.thy ===== *)
theory Call_Pipeline
  imports Examples Number_Text
begin

text \<open>
  A dialled call from end to end: the simulation of the mock provider emits its events, the event sink
  of \<^verbatim>\<open>app/main.py\<close> ingests each into the inbox, a drain hands it to the state machine, and the call
  reaches the disposition that was drawn for it.
\<close>

section \<open>The pipeline\<close>

text \<open>\<open>event_sink\<close>: the mock's payload goes through the ingestion of a webhook, with no body and no headers.\<close>

definition event_sink :: "uuid \<Rightarrow> timestamp \<Rightarrow> json_dict \<Rightarrow> db \<Rightarrow> (bool \<times> db) result" where
  "event_sink new_id now payload d =
     handle_webhook_ingest verify_signature new_id now ''mock'' payload [] [] d"

text \<open>The inbox id drawn, the time of the insert, and the environment of the drain that the ingest spawns.\<close>

record delivery =
  dv_id :: uuid
  dv_received :: timestamp
  dv_env :: webhook_env

text \<open>The sink, and the drain it spawned; when the sink raises, the simulation sees it.\<close>

definition deliver :: "delivery \<Rightarrow> json_dict \<Rightarrow> db \<Rightarrow> bool \<times> db" where
  "deliver dv payload d =
     (case event_sink (dv_id dv) (dv_received dv) payload d of
        Inl e \<Rightarrow> (False, d)
      | Inr (spawned, d') \<Rightarrow> (True, if spawned then snd (snd (process_pending_inbox (dv_env dv) d')) else d'))"

text \<open>The steps of one simulation, each delivered before the next.\<close>

fun run_call ::
  "settings \<Rightarrow> rat \<Rightarrow> string \<Rightarrow> delivery list \<Rightarrow> mock_provider \<times> db \<Rightarrow> mock_provider \<times> db" where
  "run_call stg roll i [] (m, d) = (m, d)"
| "run_call stg roll i (dv # dvs) (m, d) =
     (case fst (simulate_step stg roll True i m) of
        None \<Rightarrow> (m, d)
      | Some payload \<Rightarrow>
          (let (ok, d') = deliver dv payload d
           in run_call stg roll i dvs (snd (simulate_step stg roll ok i m), d')))"

section \<open>A transition that applies\<close>

lemma transition_hits:
  assumes keys: "keys_ok d" and r: "r \<in> set (db_calls d)" "\<not> terminal (cl_status r)"
    and cols: "set (map fst cols) \<subseteq> set ALLOWED_COLUMN_UPDATES" "list_all column_encodable cols" "\<not> null_violation cols"
    and idx: "in_phone_index r"
    and r': "r' = transition_row now n None cols r"
  shows "transition now (cl_id r) (cl_status r) n (cl_attempt_epoch r) None et reason extra cols d =
    Inr (tr_applied_of r', move_call now r' (transition_event r' et reason (cl_status r) n extra) d)"
proof -
  let ?P = "\<lambda>x. cl_id x = cl_id r \<and> cl_status x = cl_status r \<and> cl_attempt_epoch x = cl_attempt_epoch r"
  have dist: "distinct (map cl_id (db_calls d))" and phone: "phone_index_ok (db_calls d)"
    using keys by (simp_all add: keys_ok_def)
  obtain x where x: "find ?P (db_calls d) = Some x"
    using r(1) by (cases "find ?P (db_calls d)") (auto simp: find_None_set)
  then have "x \<in> set (db_calls d)" "cl_id x = cl_id r" by (auto dest: find_Some_iff_set)
  with r(1) have "x = r" by (intro call_key_eq [OF dist]) auto
  with x have find: "find ?P (db_calls d) = Some r" by simp
  have "phone_index_ok (db_calls (put_row r' d))"
    using phone r(1) dist idx by (intro phone_index_put_row [where r = r]) (simp_all add: r')
  then have "update_call_where ?P (transition_row now n None cols) d = Inr (Some r', put_row r' d)"
    using update_call_where_Some [OF find dist] by (simp add: r')
  moreover have "filter (\<lambda>c. c \<notin> set ALLOWED_COLUMN_UPDATES) (map fst cols) = []"
    using cols(1) by (auto simp: filter_empty_conv)
  ultimately show ?thesis
    using r(2) cols(2,3) by (simp add: transition_def move_call_def r' Let_def)
qed

section \<open>What an event does to its call\<close>

definition disposition :: "call_status \<Rightarrow> int \<Rightarrow> call_status \<times> int" where
  "disposition s retries =
     (if s = NO_ANSWER \<or> s = BUSY then if 0 < retries then (RETRY_PENDING, retries - 1) else (FAILED, retries)
      else (s, retries))"

definition after_event :: "call_status \<Rightarrow> call_row \<Rightarrow> call_row \<Rightarrow> bool" where
  "after_event s r r' \<longleftrightarrow>
     cl_id r' = cl_id r \<and> cl_campaign_id r' = cl_campaign_id r \<and> cl_phone r' = cl_phone r \<and>
     cl_attempt_epoch r' = cl_attempt_epoch r \<and> cl_provider_call_id r' = cl_provider_call_id r \<and>
     (cl_status r', cl_retries_remaining r') = disposition s (cl_retries_remaining r)"

lemma disposition_simps [simp]:
  "disposition DIALING n = (DIALING, n)" "disposition IN_PROGRESS n = (IN_PROGRESS, n)"
  "disposition COMPLETED n = (COMPLETED, n)" "disposition FAILED n = (FAILED, n)"
  by (simp_all add: disposition_def)

lemma not_terminal_indexed: "in_phone_index r \<Longrightarrow> \<not> terminal (cl_status r)"
  by (auto simp: in_phone_index_def terminal_iff)

lemma outcome_hits:
  assumes keys: "keys_ok d" and r: "r \<in> set (db_calls d)" "in_phone_index r" and s: "terminal s"
    and t: "next_attempt_time u py (cl_attempt_epoch r) base = Inr t"
  shows "\<exists>r' ev. apply_retryable_outcome now py u (cl_id r) (cl_status r) (cl_attempt_epoch r)
      (cl_retries_remaining r) s base pre d = Inr (tr_applied_of r', move_call now r' ev d) \<and> after_event s r r'"
proof -
  note hits = transition_hits [OF keys r(1) not_terminal_indexed [OF r(2)] _ _ _ r(2) refl]
  have retry: "\<exists>r' ev. transition now (cl_id r) (cl_status r) RETRY_PENDING (cl_attempt_epoch r) None TRANSITION reason []
       [(''next_attempt_at'', ColTime t), (''retries_remaining'', ColInt (cl_retries_remaining r - 1))] d =
     Inr (tr_applied_of r', move_call now r' ev d) \<and> cl_status r' = RETRY_PENDING \<and>
     cl_retries_remaining r' = cl_retries_remaining r - 1 \<and> cl_id r' = cl_id r \<and>
     cl_campaign_id r' = cl_campaign_id r \<and> cl_phone r' = cl_phone r \<and> cl_attempt_epoch r' = cl_attempt_epoch r \<and>
     cl_provider_call_id r' = cl_provider_call_id r" for reason
    by (subst hits) (auto simp: ALLOWED_COLUMN_UPDATES_def null_violation_def transition_row_def)
  have plain: "transition now (cl_id r) (cl_status r) n (cl_attempt_epoch r) None TRANSITION reason [] [] d =
     Inr (tr_applied_of (r\<lparr>cl_status := n, cl_updated_at := now\<rparr>),
       move_call now (r\<lparr>cl_status := n, cl_updated_at := now\<rparr>)
         (transition_event (r\<lparr>cl_status := n, cl_updated_at := now\<rparr>) TRANSITION reason (cl_status r) n []) d)" for n reason
    by (subst hits) (simp_all add: null_violation_def transition_row_plain)
  consider "s = COMPLETED \<or> s = FAILED" | "s = NO_ANSWER \<or> s = BUSY" using s by (auto simp: terminal_iff)
  then show ?thesis
  proof cases
    case 1
    then show ?thesis by (auto simp: apply_retryable_outcome_def plain after_event_def)
  next
    case 2
    show ?thesis
    proof (cases "0 < cl_retries_remaining r")
      case True
      obtain r' ev where hit: "transition now (cl_id r) (cl_status r) RETRY_PENDING (cl_attempt_epoch r) None TRANSITION
          (pre @ '' '' @ call_status_value s @ ''; backoff scheduled'') []
          [(''next_attempt_at'', ColTime t), (''retries_remaining'', ColInt (cl_retries_remaining r - 1))] d =
          Inr (tr_applied_of r', move_call now r' ev d)" and "after_event s r r'"
        using retry [of "pre @ '' '' @ call_status_value s @ ''; backoff scheduled''"] 2 True
        by (auto simp: after_event_def disposition_def)
      moreover have "apply_retryable_outcome now py u (cl_id r) (cl_status r) (cl_attempt_epoch r)
          (cl_retries_remaining r) s base pre d = Inr (tr_applied_of r', move_call now r' ev d)"
        unfolding apply_retryable_outcome_def using 2 True t hit by auto
      ultimately show ?thesis by blast
    next
      case False
      with 2 show ?thesis by (auto simp: apply_retryable_outcome_def plain after_event_def disposition_def)
    qed
  qed
qed

section \<open>One event\<close>

definition settled_inbox :: "db \<Rightarrow> bool" where
  "settled_inbox d \<longleftrightarrow> list_all (\<lambda>x. ib_processed_at x \<noteq> None) (db_inbox d)"

text \<open>The insert is new, by its id and by the provider's event id.\<close>

definition inbox_fresh :: "uuid \<Rightarrow> string \<Rightarrow> db \<Rightarrow> bool" where
  "inbox_fresh new_id event_id d \<longleftrightarrow>
     list_all (\<lambda>x. ib_id x \<noteq> new_id \<and> (ib_provider x = ''mock'' \<longrightarrow> ib_provider_event_id x \<noteq> event_id)) (db_inbox d)"

text \<open>The backoff of a retry can be computed: the base reads as a number and no time overflows.\<close>

definition backoff_ready :: "webhook_env \<Rightarrow> db \<Rightarrow> call_row \<Rightarrow> bool" where
  "backoff_ready env d r =
     (case webhook_base_seconds (we_float_of_str env) (we_settings env) r d of
        Inl e \<Rightarrow> False
      | Inr base \<Rightarrow>
          (case next_attempt_time (we_jitter env 0) (we_utc env 0) (cl_attempt_epoch r) base of
             Inl e \<Rightarrow> False | Inr t \<Rightarrow> True))"

text \<open>The drain reads the mock's payloads, handles at least one row, and no one else holds the new row.\<close>

definition mock_delivery :: "delivery \<Rightarrow> bool" where
  "mock_delivery dv \<longleftrightarrow> we_parse_event (dv_env dv) = parse_event \<and> \<not> we_locked (dv_env dv) (dv_id dv) \<and>
     0 < webhook_processor_batch_max (we_settings (dv_env dv))"

definition inbox_row_of :: "delivery \<Rightarrow> string \<Rightarrow> json_dict \<Rightarrow> webhook_inbox_row" where
  "inbox_row_of dv event_id payload =
     \<lparr>ib_id = dv_id dv, ib_provider = ''mock'', ib_provider_event_id = event_id, ib_payload = payload,
      ib_headers = [], ib_received_at = dv_received dv, ib_processed_at = None\<rparr>"

lemma event_sink_fresh:
  assumes "inbox_fresh (dv_id dv) (i @ '':'' @ str_nat k) d"
    and "map_of payload ''provider_event_id'' = Some (JStr (i @ '':'' @ str_nat k))"
  shows "event_sink (dv_id dv) (dv_received dv) payload d =
    Inr (True, d\<lparr>db_inbox := db_inbox d @ [inbox_row_of dv (i @ '':'' @ str_nat k) payload]\<rparr>)"
proof -
  have "find (\<lambda>r. ib_provider r = ''mock'' \<and> ib_provider_event_id r = i @ '':'' @ str_nat k) (db_inbox d) = None"
    "dv_id dv \<notin> ib_id ` set (db_inbox d)"
    using assms(1) by (auto simp: find_None_set inbox_fresh_def list_all_iff)
  with assms(2) show ?thesis
    by (simp add: event_sink_def handle_webhook_ingest_def verify_signature_def dict_get_def inbox_insert_def inbox_row_of_def)
qed

lemma claim_only_row:
  assumes "settled_inbox d" and "\<not> locked (ib_id row)" and "ib_processed_at row = None"
  shows "claim_unprocessed_one locked (d\<lparr>db_inbox := db_inbox d @ [row]\<rparr>) = Some row"
proof -
  have "filter (\<lambda>r. ib_processed_at r = None \<and> \<not> locked (ib_id r)) (db_inbox d) = []"
    using assms(1) by (auto simp: filter_empty_conv settled_inbox_def list_all_iff)
  with assms(2,3) show ?thesis by (simp add: claim_unprocessed_one_def)
qed

lemma drain_settled: "settled_inbox d \<Longrightarrow> drain env n k p a d = (p, a, d)"
proof (cases n)
  case (Suc m)
  assume "settled_inbox d"
  then have "filter (\<lambda>r. ib_processed_at r = None \<and> \<not> we_locked env (ib_id r)) (db_inbox d) = []"
    by (auto simp: filter_empty_conv settled_inbox_def list_all_iff)
  then have "process_one_row env k d = (RowEmpty, d)"
    by (simp add: process_one_row_def webhook_plan_def claim_unprocessed_one_def webhook_commit_def)
  with Suc show ?thesis by simp
qed simp

lemma mark_processed_settles:
  assumes "db_inbox d2 = db_inbox d @ [row]" and "settled_inbox d" and "list_all (\<lambda>x. ib_id x \<noteq> ib_id row) (db_inbox d)"
  shows "settled_inbox (mark_processed now (ib_id row) d2)"
    and "map (\<lambda>x. (ib_id x, ib_provider x, ib_provider_event_id x)) (db_inbox (mark_processed now (ib_id row) d2)) =
         map (\<lambda>x. (ib_id x, ib_provider x, ib_provider_event_id x)) (db_inbox d @ [row])"
proof -
  show "settled_inbox (mark_processed now (ib_id row) d2)"
    using assms by (auto simp: settled_inbox_def mark_processed_def update_where_def list_all_iff)
  show "map (\<lambda>x. (ib_id x, ib_provider x, ib_provider_event_id x)) (db_inbox (mark_processed now (ib_id row) d2)) =
         map (\<lambda>x. (ib_id x, ib_provider x, ib_provider_event_id x)) (db_inbox d @ [row])"
    using assms(1) by (auto simp: mark_processed_def update_where_def)
qed

lemma find_put_row:
  assumes "find P (db_calls d) = Some r" and "cl_id r' = cl_id r" and "P r'" and "distinct (map cl_id (db_calls d))"
  shows "find P (db_calls (put_row r' d)) = Some r'"
proof -
  have "find P (map (\<lambda>x. if cl_id x = cl_id r' then r' else x) xs) = Some r'"
    if "find P xs = Some r" "distinct (map cl_id xs)" for xs
    using that
  proof (induction xs)
    case (Cons x xs)
    have "cl_id x \<noteq> cl_id r" if "\<not> P x"
      using Cons.prems that by (auto dest!: find_Some_iff_set simp: rev_image_eqI)
    with Cons assms(2,3) show ?case by (auto split: if_splits)
  qed simp
  with assms(1,4) show ?thesis by (simp add: put_row_def)
qed

text \<open>The row a transaction planned for the event, and what it commits.\<close>

lemma commit_hits:
  assumes keys: "keys_ok d" and r: "r \<in> set (db_calls d)" "in_phone_index r"
    and s: "s = cl_status r \<or> s = IN_PROGRESS \<or> terminal s" and base: "terminal s \<longrightarrow> backoff_ready env d r"
    and plan: "webhook_plan parse_event (we_float_of_str env) (we_settings env) (we_locked env) d = Inr task"
    and claim: "claim_unprocessed_one (we_locked env) d = Some row"
    and event: "parse_event (ib_payload row) = Inr event" "pe_status_enum event = s"
    and call: "lookup_provider_call (pe_provider_call_id event) d = Inr (Some r)"
  shows "\<exists>oc d2 r'. webhook_commit (we_now env 0) (we_utc env 0) (we_jitter env 0) task d =
        Inr (oc, mark_processed (we_now env 0) (ib_id row) d2) \<and> oc \<noteq> RowEmpty \<and> after_event s r r' \<and>
      db_inbox d2 = db_inbox d \<and> db_calls d2 = db_calls (put_row r' d) \<and>
      (\<not> terminal s \<longrightarrow> db_campaigns d2 = db_campaigns d)"
proof -
  have live: "\<not> terminal (cl_status r)" using r(2) by (rule not_terminal_indexed)
  have applied: "\<not> is_no_op (tr_applied_of r')" for r' by (simp add: is_no_op_def tr_applied_of_def)
  consider "s = cl_status r" | "s \<noteq> cl_status r" "terminal s" | "s \<noteq> cl_status r" "s = IN_PROGRESS"
    using s by blast
  then show ?thesis
  proof cases
    case 1
    then have "task = SameState row" using plan claim event call by (simp add: webhook_plan_def)
    moreover have "after_event s r r"
      using 1 live by (cases "cl_status r") (simp_all add: after_event_def disposition_def terminal_iff)
    moreover have "db_calls (put_row r d) = db_calls d"
      using keys r(1) by (auto simp: put_row_def keys_ok_def dest: call_key_eq intro!: map_idI)
    ultimately show ?thesis by (intro exI [of _ RowStale] exI [of _ d] exI [of _ r]) (simp add: webhook_commit_def)
  next
    case 2
    then obtain base t where b: "webhook_base_seconds (we_float_of_str env) (we_settings env) r d = Inr base"
      and t: "next_attempt_time (we_jitter env 0) (we_utc env 0) (cl_attempt_epoch r) base = Inr t"
      using base by (auto simp: backoff_ready_def split: sum.splits)
    have "task = TerminalEvent row event r base" using plan claim event call b 2 by (simp add: webhook_plan_def)
    moreover obtain r' ev where "apply_retryable_outcome (we_now env 0) (we_utc env 0) (we_jitter env 0) (cl_id r)
        (cl_status r) (cl_attempt_epoch r) (cl_retries_remaining r) s base ''webhook'' d =
        Inr (tr_applied_of r', move_call (we_now env 0) r' ev d)" "after_event s r r'"
      using outcome_hits [OF keys r 2(2) t] by blast
    ultimately show ?thesis
      using 2 event(2)
      by (intro exI [of _ RowApplied] exI [of _ "move_call (we_now env 0) r' ev d"] exI [of _ r'])
        (simp add: webhook_commit_def finish_event_def applied move_call_def Let_def)
  next
    case 3
    then have "task = IntermediateEvent row event r"
      using plan claim event call by (simp add: webhook_plan_def terminal_iff)
    moreover define r' where "r' = r\<lparr>cl_status := IN_PROGRESS, cl_updated_at := we_now env 0\<rparr>"
    moreover have "transition (we_now env 0) (cl_id r) (cl_status r) IN_PROGRESS (cl_attempt_epoch r) None TRANSITION
        reason extra [] d = Inr (tr_applied_of r', move_call (we_now env 0) r'
          (transition_event r' TRANSITION reason (cl_status r) IN_PROGRESS extra) d)" for reason extra
      by (rule transition_hits [OF keys r(1) live _ _ _ r(2)]) (simp_all add: null_violation_def transition_row_plain r'_def)
    ultimately show ?thesis
      using 3 event(2)
      by (intro exI [of _ RowApplied] exI [of _ "move_call (we_now env 0) r' (transition_event r' TRANSITION
            (''webhook '' @ call_status_value IN_PROGRESS) (cl_status r) IN_PROGRESS
            [(''provider_event_id'', pe_provider_event_id event), (''provider_call_id'', pe_provider_call_id event)]) d"]
          exI [of _ r'])
        (simp add: webhook_commit_def finish_event_def applied move_call_def Let_def after_event_def terminal_iff)
  qed
qed

text \<open>The call that a handle names, with nothing left in the inbox.\<close>

definition handle_names :: "string \<Rightarrow> call_row \<Rightarrow> db \<Rightarrow> bool" where
  "handle_names i r d \<longleftrightarrow> db_inv d \<and> settled_inbox d \<and> get_by_provider_call_id i d = Some r"

lemma deliver_effect:
  assumes d: "handle_names i r d" and idx: "in_phone_index r"
    and s: "s = cl_status r \<or> s = IN_PROGRESS \<or> terminal s" and base: "terminal s \<longrightarrow> backoff_ready (dv_env dv) d r"
    and dv: "mock_delivery dv" and fresh: "inbox_fresh (dv_id dv) (i @ '':'' @ str_nat (Suc (mp_event_seq m))) d"
  shows "\<exists>d' r'. deliver dv (fst (emit_payload i s m)) d = (True, d') \<and> after_event s r r' \<and> handle_names i r' d' \<and>
      r' \<in> set (db_calls d') \<and> (\<not> terminal s \<longrightarrow> db_campaigns d' = db_campaigns d) \<and>
      (\<forall>n e. inbox_fresh n e d' \<longleftrightarrow>
         inbox_fresh n e d \<and> n \<noteq> dv_id dv \<and> e \<noteq> i @ '':'' @ str_nat (Suc (mp_event_seq m)))"
proof -
  let ?e = "i @ '':'' @ str_nat (Suc (mp_event_seq m))"
  let ?payload = "fst (emit_payload i s m)"
  let ?env = "dv_env dv"
  define row where "row = inbox_row_of dv ?e ?payload"
  define d1 where "d1 = d\<lparr>db_inbox := db_inbox d @ [row]\<rparr>"
  define event where "event = \<lparr>pe_provider_event_id = JStr ?e, pe_provider_call_id = JStr i, pe_status_enum = s\<rparr>"
  have row: "ib_id row = dv_id dv" "ib_processed_at row = None" "ib_payload row = ?payload"
    "ib_provider row = ''mock''" "ib_provider_event_id row = ?e"
    by (simp_all add: row_def inbox_row_of_def)
  have r: "get_by_provider_call_id i d = Some r" "settled_inbox d" "r \<in> set (db_calls d)" "cl_provider_call_id r = Some i"
    using d by (auto simp: handle_names_def get_by_provider_call_id_def dest: find_Some_iff_set)
  have inv1: "db_inv d1" using d by (subst db_inv_cong [of d1 d]) (simp_all add: d1_def handle_names_def)
  have sink: "event_sink (dv_id dv) (dv_received dv) ?payload d = Inr (True, d1)"
    unfolding d1_def row_def by (rule event_sink_fresh [OF fresh]) (simp add: emit_payload_def Let_def)
  have claim: "claim_unprocessed_one (we_locked ?env) d1 = Some row"
    unfolding d1_def using r(2) dv row by (intro claim_only_row) (simp_all add: mock_delivery_def)
  have parse: "parse_event (ib_payload row) = Inr event"
    by (simp add: row parse_emit_payload event_def)
  have call: "lookup_provider_call (pe_provider_call_id event) d1 = Inr (Some r)"
    using r(1) by (simp add: lookup_provider_call_def get_by_provider_call_id_def event_def d1_def)
  have base1: "terminal s \<longrightarrow> backoff_ready ?env d1 r"
    using base by (simp add: backoff_ready_def webhook_base_seconds_def campaign_get_def d1_def)
  have ev: "pe_status_enum event = s" by (simp add: event_def)
  have "\<exists>base. terminal s \<longrightarrow> webhook_base_seconds (we_float_of_str ?env) (we_settings ?env) r d1 = Inr base"
    using base1 by (cases "webhook_base_seconds (we_float_of_str ?env) (we_settings ?env) r d1") (auto simp: backoff_ready_def)
  then obtain task where plan: "webhook_plan parse_event (we_float_of_str ?env) (we_settings ?env) (we_locked ?env) d1 = Inr task"
    using claim parse call ev by (cases "s = cl_status r"; cases "terminal s") (auto simp: webhook_plan_def)
  have r1: "r \<in> set (db_calls d1)" using r(3) by (simp add: d1_def)
  obtain oc d2 r' where hit: "webhook_commit (we_now ?env 0) (we_utc ?env 0) (we_jitter ?env 0) task d1 =
        Inr (oc, mark_processed (we_now ?env 0) (ib_id row) d2)" "oc \<noteq> RowEmpty" "after_event s r r'"
      "db_inbox d2 = db_inbox d @ [row]" "db_calls d2 = db_calls (put_row r' d)"
      "\<not> terminal s \<longrightarrow> db_campaigns d2 = db_campaigns d"
    using commit_hits [OF db_invD(4) [OF inv1] r1 idx s base1 plan claim parse ev call]
    by (auto simp: d1_def put_row_def)
  define d3 where "d3 = mark_processed (we_now ?env 0) (ib_id row) d2"
  have ids: "list_all (\<lambda>x. ib_id x \<noteq> ib_id row) (db_inbox d)"
    using fresh row by (auto simp: inbox_fresh_def list_all_iff)
  note marked = mark_processed_settles [OF hit(4) r(2) ids, of "we_now ?env 0", folded d3_def]
  have one: "process_one_row ?env 0 d1 = (oc, d3)"
    using plan hit(1) dv by (simp add: process_one_row_def mock_delivery_def d3_def)
  obtain n where "webhook_processor_batch_max (we_settings ?env) = Suc n"
    using dv by (metis gr0_conv_Suc mock_delivery_def)
  then have "snd (snd (process_pending_inbox ?env d1)) = d3"
    using drain_step [OF one hit(2)] drain_settled [OF marked(1)]
    by (simp add: process_pending_inbox_def del: drain.simps)
  then have run: "deliver dv ?payload d = (True, d3)" by (simp add: deliver_def sink)
  have inv3: "db_inv d3" using process_one_row_inv [OF inv1, of ?env 0] by (simp add: one)
  have r'id: "cl_id r' = cl_id r" "cl_provider_call_id r' = Some i" using hit(3) r(4) by (auto simp: after_event_def)
  have "get_by_provider_call_id i d3 = Some r'"
    using find_put_row [OF r(1) [unfolded get_by_provider_call_id_def] r'id(1) r'id(2)] d
    by (simp add: get_by_provider_call_id_def d3_def hit(5) handle_names_def db_invD)
  then have names: "handle_names i r' d3" using inv3 marked(1) by (simp add: handle_names_def)
  then have mem: "r' \<in> set (db_calls d3)"
    by (auto simp: handle_names_def get_by_provider_call_id_def dest: find_Some_iff_set)
  have "inbox_fresh n e d' = list_all (\<lambda>(j, p, ev). j \<noteq> n \<and> (p = ''mock'' \<longrightarrow> ev \<noteq> e))
      (map (\<lambda>x. (ib_id x, ib_provider x, ib_provider_event_id x)) (db_inbox d'))" for n e d'
    by (simp add: inbox_fresh_def list_all_iff)
  then have "inbox_fresh n e d3 \<longleftrightarrow> inbox_fresh n e d \<and> n \<noteq> dv_id dv \<and> e \<noteq> ?e" for n e
    using marked(2) row by auto
  moreover have "\<not> terminal s \<longrightarrow> db_campaigns d3 = db_campaigns d" using hit(6) by (simp add: d3_def)
  ultimately show ?thesis using run hit(3) names mem by blast
qed

section \<open>A whole simulation\<close>

lemma sim_emit_first [simp]: "fst (sim_emit ok i s pc m) = Some (fst (emit_payload i s m))"
  by (simp add: sim_emit_def emit_payload_def set_mock_status_def Let_def)

lemma sim_emit_seq [simp]: "mp_event_seq (snd (sim_emit ok i s pc m)) = Suc (mp_event_seq m)"
  by (simp add: sim_emit_def emit_payload_def Let_def)

lemma sim_emit_known [simp]: "mp_states (snd (sim_emit ok i s pc m)) i = None \<longleftrightarrow> mp_states m i = None"
  by (simp add: sim_emit_def emit_payload_def Let_def)

lemma run_call_ended: "mp_tasks m i = None \<Longrightarrow> run_call stg roll i dvs (m, d) = (m, d)"
  by (cases dvs) (simp_all add: simulate_step_def)

text \<open>One step of the simulation with its delivery; \<open>s\<close> is the status it emits and \<open>pc\<close> where it goes.\<close>

lemma run_call_step:
  assumes step: "\<And>ok. simulate_step stg roll ok i m = sim_emit ok i s pc m"
    and dv: "deliver dv (fst (emit_payload i s m)) d = (True, d')"
  shows "run_call stg roll i (dv # dvs) (m, d) = run_call stg roll i dvs (snd (sim_emit True i s pc m), d')"
  using dv by (simp add: step)

declare run_call.simps(2) [simp del]

lemma backoff_ready_after:
  assumes "after_event s r r'" and "db_campaigns d' = db_campaigns d"
  shows "backoff_ready env d' r' = backoff_ready env d r"
proof -
  have "webhook_base_seconds f g r' d' = webhook_base_seconds f g r d" for f g
    using assms by (simp add: after_event_def webhook_base_seconds_def campaign_get_def)
  moreover have "cl_attempt_epoch r' = cl_attempt_epoch r" using assms(1) by (simp add: after_event_def)
  ultimately show ?thesis by (simp add: backoff_ready_def split: sum.split)
qed

lemma after_event_trans:
  "after_event s q r \<Longrightarrow> s = DIALING \<or> s = IN_PROGRESS \<Longrightarrow> after_event t r r' \<Longrightarrow> after_event t q r'"
  by (auto simp: after_event_def)

lemma draw_terminal_cases: "draw_terminal stg roll \<in> {FAILED, NO_ANSWER, COMPLETED}"
  by (simp add: draw_terminal_def Let_def)

text \<open>The deliveries of one simulation: new inbox ids, and no event of the call ingested yet.\<close>

definition deliveries_ready :: "string \<Rightarrow> nat \<Rightarrow> delivery list \<Rightarrow> call_row \<Rightarrow> db \<Rightarrow> bool" where
  "deliveries_ready i seq dvs r d \<longleftrightarrow> distinct (map dv_id dvs) \<and> list_all mock_delivery dvs \<and>
     list_all (\<lambda>dv. backoff_ready (dv_env dv) d r) dvs \<and>
     list_all (\<lambda>dv. list_all (\<lambda>k. inbox_fresh (dv_id dv) (i @ '':'' @ str_nat (seq + k)) d) [1, 2, 3]) dvs"

text \<open>A step that keeps the call in flight, and the step that ends it.\<close>

lemma deliveries_ready_step:
  assumes ready: "deliveries_ready i seq (dv # dvs) r d" and k: "k < 3" and seq: "seq + k = mp_event_seq m"
    and r: "handle_names i q d'" "in_phone_index q" "after_event t r q" "db_campaigns d' = db_campaigns d"
    and fresh: "\<And>n e. inbox_fresh n e d' \<longleftrightarrow> inbox_fresh n e d \<and> n \<notin> used \<and> e \<notin> (\<lambda>j. i @ '':'' @ str_nat (seq + j)) ` {1..k}"
    and used: "used \<inter> dv_id ` set (dv # dvs) = {}" and s: "s = cl_status q \<or> s = IN_PROGRESS \<or> terminal s"
  shows "\<exists>d'' q'. deliver dv (fst (emit_payload i s m)) d' = (True, d'') \<and> after_event s q q' \<and> handle_names i q' d'' \<and>
      q' \<in> set (db_calls d'') \<and> (\<not> terminal s \<longrightarrow> db_campaigns d'' = db_campaigns d) \<and>
      (\<forall>n e. inbox_fresh n e d'' \<longleftrightarrow> inbox_fresh n e d \<and> n \<notin> insert (dv_id dv) used \<and>
         e \<notin> (\<lambda>j. i @ '':'' @ str_nat (seq + j)) ` {1..Suc k}) \<and>
      insert (dv_id dv) used \<inter> dv_id ` set dvs = {}"
proof -
  have e: "i @ '':'' @ str_nat (Suc (mp_event_seq m)) = i @ '':'' @ str_nat (seq + Suc k)" using seq by simp
  have "Suc k \<in> set [1, 2, 3]" using k by auto
  then have "inbox_fresh (dv_id dv) (i @ '':'' @ str_nat (seq + Suc k)) d"
    using ready unfolding deliveries_ready_def list_all_iff by (meson list.set_intros(1))
  moreover have "i @ '':'' @ str_nat (seq + Suc k) \<notin> (\<lambda>j. i @ '':'' @ str_nat (seq + j)) ` {1..k}"
    using str_nat_inj by fastforce
  ultimately have new: "inbox_fresh (dv_id dv) (i @ '':'' @ str_nat (Suc (mp_event_seq m))) d'"
    unfolding e fresh using used by auto
  have base: "terminal s \<longrightarrow> backoff_ready (dv_env dv) d' q"
    using ready backoff_ready_after [OF r(3,4)] by (simp add: deliveries_ready_def)
  have dv: "mock_delivery dv" using ready by (simp add: deliveries_ready_def)
  have "dv_id dv \<notin> dv_id ` set dvs" using ready by (simp add: deliveries_ready_def)
  then have disj: "insert (dv_id dv) used \<inter> dv_id ` set dvs = {}" using used by auto
  have range: "{1..Suc k} = insert (Suc k) {1..k}" by auto
  from deliver_effect [OF r(1,2) s base dv new] obtain d'' q' where eff:
    "deliver dv (fst (emit_payload i s m)) d' = (True, d'')" "after_event s q q'" "handle_names i q' d''"
    "q' \<in> set (db_calls d'')" "\<not> terminal s \<longrightarrow> db_campaigns d'' = db_campaigns d'"
    "\<And>n e. inbox_fresh n e d'' \<longleftrightarrow> inbox_fresh n e d' \<and> n \<noteq> dv_id dv \<and> e \<noteq> i @ '':'' @ str_nat (seq + Suc k)"
    unfolding e by blast
  have "inbox_fresh n e d'' \<longleftrightarrow> inbox_fresh n e d \<and> n \<notin> insert (dv_id dv) used \<and>
      e \<notin> (\<lambda>j. i @ '':'' @ str_nat (seq + j)) ` {1..Suc k}" for n e
    unfolding eff(6) fresh range by auto
  with eff disj r(4) show ?thesis by auto
qed

lemma simulated_call_runs:
  assumes names: "handle_names i r d" and dialing: "cl_status r = DIALING" and start: "mp_tasks m i = Some SimStart"
    and ready: "deliveries_ready i (mp_event_seq m) (a # b # c # dvs) r d"
  shows "\<exists>m' d' r'. run_call stg roll i (a # b # c # dvs) (m, d) = (m', d') \<and> mp_tasks m' i = None \<and>
    (mp_states m i \<noteq> None \<longrightarrow> get_status i m' = Inr (draw_terminal stg roll)) \<and> handle_names i r' d' \<and>
    r' \<in> set (db_calls d') \<and> after_event (draw_terminal stg roll) r r'"
proof -
  let ?seq = "mp_event_seq m" and ?t = "draw_terminal stg roll"
  have t: "?t = COMPLETED \<or> terminal ?t \<and> ?t \<noteq> COMPLETED" "terminal ?t"
    using draw_terminal_cases [of stg roll] by (auto simp: terminal_iff)
  have idx: "in_phone_index q" if "cl_status q = DIALING \<or> cl_status q = IN_PROGRESS" for q
    using that by (auto simp: in_phone_index_def)
  have same: "after_event DIALING r r" using dialing by (simp add: after_event_def)
  have tl: "deliveries_ready i ?seq (b # c # dvs) r d" "deliveries_ready i ?seq (c # dvs) r d"
    using ready by (simp_all add: deliveries_ready_def)
  obtain d1 r1 where s1: "deliver a (fst (emit_payload i DIALING m)) d = (True, d1)" "after_event DIALING r r1"
      "handle_names i r1 d1" "db_campaigns d1 = db_campaigns d"
      "\<And>n e. inbox_fresh n e d1 \<longleftrightarrow> inbox_fresh n e d \<and> n \<notin> {dv_id a} \<and>
         e \<notin> (\<lambda>j. i @ '':'' @ str_nat (?seq + j)) ` {1..Suc 0}"
      "{dv_id a} \<inter> dv_id ` set (b # c # dvs) = {}"
    using deliveries_ready_step [OF ready, of 0 m r d DIALING "{}" DIALING] names dialing same idx
    by (auto simp: terminal_iff)
  have r1: "cl_status r1 = DIALING" using s1(2) by (simp add: after_event_def)
  define m1 where "m1 = snd (sim_emit True i DIALING (Some (SimDialing ?t)) m)"
  have m1: "mp_tasks m1 i = Some (SimDialing ?t)" "mp_event_seq m1 = Suc ?seq" "mp_states m1 i = None \<longleftrightarrow> mp_states m i = None"
    by (simp_all add: m1_def sim_emit_tasks)
  have run1: "run_call stg roll i (a # b # c # dvs) (m, d) = run_call stg roll i (b # c # dvs) (m1, d1)"
    unfolding m1_def by (rule run_call_step [OF simulate_step_pc(2) [OF start] s1(1)])
  show ?thesis
  proof (cases "?t = COMPLETED")
    case False
    obtain d2 r2 where s2: "deliver b (fst (emit_payload i ?t m1)) d1 = (True, d2)" "after_event ?t r1 r2"
        "handle_names i r2 d2" "r2 \<in> set (db_calls d2)"
      using deliveries_ready_step [OF tl(1), of "Suc 0" m1 r1 d1 DIALING "{dv_id a}" ?t] s1 m1 r1 idx t by auto
    have "run_call stg roll i (b # c # dvs) (m1, d1) = run_call stg roll i (c # dvs) (snd (sim_emit True i ?t None m1), d2)"
      using False by (intro run_call_step [OF _ s2(1)]) (simp add: simulate_step_pc(3) [OF m1(1)])
    with run1 s2(3,4) after_event_trans [OF s1(2) _ s2(2)] m1(3) show ?thesis
      by (simp add: run_call_ended sim_emit_tasks sim_emit_states) blast
  next
    case True
    obtain d2 r2 where s2: "deliver b (fst (emit_payload i IN_PROGRESS m1)) d1 = (True, d2)" "after_event IN_PROGRESS r1 r2"
        "handle_names i r2 d2" "db_campaigns d2 = db_campaigns d"
        "\<And>n e. inbox_fresh n e d2 \<longleftrightarrow> inbox_fresh n e d \<and> n \<notin> {dv_id b, dv_id a} \<and>
           e \<notin> (\<lambda>j. i @ '':'' @ str_nat (?seq + j)) ` {1..Suc (Suc 0)}"
        "{dv_id b, dv_id a} \<inter> dv_id ` set (c # dvs) = {}"
      using deliveries_ready_step [OF tl(1), of "Suc 0" m1 r1 d1 DIALING "{dv_id a}" IN_PROGRESS] s1 m1 r1 idx
      by (auto simp: terminal_iff)
    note r2 = after_event_trans [OF s1(2) _ s2(2)]
    have st2: "cl_status r2 = IN_PROGRESS" using s2(2) by (simp add: after_event_def)
    define m2 where "m2 = snd (sim_emit True i IN_PROGRESS (Some (SimTalking ?t)) m1)"
    have m2: "mp_tasks m2 i = Some (SimTalking ?t)" "mp_event_seq m2 = Suc (Suc ?seq)"
      "mp_states m2 i = None \<longleftrightarrow> mp_states m i = None"
      by (simp_all add: m2_def sim_emit_tasks m1(2,3))
    have run2: "run_call stg roll i (b # c # dvs) (m1, d1) = run_call stg roll i (c # dvs) (m2, d2)"
      unfolding m2_def using True by (intro run_call_step [OF _ s2(1)]) (simp add: simulate_step_pc(3) [OF m1(1)])
    obtain d3 r3 where s3: "deliver c (fst (emit_payload i ?t m2)) d2 = (True, d3)" "after_event ?t r2 r3"
        "handle_names i r3 d3" "r3 \<in> set (db_calls d3)"
      using deliveries_ready_step [OF tl(2), of "Suc (Suc 0)" m2 r2 d2 IN_PROGRESS "{dv_id b, dv_id a}" ?t]
        s2 m2 st2 r2 idx t by auto
    have "run_call stg roll i (c # dvs) (m2, d2) = run_call stg roll i dvs (snd (sim_emit True i ?t None m2), d3)"
      by (intro run_call_step [OF _ s3(1)]) (simp add: simulate_step_pc(4) [OF m2(1)])
    with run1 run2 s3(3,4) after_event_trans [OF r2 _ s3(2)] m2(3) show ?thesis
      by (simp add: run_call_ended sim_emit_tasks sim_emit_states) blast
  qed
qed

text \<open>C17: a dialled call, end to end: the mock's simulation, run to its end with each event ingested by the
  event sink and drained before the next, leaves the call at the disposition drawn for it: COMPLETED or
  FAILED as such, NO_ANSWER as one retry scheduled while the budget lasts and FAILED after it. The adapter
  reports the same outcome, its task has ended, nothing is left in the inbox and the database invariant holds.\<close>

theorem simulated_call_settles:
  assumes "handle_names i r d" and "cl_status r = DIALING" and "mock_ok m" and "mp_tasks m i = Some SimStart"
    and "3 \<le> length dvs" and "deliveries_ready i (mp_event_seq m) dvs r d"
  shows "mp_tasks (fst (run_call stg roll i dvs (m, d))) i = None \<and>
    get_status i (fst (run_call stg roll i dvs (m, d))) = Inr (draw_terminal stg roll) \<and>
    db_inv (snd (run_call stg roll i dvs (m, d))) \<and> settled_inbox (snd (run_call stg roll i dvs (m, d))) \<and>
    (\<exists>r' \<in> set (db_calls (snd (run_call stg roll i dvs (m, d)))). cl_id r' = cl_id r \<and>
       cl_attempt_epoch r' = cl_attempt_epoch r \<and>
       (cl_status r', cl_retries_remaining r') = disposition (draw_terminal stg roll) (cl_retries_remaining r))"
proof -
  obtain a b c rest where "dvs = a # b # c # rest" using assms(5) by (auto simp: eval_nat_numeral Suc_le_length_iff)
  with simulated_call_runs [OF assms(1,2,4), of a b c rest stg roll] assms(3,4,6) show ?thesis
    by (auto simp: after_event_def handle_names_def mock_ok_def)
qed

definition ex_delivery :: "uuid \<Rightarrow> delivery" where
  "ex_delivery n =
     \<lparr>dv_id = n, dv_received = int n,
      dv_env = \<lparr>we_parse_event = parse_event, we_float_of_str = (\<lambda>_. None), we_settings = default_settings,
                we_locked = (\<lambda>_. False), we_now = (\<lambda>_. 9), we_utc = (\<lambda>_. 9), we_jitter = (\<lambda>_. 0)\<rparr>\<rparr>"

definition ex_mock :: mock_provider where
  "ex_mock = mock_init\<lparr>mp_states := [''mock-1'' \<mapsto> \<lparr>mc_provider_call_id = ''mock-1'', mc_phone = ''+15550000001'',
       mc_idempotency_key = ''11:1'', mc_status = DIALING\<rparr>], mp_tasks := [''mock-1'' \<mapsto> SimStart]\<rparr>"

lemma ex_delivery_ready:
  "deliveries_ready ''mock-1'' 0 (map ex_delivery [41, 42, 43]) (hd (db_calls ex_dialing)) ex_dialing"
  by (simp add: deliveries_ready_def mock_delivery_def inbox_fresh_def backoff_ready_def webhook_base_seconds_def
      campaign_get_def dict_get_def ex_delivery_def ex_db_defs ex_defs default_settings_def
      next_attempt_time_def compute_backoff_def backoff_exponent_def timedelta_of_seconds_def round_half_even_def
      timedelta_max_def datetime_plus_def datetime_min_def datetime_max_def Let_def)

theorem simulated_call_settles_witness:
  "draw_terminal default_settings (99 / 100) = COMPLETED \<and>
   (\<exists>r' \<in> set (db_calls (snd (run_call default_settings (99 / 100) ''mock-1'' (map ex_delivery [41, 42, 43])
      (ex_mock, ex_dialing)))). cl_id r' = 11 \<and> cl_status r' = COMPLETED)"
proof -
  let ?r = "hd (db_calls ex_dialing)"
  have r: "handle_names ''mock-1'' ?r ex_dialing" "cl_status ?r = DIALING" "cl_id ?r = 11"
    using ex_dialing_inv
    by (simp_all add: handle_names_def settled_inbox_def get_by_provider_call_id_def ex_db_defs ex_defs)
  have m: "mock_ok ex_mock" "mp_tasks ex_mock ''mock-1'' = Some SimStart" "mp_event_seq ex_mock = 0"
    by (simp_all add: mock_ok_def ex_mock_def mock_init_def)
  have "draw_terminal default_settings (99 / 100) = COMPLETED"
    by (simp add: draw_terminal_def default_settings_def mock_failure_rate_effective_def)
  with simulated_call_settles [OF r(1,2) m(1,2), of "map ex_delivery [41, 42, 43]" default_settings "99 / 100"]
    ex_delivery_ready r(3) show ?thesis by (auto simp: m(3))
qed

end
