(* ===== verification/Spec2Isabelle.thy ===== *)
theory Spec2Isabelle
  imports State_Properties Scheduler_Properties Api_Properties Listing_Properties Lifespan
    Fairness_Properties Budget_Properties Demo_Scripts Jsonb Json_Fuel
    Call_Pipeline
begin

text \<open>
  A verification library for the voice-campaign scheduler of this repository (the Python package
  under \<^verbatim>\<open>src/app\<close>). Operators create campaigns of phone numbers; a scheduler loop dials them
  through a telephony provider, respecting business hours, a concurrency cap per campaign, retries
  with backoff and round-robin fairness; provider webhooks move the calls on; a sweep reclaims calls
  that got stuck; every decision is written to an append-only audit log.

  \<^bold>\<open>Shape of the model.\<close> The PostgreSQL database is a record \<open>db\<close> of tables (lists of row records, with
  the keys, the foreign key and the partial unique phone index of \<^verbatim>\<open>schema.sql\<close>). A repository query is
  a function of it, a transaction is a function from the database to an error or to a result and the
  next database, and an error means a rollback: the caller keeps the database it had. \<open>NOW()\<close>, clocks,
  random jitter, drawn ids, rows that other transactions hold (\<open>SKIP LOCKED\<close>), the provider's
  answers, the zone database, the zone of the process and \<^verbatim>\<open>phonenumbers\<close> are arguments. Timestamps are
  integers of microseconds, Python floats rationals; \<open>timedelta\<close> and \<open>datetime\<close> overflow is
  modelled, as the error it raises. UUIDs are naturals (below $2^{128}$ where it matters).

  \<^bold>\<open>Theories, in the order the code has its parts.\<close>
  \<^item> \<^verbatim>\<open>Prelude\<close>, \<^verbatim>\<open>Schema\<close>, \<^verbatim>\<open>Audit_Log\<close>: errors and results, the generic lemmas on lists of rows,
    the enums and dataclasses (\<^verbatim>\<open>state/types.py\<close>, \<^verbatim>\<open>audit/events.py\<close>, \<^verbatim>\<open>provider/types.py\<close>,
    \<^verbatim>\<open>config.py\<close>), the tables, and \<^verbatim>\<open>audit/emitter.py\<close> with the replay of the log.
  \<^item> \<^verbatim>\<open>Repositories\<close>: the queries of \<^verbatim>\<open>persistence/repositories.py\<close>.
  \<^item> \<^verbatim>\<open>Retry_Policy\<close>, \<^verbatim>\<open>State_Machine\<close>: \<^verbatim>\<open>state/retry_classification.py\<close>, \<^verbatim>\<open>state/retry_apply.py\<close>,
    \<^verbatim>\<open>state/machine.py\<close> (\<open>transition\<close>) and \<^verbatim>\<open>state/campaign_terminal.py\<close>.
  \<^item> \<^verbatim>\<open>Db_Invariant\<close>, \<^verbatim>\<open>Transition_Contract\<close>: the store's invariant \<open>db_inv\<close>, the order \<open>evolves\<close>
    in which rows move, and the locale \<open>db_transaction\<close>, the contract every transaction meets; it is
    interpreted on \<open>transition\<close>, the tick, the webhook, the drain, the reclaim, the sweep, the HTTP
    handlers and the whole service.
  \<^item> \<^verbatim>\<open>Rollup_Locking\<close>: the campaign rollup statement by statement under READ COMMITTED, with and
    without the row lock, refined to the atomic one.
  \<^item> \<^verbatim>\<open>Iso_Time\<close>, \<^verbatim>\<open>Py_Datetime\<close>, \<^verbatim>\<open>Iso_Datetime\<close>: CPython's ISO 8601 reader for times and datetimes, the
    proleptic calendar (\<open>ord2ymd\<close> inverts \<open>ymd2ord\<close>), \<open>isoformat\<close> and its round trip.
  \<^item> \<^verbatim>\<open>Number_Text\<close>, \<^verbatim>\<open>Base64\<close>, \<^verbatim>\<open>Json_Text\<close>, \<^verbatim>\<open>Cursors\<close>: \<open>int\<close> and \<open>UUID\<close> of a text, URL-safe Base64,
    JSON documents, and the pagination cursors of \<^verbatim>\<open>persistence/repositories.py\<close> and \<^verbatim>\<open>audit/reader.py\<close> built from them.
  \<^item> \<^verbatim>\<open>Jsonb\<close>: \<open>json.dumps\<close> of any value, and what the repositories, the emitter and the audit reader
    do with a JSONB column; the round trip covers every value without floats. \<^verbatim>\<open>Json_Fuel\<close>: the JSON reader
    consumes, and its fuel is no bound.
  \<^item> \<^verbatim>\<open>Business_Hours\<close>: \<^verbatim>\<open>scheduler/business_hours.py\<close>.
  \<^item> \<^verbatim>\<open>Scheduler_Tick\<close>, \<^verbatim>\<open>Scheduler_Facts\<close>, \<^verbatim>\<open>Tick_Correct\<close>: \<^verbatim>\<open>scheduler/tick.py\<close>.
  \<^item> \<^verbatim>\<open>Webhook_Processor\<close>, \<^verbatim>\<open>Webhook_Facts\<close>: \<^verbatim>\<open>scheduler/webhook_processor.py\<close>, its safety-net loop included.
  \<^item> \<^verbatim>\<open>Reclaim\<close>, \<^verbatim>\<open>Reclaim_Facts\<close>: \<^verbatim>\<open>scheduler/reclaim.py\<close>, its sweep loop included.
  \<^item> \<^verbatim>\<open>Wake_Loop\<close>: \<^verbatim>\<open>scheduler/wake.py\<close> and \<^verbatim>\<open>scheduler/loop.py\<close>.
  \<^item> \<^verbatim>\<open>Mock_Provider\<close>: \<^verbatim>\<open>provider/mock.py\<close> behind the locale \<open>telephony_provider\<close>
    (\<^verbatim>\<open>provider/base.py\<close>).
  \<^item> \<^verbatim>\<open>Campaign_Schema\<close>, \<^verbatim>\<open>Api\<close>, \<^verbatim>\<open>Api_Facts\<close>: \<^verbatim>\<open>api/schemas/campaigns.py\<close> and the handlers of
    \<^verbatim>\<open>api/routers\<close> and \<^verbatim>\<open>api/webhooks_ingest.py\<close>.
  \<^item> \<^verbatim>\<open>Keyset\<close>, \<^verbatim>\<open>Audit_Reader\<close>, \<^verbatim>\<open>Api_Listings\<close>: the keyset-paginated listings (locale \<open>keyset_listing\<close>,
    interpreted on campaigns, calls and the audit log), the filters of \<^verbatim>\<open>audit/reader.py\<close> and the three
    routes that serve them.
  \<^item> \<^verbatim>\<open>Lifespan\<close>: \<^verbatim>\<open>main.py\<close> and \<^verbatim>\<open>persistence/pools.py\<close>: the pools, the tracked tasks, start-up and shutdown
    as a step relation, the routers included, and the health route.
  \<^item> \<^verbatim>\<open>System\<close>, \<^verbatim>\<open>System_Cap\<close>: the service as a step relation that interleaves the scheduler's
    transactions, any number of drains, the sweep, the handlers and the storage; reachable states
    keep \<open>db_inv\<close>; and the cap over whole runs.
  \<^item> \<^verbatim>\<open>Call_Lifecycle\<close>: the automaton of one call's status and epoch, edge by edge with the actor that may
    take it, and the refinement of it by the service.
  \<^item> \<^verbatim>\<open>Dial_Budget\<close>: the claims and reclaims counted in the audit log, the epoch they add up to, and the
    bound that the configured retries put on the claims.
  \<^item> \<^verbatim>\<open>Fairness\<close>: many ticks in a row; the locale \<open>round_robin\<close> with its bounded wait, interpreted on the
    tick, and the runs of ticks that find nothing to claim.
  \<^item> \<^verbatim>\<open>Call_Pipeline\<close>: the mock's simulation, the event sink of \<^verbatim>\<open>main.py\<close>, the ingestion and the drain
    composed: a dialled call from its first event to its disposition.
  \<^item> \<^verbatim>\<open>Demo_Scripts\<close>: the clients under \<^verbatim>\<open>scripts\<close>: the campaigns they post, their polling loops, and the
    reset of the database.
  \<^item> \<^verbatim>\<open>Examples\<close>, \<^verbatim>\<open>State_Properties\<close>, \<^verbatim>\<open>Scheduler_Properties\<close>, \<^verbatim>\<open>Interface_Properties\<close>,
    \<^verbatim>\<open>Api_Properties\<close>, \<^verbatim>\<open>Listing_Properties\<close>, \<^verbatim>\<open>Fairness_Properties\<close>, \<^verbatim>\<open>Budget_Properties\<close> and this theory: concrete databases and runs, and the numbered properties, each with a witness at a
    concrete input.

  \<^bold>\<open>What is shown.\<close> For the running service, under every interleaving: statuses only move by
  compare-and-set, terminal statuses absorb, campaigns agree with their calls, a phone is dialled
  once, the audit log replays to the tables, inbox rows are processed exclusively, idempotency keys
  are fresh, a call only takes the edges of its automaton, its epoch counts its dials, and the cap
  holds in runs without late IN_PROGRESS events (with a counterexample for the others). In runs where
  the provider keeps to its role a call is dialled at most once per configured retry, per reclaim and
  once more; a campaign that stays entitled waits for at most one dispatch of each other campaign; and a call whose
  simulated events are delivered in order ends at the disposition drawn for it. For the parts: what a tick selects and claims, what dispositions, reclaims and stale
  events do, bounds of the backoff and of the drain, business hours, the wake-up loop, pagination,
  LIKE filters, request validation, ingestion and the mock provider; and the inputs on which the code
  does not do what its comments say (a waiting or a due retry, a payload or a schedule that blocks
  everything behind it).

  \<^bold>\<open>Bounds and fuel.\<close> No definition needs more fuel than the code has: loops are structural recursion on
  the list of rows or on the drain's cap (\<open>webhook_processor_batch_max\<close>). The only fuelled functions
  follow a cursor over pages (\<open>walk\<close>, \<open>follow\<close>), where one page per row is proved enough, the mock's
  trajectory (\<open>simulate\<close>), where three steps are, and the JSON reader, whose calls each read a character
  or descend into an array, so that twice the length of the document is enough: any larger fuel
  reads the same (\<open>json_loads_any_fuel\<close>).

  \<^bold>\<open>Not modelled.\<close> Logging; what FastAPI, pydantic and asyncpg do by themselves (coercions, CORS, static
  files, connections); text outside ASCII; CPython's limits on recursion and on the digits of an
  integer; \<open>transition\<close> called with a plain string for a status; what the demo scripts print, and the links of the tour after the first; the frontend, the
  tests and deployment.
\<close>

section \<open>The store of a running service\<close>

text \<open>C4: in every reachable state each campaign's status agrees with its calls: PENDING campaigns have
  only queued, never-placed calls; ACTIVE ones still have work; COMPLETED and FAILED ones have none,
  with and without a completed call.\<close>

theorem reachable_campaigns_agree:
  assumes "reachable s" and "c \<in> set (db_campaigns (sy_db s))"
  shows "case cp_status c of
      PENDING \<Rightarrow> calls_of (sy_db s) (cp_id c) \<noteq> [] \<and>
        (\<forall>r \<in> set (calls_of (sy_db s) (cp_id c)). cl_status r = QUEUED \<and> cl_provider_call_id r = None)
    | ACTIVE \<Rightarrow> 0 < count_active_by_campaign (sy_db s) (cp_id c)
    | CAMPAIGN_IS_COMPLETED \<Rightarrow> \<not> 0 < count_active_by_campaign (sy_db s) (cp_id c) \<and>
        (\<exists>r \<in> set (calls_of (sy_db s) (cp_id c)). cl_status r = COMPLETED)
    | CAMPAIGN_IS_FAILED \<Rightarrow> \<not> 0 < count_active_by_campaign (sy_db s) (cp_id c) \<and>
        (\<forall>r \<in> set (calls_of (sy_db s) (cp_id c)). cl_status r \<noteq> COMPLETED)"
  using db_invD(6) [OF reachable_db_inv [OF assms(1)] assms(2)] no_active_iff [of "sy_db s" "cp_id c"]
  unfolding campaign_ok_def Let_def by (cases "cp_status c") auto

lemma ex_sys_campaign: "ex_campaign_row \<in> set (db_campaigns (sy_db ex_sys))"
  if "ex_campaign_row = created_campaign ex_io default_settings 7 0 ex_body" for ex_campaign_row
  using that by (simp add: ex_sys_def ex_created_def)

theorem reachable_campaigns_agree_witness:
  "list_all (\<lambda>r. cl_status r = QUEUED \<and> cl_provider_call_id r = None) (calls_of (sy_db ex_sys) 7)"
  using reachable_campaigns_agree [OF ex_sys_reachable ex_sys_campaign [OF refl]]
  by (simp add: created_campaign_def list_all_iff)

text \<open>C2: along every run of the service a call keeps its id, campaign and phone, its attempt epoch never
  decreases and a terminal status is never left; a campaign only moves from PENDING over ACTIVE to a
  final status.\<close>

theorem run_never_reopens:
  assumes "reachable s" and "sys_steps s t"
  shows "(\<forall>r \<in> set (db_calls (sy_db s)). \<exists>r' \<in> set (db_calls (sy_db t)).
       cl_id r' = cl_id r \<and> cl_campaign_id r' = cl_campaign_id r \<and> cl_phone r' = cl_phone r \<and>
       cl_attempt_epoch r \<le> cl_attempt_epoch r' \<and> (terminal (cl_status r) \<longrightarrow> cl_status r' = cl_status r)) \<and>
    (\<forall>c \<in> set (db_campaigns (sy_db s)). \<exists>c' \<in> set (db_campaigns (sy_db t)). cp_id c' = cp_id c \<and>
       (cp_status c' = cp_status c \<or> campaign_rank (cp_status c) < campaign_rank (cp_status c')))"
proof -
  have evo: "evolves (sy_db s) (sy_db t)"
    using service.rows_evolve [of "sy_db s" s "sy_db t"] reachable_inv [OF assms(1)] assms(2)
    by (auto simp: sys_inv_def)
  have "\<exists>c' \<in> set (db_campaigns (sy_db t)). cp_id c' = cp_id c \<and>
       (cp_status c' = cp_status c \<or> campaign_rank (cp_status c) < campaign_rank (cp_status c'))"
    if c: "c \<in> set (db_campaigns (sy_db s))" for c
  proof -
    obtain c' where c': "c' \<in> set (db_campaigns (sy_db t))" "campaign_evolves c c'"
      using evo c by (auto simp: evolves_def)
    with campaign_evolves_id [OF c'(2)] show ?thesis by (auto simp: campaign_evolves_def)
  qed
  with evo show ?thesis by (simp add: evolves_def row_evolves_def) blast
qed

theorem run_never_reopens_witness:
  "\<exists>r' \<in> set (db_calls (sy_db (ex_ready ex_claimed))). cl_id r' = 11 \<and> cl_phone r' = ''+15550000001''"
proof -
  have "new_call_row 0 7 1 11 ''+15550000001'' \<in> set (db_calls (sy_db (ex_ready ex_created)))"
    by (simp add: ex_ready_def ex_seen_calls created_calls_def ex_body_def)
  with run_never_reopens [OF ex_ready_reachable ex_run] show ?thesis
    by (fastforce simp: new_call_row_def)
qed

text \<open>C9: the audit log of every reachable state replays to the stored status of every call and every
  campaign, and records moves of existing rows only.\<close>

theorem reachable_log_replays:
  assumes "reachable s"
  shows "(\<forall>r \<in> set (db_calls (sy_db s)).
       replay_call (cl_id r) (db_audit (sy_db s)) = call_status_value (cl_status r)) \<and>
    (\<forall>c \<in> set (db_campaigns (sy_db s)).
       replay_campaign (cp_id c) (db_audit (sy_db s)) = campaign_status_value (cp_status c)) \<and>
    (\<forall>a \<in> set (db_audit (sy_db s)). \<forall>i.
       (moves_call i (ar_event a) \<longrightarrow> i \<in> cl_id ` set (db_calls (sy_db s))) \<and>
       (moves_campaign i (ar_event a) \<longrightarrow> i \<in> cp_id ` set (db_campaigns (sy_db s))))"
  using db_invD(5) [OF reachable_db_inv [OF assms]] by (simp add: audit_ok_def)

theorem reachable_log_replays_witness:
  "list_all (\<lambda>r. call_status_value (cl_status r) = ''QUEUED'') (db_calls (sy_db ex_sys))"
  using reachable_log_replays [OF ex_sys_reachable]
  by (simp add: list_all_iff ex_sys_def ex_created_def empty_db_def sys_init_def replay_call_def)

text \<open>C5: in every reachable state no phone is queued or in flight in two call rows.\<close>

theorem reachable_phone_dialled_once:
  assumes "reachable s" and "a \<in> set (db_calls (sy_db s))" and "b \<in> set (db_calls (sy_db s))"
    and "cl_status a \<in> {QUEUED, DIALING, IN_PROGRESS}" and "cl_status b \<in> {QUEUED, DIALING, IN_PROGRESS}"
    and "cl_phone a = cl_phone b"
  shows "a = b"
  using phone_index_clash [OF assms(2,3)] assms(4-6) db_invD(3) [OF reachable_db_inv [OF assms(1)]]
  by (auto simp: in_phone_index_def)

theorem reachable_phone_dialled_once_witness:
  "hd (db_calls (sy_db ex_sys)) = new_call_row 0 7 1 11 ''+15550000001''"
proof -
  let ?a = "new_call_row 0 7 1 11 ''+15550000001''"
  have "db_calls (sy_db ex_sys) = [?a, new_call_row 0 7 1 12 ''+15550000002'']"
    by (simp add: ex_sys_def ex_created_def created_calls_def ex_body_def)
  with reachable_phone_dialled_once [OF ex_sys_reachable, of "hd (db_calls (sy_db ex_sys))" ?a]
  show ?thesis by (simp add: new_call_row_def)
qed



text \<open>C10: the drains never work on the same inbox row at once, and a row a drain holds is in the inbox and
  unprocessed, whatever else commits in between.\<close>

theorem reachable_inbox_exclusive:
  assumes "reachable s" and "sy_hooks s j = Some t" and "task_row t = Some i"
  shows "(\<exists>r \<in> set (db_inbox (sy_db s)). ib_id r = i \<and> ib_processed_at r = None) \<and>
    (\<forall>k t'. sy_hooks s k = Some t' \<longrightarrow> task_row t' = Some i \<longrightarrow> k = j)"
  using reachable_held [OF assms(1)] assms(2,3) unfolding held_ok_def by blast

definition ex_answered :: json_dict where
  "ex_answered = [(''provider_event_id'', JStr ''e1''), (''provider_call_id'', JStr ''mock-1''),
                  (''status'', JStr ''COMPLETED'')]"

definition ex_posted :: system where
  "ex_posted = sys_init\<lparr>sy_db := ex_inbox ''e1'' ex_answered empty_db\<rparr>"

lemma ex_posted_reachable: "reachable ex_posted"
proof -
  have "handle_webhook_ingest verify_signature 31 1 ''mock'' ex_answered [] [] (sy_db sys_init) =
      Inr (True, ex_inbox ''e1'' ex_answered empty_db)"
    by (simp add: handle_webhook_ingest_def verify_signature_def dict_get_def inbox_insert_def
        ex_inbox_def ex_answered_def empty_db_def sys_init_def)
  from sys_step.ingest [OF this] show ?thesis
    unfolding reachable_def ex_posted_def by (rule steps_step [OF steps_refl])
qed

lemma ex_held:
  obtains task where "reachable (ex_posted\<lparr>sy_hooks := [0 \<mapsto> task]\<rparr>)" and "task_row task = Some 31"
proof -
  let ?e = "\<lparr>pe_provider_event_id = JStr ''e1'', pe_provider_call_id = JStr ''mock-1'',
      pe_status_enum = COMPLETED\<rparr>"
  have parse: "parse_event ex_answered = Inr ?e"
    by (simp add: parse_event_def dict_index_def ex_answered_def call_status_of_json_def
        call_status_of_value_def all_call_statuses_def)
  have "webhook_plan parse_event (\<lambda>_. None) default_settings (held_rows (sy_hooks ex_posted)) (sy_db ex_posted) =
      Inr (UnknownCall (hd (db_inbox (sy_db ex_posted))) ?e)"
    using parse
    by (simp add: webhook_plan_def claim_unprocessed_one_def held_rows_def ex_posted_def sys_init_def
        ex_inbox_def lookup_provider_call_def get_by_provider_call_id_def empty_db_def)
  from sys_step.hook_plans [OF _ this, of 0] ex_posted_reachable
  have "reachable (ex_posted\<lparr>sy_hooks := [0 \<mapsto> UnknownCall (hd (db_inbox (sy_db ex_posted))) ?e]\<rparr>)"
    unfolding reachable_def by (auto simp: ex_posted_def sys_init_def intro: steps_step)
  then show thesis
    by (rule that) (simp add: task_row_def ex_posted_def ex_inbox_def)
qed

theorem reachable_inbox_exclusive_witness:
  "\<exists>s j t. reachable s \<and> sy_hooks s j = Some t \<and> task_row t = Some 31 \<and>
     (\<exists>r \<in> set (db_inbox (sy_db s)). ib_id r = 31 \<and> ib_processed_at r = None)"
proof -
  obtain task where r: "reachable (ex_posted\<lparr>sy_hooks := [0 \<mapsto> task]\<rparr>)" "task_row task = Some 31" by (rule ex_held)
  have h: "sy_hooks (ex_posted\<lparr>sy_hooks := [0 \<mapsto> task]\<rparr>) 0 = Some task" by simp
  from reachable_inbox_exclusive [OF r(1) h r(2)] r h show ?thesis by blast
qed

text \<open>C7: two claims of one run, in the same or in different ticks and with anything in between, hand
  different idempotency keys to the provider.\<close>

theorem claims_use_fresh_keys:
  assumes "reachable s" and "sy_sched s = SchedReady c"
    and "dispatch_claim locked now c (sy_db s) = Inr (Some cl, d1)"
    and "sys_steps (s\<lparr>sy_db := d1, sy_sched := SchedPlacing c cl\<rparr>) t"
    and "dispatch_claim locked' now' c' (sy_db t) = Inr (Some cl', d2)"
    and "cl_id cl < 2 ^ 128" and "cl_id cl' < 2 ^ 128"
  shows "idem_key cl \<noteq> idem_key cl'"
proof
  assume "idem_key cl = idem_key cl'"
  from idem_key_inj [OF this assms(6,7)] have same: "cl_id cl = cl_id cl'" "cl_attempt_epoch cl = cl_attempt_epoch cl'"
    by simp_all
  let ?s = "s\<lparr>sy_db := d1, sy_sched := SchedPlacing c cl\<rparr>"
  have "sys_step s Scheduler ?s" using assms(2,3) by (rule sys_step.claim)
  then have inv: "sys_inv ?s" using reachable_inv [OF assms(1)] sys_inv_step by blast
  have cl: "cl \<in> set (db_calls d1)"
    using reachable_db_inv [OF assms(1)]
    by (cases rule: dispatch_claim_cases [where locked = locked and now = now and campaign = c])
      (use assms(3) in \<open>auto simp: in_put_row dest: claim_candidate_Some\<close>)
  have t: "sys_inv t" "evolves d1 (sy_db t)" using sys_steps_inv [OF assms(4) inv] by simp_all
  then have db: "db_inv (sy_db t)" by (simp add: sys_inv_def)
  obtain r where r: "r \<in> set (db_calls (sy_db t))" "cl' = claim_row now' r"
    using db
    by (cases rule: dispatch_claim_cases [where locked = locked' and now = now' and campaign = c'])
      (use assms(5) in \<open>auto dest: claim_candidate_Some\<close>)
  obtain r' where r': "r' \<in> set (db_calls (sy_db t))" "row_evolves cl r'"
    using t(2) cl by (auto simp: evolves_def)
  have "r' = r" using r r' same(1) by (intro call_key_eq [OF db_invD(1) [OF db]]) (auto simp: row_evolves_def claim_row_def)
  with r r' same(2) show False by (simp add: row_evolves_def claim_row_def)
qed

theorem claims_use_fresh_keys_witness:
  "idem_key (fst (ex_claim ex_created)) \<noteq> idem_key (fst (ex_claim ex_claimed))"
proof (rule claims_use_fresh_keys [OF ex_ready_reachable])
  show "sy_sched (ex_ready ex_created) = SchedReady (ex_pick ex_created)" by (simp add: ex_ready_def)
  show "dispatch_claim (\<lambda>_. False) 0 (ex_pick ex_created) (sy_db (ex_ready ex_created)) =
      Inr (Some (fst (ex_claim ex_created)), ex_claimed)"
    by (simp add: ex_ready_def ex_claim_first)
  show "sys_steps (ex_ready ex_created\<lparr>sy_db := ex_claimed,
      sy_sched := SchedPlacing (ex_pick ex_created) (fst (ex_claim ex_created))\<rparr>) (ex_ready ex_claimed)"
    using ex_placing_steps by (simp add: ex_ready_def ex_placing_def)
  show "dispatch_claim (\<lambda>_. False) 0 (ex_pick ex_claimed) (sy_db (ex_ready ex_claimed)) =
      Inr (Some (fst (ex_claim ex_claimed)), snd (ex_claim ex_claimed))"
    by (simp add: ex_ready_def ex_claim_second)
qed (simp_all add: ex_claim_ids)

end
